(* ===== verification/Prelude.thy ===== *)
theory Prelude
  imports
    Main
    "HOL-Library.AList"
    "HOL-Library.Multiset"
    "HOL-Library.List_Lexorder"
    "HOL-Library.Char_ord"
    "HOL-Library.Word"
begin

text \<open>
  Shared vocabulary of the development: Go maps as association lists, the string functions of
  the Go standard library the modelled code calls, and the list and ordering lemmas the
  component theories rely on.

  A Go string is a byte sequence, modelled as \<^typ>\<open>string\<close>. The order that
  \<^theory_text>\<open>HOL-Library.List_Lexorder\<close> and \<^theory_text>\<open>HOL-Library.Char_ord\<close> put on
  it is the bytewise lexicographic order Go's \<open><\<close>, \<open>strings.Compare\<close> and \<open>cmp.Compare\<close> use.
\<close>

named_theorems gomap_simps \<open>reading, storing and deleting in Go maps\<close>
named_theorems gostring_simps \<open>equations of the Go string functions\<close>
named_theorems key_order \<open>facts about sorted key sequences\<close>

section \<open>Go maps\<close>

text \<open>
  A Go map is an association list with distinct keys. Its list order stands for the iteration
  order of one run, which Go leaves unspecified: a theorem about an arbitrary list therefore
  holds for every iteration order. \<open>map_of\<close> is the two-valued read, \<open>AList.update\<close> the store
  and \<open>AList.delete\<close> the builtin \<open>delete\<close>.
\<close>

type_synonym ('k, 'v) gomap = "('k \<times> 'v) list"

text \<open>The one-valued read of a \<open>map[K]string\<close>: the empty string for an absent key.\<close>

definition gm_str :: "('k, string) gomap \<Rightarrow> 'k \<Rightarrow> string" where
  "gm_str m k = (case map_of m k of None \<Rightarrow> '''' | Some v \<Rightarrow> v)"

text \<open>The one-valued reads of maps to slices and to counters.\<close>

definition gm_list :: "('k, 'v list) gomap \<Rightarrow> 'k \<Rightarrow> 'v list" where
  "gm_list m k = (case map_of m k of None \<Rightarrow> [] | Some vs \<Rightarrow> vs)"

definition gm_int :: "('k, int) gomap \<Rightarrow> 'k \<Rightarrow> int" where
  "gm_int m k = (case map_of m k of None \<Rightarrow> 0 | Some v \<Rightarrow> v)"

text \<open>\<open>reflect.DeepEqual\<close> on two maps: the same keys with the same values.\<close>

definition gm_eq :: "('k, 'v) gomap \<Rightarrow> ('k, 'v) gomap \<Rightarrow> bool" where
  "gm_eq a b \<longleftrightarrow> (\<forall>k \<in> set (map fst a @ map fst b). map_of a k = map_of b k)"

lemma gm_eq_iff: "gm_eq a b \<longleftrightarrow> map_of a = map_of b"
proof
  assume eq: "gm_eq a b"
  show "map_of a = map_of b"
  proof
    fix k
    show "map_of a k = map_of b k"
    proof (cases "k \<in> set (map fst a @ map fst b)")
      case True
      with eq show ?thesis by (simp add: gm_eq_def)
    next
      case False
      then have "map_of a k = None" "map_of b k = None"
        by (auto simp: map_of_eq_None_iff)
      then show ?thesis by simp
    qed
  qed
qed (simp add: gm_eq_def)

lemma gm_str_update [gomap_simps, simp]:
  "gm_str (AList.update k v m) k' = (if k' = k then v else gm_str m k')"
  by (simp add: gm_str_def update_conv')

lemma gm_str_delete [gomap_simps, simp]:
  "gm_str (AList.delete k m) k' = (if k' = k then '''' else gm_str m k')"
  by (simp add: gm_str_def delete_conv')

lemma gm_str_Nil [gomap_simps, simp]: "gm_str [] k = ''''"
  by (simp add: gm_str_def)

lemma gm_str_Cons [gomap_simps, simp]:
  "gm_str ((k, v) # m) k' = (if k' = k then v else gm_str m k')"
  by (simp add: gm_str_def)

lemma gm_str_nonempty: "gm_str m k \<noteq> '''' \<Longrightarrow> map_of m k = Some (gm_str m k)"
  by (simp add: gm_str_def split: option.splits)

lemma map_of_update_key [gomap_simps, simp]:
  "map_of (AList.update k v m) k' = (if k' = k then Some v else map_of m k')"
  by (simp add: update_conv')

lemma map_of_delete_key [gomap_simps, simp]:
  "map_of (AList.delete k m) k' = (if k' = k then None else map_of m k')"
  by (simp add: delete_conv')

lemma gm_list_simps [gomap_simps, simp]:
  "gm_list (AList.update k v m) k' = (if k' = k then v else gm_list m k')" "gm_list [] k' = []"
  by (simp_all add: gm_list_def)

lemma gm_int_simps [gomap_simps, simp]:
  "gm_int (AList.update k v m) k' = (if k' = k then v else gm_int m k')" "gm_int [] k' = 0"
  by (simp_all add: gm_int_def)

lemma map_of_Some_mem: "map_of m k = Some v \<Longrightarrow> (k, v) \<in> set m"
  by (rule map_of_SomeD)

section \<open>Go strings\<close>

definition has_prefix :: "string \<Rightarrow> string \<Rightarrow> bool" where
  "has_prefix s p \<longleftrightarrow> take (length p) s = p"

definition trim_prefix :: "string \<Rightarrow> string \<Rightarrow> string" where
  "trim_prefix s p = (if has_prefix s p then drop (length p) s else s)"

text \<open>\<open>strings.Cut\<close> with a one-byte separator.\<close>

fun cut :: "char \<Rightarrow> string \<Rightarrow> string \<times> string \<times> bool" where
  "cut c [] = ([], [], False)"
| "cut c (x # xs) =
     (if x = c then ([], xs, True)
      else (case cut c xs of (before, after, found) \<Rightarrow> (x # before, after, found)))"

text \<open>\<open>strings.Split\<close> with a one-byte separator.\<close>

fun split_on :: "char \<Rightarrow> string \<Rightarrow> string list" where
  "split_on c [] = [[]]"
| "split_on c (x # xs) =
     (if x = c then [] # split_on c xs
      else (case split_on c xs of [] \<Rightarrow> [[x]] | y # ys \<Rightarrow> (x # y) # ys))"

text \<open>\<open>strings.Join\<close>.\<close>

fun join :: "string list \<Rightarrow> string \<Rightarrow> string" where
  "join [] sep = []"
| "join [x] sep = x"
| "join (x # y # ys) sep = x @ sep @ join (y # ys) sep"

text \<open>
  \<open>strings.TrimSpace\<close>, \<open>strings.ToUpper\<close> and \<open>strings.ToLower\<close> on ASCII text; bytes of
  multi-byte code points are left alone.
\<close>

definition is_space :: "char \<Rightarrow> bool" where
  "is_space c \<longleftrightarrow> (of_char c :: nat) \<in> {9, 10, 11, 12, 13, 32}"

definition trim_space :: "string \<Rightarrow> string" where
  "trim_space s = rev (dropWhile is_space (rev (dropWhile is_space s)))"

definition upper_char :: "char \<Rightarrow> char" where
  "upper_char c = (let n = (of_char c :: nat) in if 97 \<le> n \<and> n \<le> 122 then char_of (n - 32) else c)"

definition lower_char :: "char \<Rightarrow> char" where
  "lower_char c = (let n = (of_char c :: nat) in if 65 \<le> n \<and> n \<le> 90 then char_of (n + 32) else c)"

definition to_upper :: "string \<Rightarrow> string" where
  "to_upper = map upper_char"

definition to_lower :: "string \<Rightarrow> string" where
  "to_lower = map lower_char"

text \<open>\<open>strconv.Itoa\<close> on a non-negative number and \<open>strconv.Atoi\<close> with its 64-bit range check.\<close>

definition digit_char :: "nat \<Rightarrow> char" where
  "digit_char d = char_of (48 + d)"

definition is_digit :: "char \<Rightarrow> bool" where
  "is_digit c \<longleftrightarrow> 48 \<le> (of_char c :: nat) \<and> (of_char c :: nat) \<le> 57"

definition digit_val :: "char \<Rightarrow> nat" where
  "digit_val c = (of_char c :: nat) - 48"

fun itoa_nat :: "nat \<Rightarrow> string" where
  "itoa_nat n = (if n < 10 then [digit_char n] else itoa_nat (n div 10) @ [digit_char (n mod 10)])"

declare itoa_nat.simps [simp del]

definition digits_val :: "string \<Rightarrow> nat" where
  "digits_val s = foldl (\<lambda>acc c. 10 * acc + digit_val c) 0 s"

definition atoi_digits :: "string \<Rightarrow> nat option" where
  "atoi_digits s = (if s \<noteq> [] \<and> list_all is_digit s then Some (digits_val s) else None)"

definition int64_min :: int where
  "int64_min = - (2 ^ 63)"

definition int64_max :: int where
  "int64_max = 2 ^ 63 - 1"

definition atoi :: "string \<Rightarrow> int option" where
  "atoi s =
     (case (case s of
              [] \<Rightarrow> None
            | c # cs \<Rightarrow>
                if c = CHR ''-'' then map_option (\<lambda>n. - int n) (atoi_digits cs)
                else if c = CHR ''+'' then map_option int (atoi_digits cs)
                else map_option int (atoi_digits s))
      of None \<Rightarrow> None
       | Some v \<Rightarrow> if int64_min \<le> v \<and> v \<le> int64_max then Some v else None)"

section \<open>Lemmas about the string functions\<close>

lemma has_prefix_append [gostring_simps, simp]: "has_prefix (p @ s) p"
  by (simp add: has_prefix_def)

lemma trim_prefix_append [gostring_simps, simp]: "trim_prefix (p @ s) p = s"
  by (simp add: trim_prefix_def)

lemma has_prefixE: "has_prefix s p \<Longrightarrow> \<exists>t. s = p @ t"
  by (metis append_take_drop_id has_prefix_def)

lemma split_on_nonempty [simp]: "split_on c s \<noteq> []"
  by (induction s) (auto split: list.splits)

lemma split_on_no_sep [gostring_simps]: "c \<notin> set s \<Longrightarrow> split_on c s = [s]"
  by (induction s) auto

lemma split_on_append_sep [gostring_simps]:
  "c \<notin> set s \<Longrightarrow> split_on c (s @ c # t) = s # split_on c t"
  by (induction s) auto

lemma split_on_pair:
  "split_on c s = [a, b] \<Longrightarrow> s = a @ c # b \<and> c \<notin> set a \<and> c \<notin> set b"
proof (induction s arbitrary: a b)
  case Nil
  then show ?case by simp
next
  case (Cons x xs)
  show ?case
  proof (cases "x = c")
    case True
    with Cons.prems have a: "a = []" and rest: "split_on c xs = [b]" by auto
    have "xs = b \<and> c \<notin> set b" if "split_on c xs = [b]" for xs b
      using that
    proof (induction xs arbitrary: b)
      case Nil
      then show ?case by simp
    next
      case (Cons y ys)
      then show ?case by (auto split: if_splits list.splits)
    qed
    with rest a True show ?thesis by auto
  next
    case False
    with Cons.prems obtain y where "split_on c xs = [y, b]" "a = x # y"
      by (auto split: list.splits)
    with Cons.IH False show ?thesis by auto
  qed
qed

lemma cut_no_sep [gostring_simps]: "c \<notin> set s \<Longrightarrow> cut c s = (s, [], False)"
  by (induction s) auto

lemma cut_sep [gostring_simps]: "c \<notin> set s \<Longrightarrow> cut c (s @ c # t) = (s, t, True)"
  by (induction s) auto

lemma cut_found: "cut c s = (a, b, True) \<Longrightarrow> s = a @ c # b \<and> c \<notin> set a"
  by (induction s arbitrary: a b) (auto split: if_splits prod.splits)

lemma cut_not_found: "cut c s = (a, b, False) \<Longrightarrow> a = s \<and> b = [] \<and> c \<notin> set s"
  by (induction s arbitrary: a b) (auto split: if_splits prod.splits)

section \<open>Decimal numbers\<close>

lemma of_char_digit [simp]: "d < 10 \<Longrightarrow> (of_char (digit_char d) :: nat) = 48 + d"
  by (simp add: digit_char_def)

lemma digit_val_digit_char [simp]: "d < 10 \<Longrightarrow> digit_val (digit_char d) = d"
  by (simp add: digit_val_def)

lemma is_digit_digit_char [simp]: "d < 10 \<Longrightarrow> is_digit (digit_char d)"
  by (simp add: is_digit_def)

lemma digits_val_snoc [simp]: "digits_val (s @ [c]) = 10 * digits_val s + digit_val c"
  by (simp add: digits_val_def)

lemma itoa_nat_nonempty [simp]: "itoa_nat n \<noteq> []"
  by (subst itoa_nat.simps) simp

lemma itoa_nat_digits: "list_all is_digit (itoa_nat n)"
proof (induction n rule: itoa_nat.induct)
  case (1 n)
  then show ?case by (subst itoa_nat.simps) (simp add: list_all_iff)
qed

lemma digits_val_itoa_nat: "digits_val (itoa_nat n) = n"
proof (induction n rule: itoa_nat.induct)
  case (1 n)
  show ?case
  proof (cases "n < 10")
    case True
    then show ?thesis by (subst itoa_nat.simps) (simp add: digits_val_def)
  next
    case False
    with 1 show ?thesis by (subst itoa_nat.simps) simp
  qed
qed

lemma itoa_nat_inject [simp]: "itoa_nat m = itoa_nat n \<longleftrightarrow> m = n"
  by (metis digits_val_itoa_nat)

lemma atoi_digits_itoa_nat [simp]: "atoi_digits (itoa_nat n) = Some n"
  by (simp add: atoi_digits_def itoa_nat_digits digits_val_itoa_nat)

lemma is_digit_not_sign: "is_digit c \<Longrightarrow> c \<noteq> CHR ''-'' \<and> c \<noteq> CHR ''+''"
  by (auto simp: is_digit_def)

lemma atoi_itoa_nat: "int n \<le> int64_max \<Longrightarrow> atoi (itoa_nat n) = Some (int n)"
proof -
  assume bound: "int n \<le> int64_max"
  obtain c cs where s: "itoa_nat n = c # cs"
    by (cases "itoa_nat n") auto
  with itoa_nat_digits [of n] have "is_digit c" by simp
  then have "c \<noteq> CHR ''-''" "c \<noteq> CHR ''+''" by (simp_all add: is_digit_not_sign)
  moreover have "atoi_digits (c # cs) = Some n"
    using atoi_digits_itoa_nat [of n] by (simp add: s)
  moreover have "int64_min \<le> int n" by (simp add: int64_min_def)
  ultimately show ?thesis using bound by (simp add: atoi_def s)
qed

section \<open>Sorted key sequences\<close>

text \<open>
  \<open>sort.Slice\<close> and \<open>slices.SortFunc\<close> are not stable, so their result is only determined where
  keys are distinct; there it is the result of the stable \<open>sort_key\<close>.
\<close>

lemma sort_key_strict [key_order]:
  "distinct (map f xs) \<Longrightarrow> sorted_wrt (<) (map f (sort_key f xs))"
proof -
  assume "distinct (map f xs)"
  then have "distinct (map f (sort_key f xs))"
    by (metis distinct_map distinct_sort set_sort)
  then show ?thesis
    by (simp add: strict_sorted_iff)
qed

lemma distinct_key_other [key_order]:
  assumes "distinct (map f (x # xs))" "y \<in> set xs"
  shows "f y \<noteq> f x"
proof
  assume eq: "f y = f x"
  have "f y \<in> f ` set xs" using assms(2) by (rule imageI)
  with assms(1) show False unfolding eq by simp
qed

lemma filter_eq_single:
  "distinct xs \<Longrightarrow> k \<in> set xs \<Longrightarrow> filter (\<lambda>x. x = k) xs = [k]"
  by (induction xs) (auto simp: filter_empty_conv)

lemma sort_key_unique [key_order]:
  assumes "mset xs = mset ys" and "distinct (map f xs)"
  shows "sort_key f xs = sort_key f ys"
proof (rule properties_for_sort_key)
  show "mset (sort_key f ys) = mset xs" using assms(1) by simp
  have sets: "set ys = set xs" using assms(1) by (metis set_mset_mset)
  have dist: "distinct xs" using assms(2) by (simp add: distinct_map)
  then have dist': "distinct (sort_key f ys)"
    using assms(1) by (metis distinct_sort mset_eq_imp_distinct_iff)
  have inj: "inj_on f (set xs)" using assms(2) by (simp add: distinct_map)
  show "filter (\<lambda>x. f k = f x) (sort_key f ys) = filter (\<lambda>x. f k = f x) xs"
    if "k \<in> set (sort_key f ys)" for k
  proof -
    have k: "k \<in> set xs" using that sets by simp
    have "filter (\<lambda>x. f k = f x) zs = [k]" if "distinct zs" "set zs = set xs" for zs
    proof -
      have "filter (\<lambda>x. f k = f x) zs = filter (\<lambda>x. x = k) zs"
        using that k inj by (intro filter_cong refl) (auto dest: inj_onD)
      then show ?thesis using that k by (simp add: filter_eq_single)
    qed
    with dist dist' sets show ?thesis by simp
  qed
qed simp

section \<open>Filtered and updated maps\<close>

lemma kept_entry_iff:
  assumes "distinct (map fst entries)"
  shows "map_of (filter keep entries) key = Some entry \<longleftrightarrow> map_of entries key = Some entry \<and> keep (key, entry)"
  using assms by (simp add: map_of_eq_Some_iff distinct_map_filter conj_commute)

lemma kept_entry:
  assumes "distinct (map fst entries)"
  shows "map_of (filter keep entries) key = Option.bind (map_of entries key) (\<lambda>e. if keep (key, e) then Some e else None)"
proof -
  have some: "(map_of (filter keep entries) key = Some e) =
      (Option.bind (map_of entries key) (\<lambda>e. if keep (key, e) then Some e else None) = Some e)" for e
    by (auto simp: kept_entry_iff [OF assms] bind_eq_Some_conv split: if_splits)
  show ?thesis
    by (cases "map_of (filter keep entries) key")
      (metis some option.exhaust, metis some)
qed

lemma map_of_mapped_values: "map_of (map (\<lambda>(k, v). (k, f v)) xs) k = map_option f (map_of xs k)"
  by (induction xs) auto

lemma set_alist_update: "set (AList.update k v xs) \<subseteq> insert (k, v) (set xs)"
  by (induction xs) auto

lemma length_alist_update: "length (AList.update k v xs) = length xs + (if k \<in> fst ` set xs then 0 else 1)"
  by (induction xs) auto

lemma set_alist_delete: "set (AList.delete k xs) \<subseteq> set xs"
  by (auto simp: AList.delete_eq)

lemma length_alist_delete: "length (AList.delete k xs) \<le> length xs"
  by (simp add: AList.delete_eq)

lemma length_alist_delete_mem: "k \<in> fst ` set xs \<Longrightarrow> length (AList.delete k xs) < length xs"
  unfolding AList.delete_eq by (auto intro!: length_filter_less)

text \<open>Sorting by a key that tells the elements apart does not depend on their order.\<close>

lemma sort_key_perm:
  assumes "mset xs = mset ys" "inj_on k (set xs)"
  shows "sort_key k xs = sort_key k ys"
  by (rule sort_key_inj_key_eq) (use assms in simp_all)

end
