(* ===== verification/Api_Types.thy ===== *)
theory Api_Types
  imports Prelude
begin

text \<open>
  The custom resources of \<open>src/apis/v1alpha1\<close> and the Kubernetes object metadata they embed,
  restricted to the fields the modelled controllers read or write. The part of a spec or status
  that the controllers only copy or compare as a whole is one opaque field.

  Texts built with \<open>fmt.Sprintf\<close> are values of a datatype with one constructor per format
  string, applied to the arguments of the format.
\<close>

section \<open>Object metadata\<close>

record owner_reference =
  ref_api_version :: string
  ref_kind :: string
  ref_name :: string
  ref_uid :: string
  ref_controller :: "bool option"

record object_meta =
  meta_name :: string
  meta_namespace :: string
  meta_uid :: string
  meta_resource_version :: string
  meta_generation :: int
  meta_labels :: "(string, string) gomap"
  meta_annotations :: "(string, string) gomap"
  meta_owners :: "owner_reference list"
  meta_deletion :: "int option"
  meta_creation :: int

datatype condition_status = ConditionTrue | ConditionFalse | ConditionUnknown

record 'm condition =
  cond_type :: string
  cond_status :: condition_status
  cond_generation :: int
  cond_transition :: int
  cond_reason :: string
  cond_message :: 'm

text \<open>
  An error of the Kubernetes API client; \<open>IsNotFound\<close> and \<open>IsConflict\<close> are the two classes the
  controllers distinguish.
\<close>

datatype api_error = NotFound | Conflict | ApiError string

section \<open>Nodes\<close>

record dns_config =
  dns_servers :: "string list"
  dns_search :: "string list"
  dns_options :: "string list"

record component =
  comp_slot :: string
  comp_definition :: string

text \<open>A nil \<open>*Component\<close>, \<open>*DNSConfig\<close> or \<open>*LocalObjectReference\<close> is \<open>None\<close>; a profile reference is its name.\<close>

record node_spec =
  ns_kind :: string
  ns_network_mode :: string
  ns_run_state :: string
  ns_mgmt_ipv4 :: string
  ns_mgmt_ipv6 :: string
  ns_dns :: "dns_config option"
  ns_aliases :: "string list"
  ns_components :: "component option list"
  ns_profile_ref :: "string option"
  ns_definition :: string

record node_status =
  nst_readiness :: string
  nst_observed :: string

record node =
  nd_meta :: object_meta
  nd_spec :: node_spec
  nd_status :: node_status

abbreviation nd_name :: "node \<Rightarrow> string" where "nd_name n \<equiv> meta_name (nd_meta n)"
abbreviation nd_namespace :: "node \<Rightarrow> string" where "nd_namespace n \<equiv> meta_namespace (nd_meta n)"
abbreviation nd_uid :: "node \<Rightarrow> string" where "nd_uid n \<equiv> meta_uid (nd_meta n)"
abbreviation nd_annotations :: "node \<Rightarrow> (string, string) gomap" where
  "nd_annotations n \<equiv> meta_annotations (nd_meta n)"

definition NodeRunStateStopped :: string where
  "NodeRunStateStopped = ''Stopped''"

definition IsStopped :: "node_spec \<Rightarrow> bool" where
  "IsStopped s \<longleftrightarrow> ns_run_state s = NodeRunStateStopped"

section \<open>Links\<close>

definition LinkHostNodeName :: string where
  "LinkHostNodeName = ''host''"

record link_endpoint_spec =
  ep_node_name :: string
  ep_interface_name :: string

record link_spec =
  ls_endpoint_a :: link_endpoint_spec
  ls_endpoint_b :: link_endpoint_spec
  ls_mtu :: int

record link_resolved_endpoint =
  re_node_name :: string
  re_uid :: string

record link_resolved_endpoints =
  res_endpoint_a :: link_resolved_endpoint
  res_endpoint_b :: link_resolved_endpoint

datatype link_invalid =
    BothEndpointsHost
  | ConnectsToItself string string

datatype link_message =
    MsgInvalidSpec link_invalid
  | MsgEndpointNodeMissing string
  | MsgEndpointClaimed string
  | MsgAcceptedWithoutWire
  | MsgWireAllocated int
  | MsgOther string

record link_status =
  lst_wire_id :: int
  lst_resolved :: "link_resolved_endpoints option"
  lst_conditions :: "link_message condition list"

record link =
  lk_meta :: object_meta
  lk_spec :: link_spec
  lk_status :: link_status

abbreviation lk_name :: "link \<Rightarrow> string" where "lk_name l \<equiv> meta_name (lk_meta l)"
abbreviation lk_namespace :: "link \<Rightarrow> string" where "lk_namespace l \<equiv> meta_namespace (lk_meta l)"
abbreviation lk_wire_id :: "link \<Rightarrow> int" where "lk_wire_id l \<equiv> lst_wire_id (lk_status l)"
abbreviation lk_endpoint_a :: "link \<Rightarrow> link_endpoint_spec" where
  "lk_endpoint_a l \<equiv> ls_endpoint_a (lk_spec l)"
abbreviation lk_endpoint_b :: "link \<Rightarrow> link_endpoint_spec" where
  "lk_endpoint_b l \<equiv> ls_endpoint_b (lk_spec l)"

section \<open>Shared controller helpers\<close>

definition LabelIgnoreReconcile :: string where
  "LabelIgnoreReconcile = ''c9s.run/ignoreReconcile''"

text \<open>\<open>BaseController.ShouldIgnoreReconcile\<close>: the label is present, whatever its value.\<close>

definition ShouldIgnoreReconcile :: "object_meta \<Rightarrow> bool" where
  "ShouldIgnoreReconcile m \<longleftrightarrow> map_of (meta_labels m) LabelIgnoreReconcile \<noteq> None"

text \<open>
  \<open>ExistingMapStringStringContainsAllExpectedKeyValues\<close> of \<open>src/util/kubernetes/meta.go\<close>.
\<close>

definition contains_expected :: "(string, string) gomap \<Rightarrow> (string, string) gomap \<Rightarrow> bool" where
  "contains_expected existing expected =
     (if existing = [] \<and> expected \<noteq> [] then False
      else \<forall>(k, v) \<in> set expected. \<exists>(nk, nv) \<in> set existing. k = nk \<and> v = nv)"

section \<open>Objects for concrete instances\<close>

text \<open>
  Small objects in the namespace \<open>lab\<close> that the concrete instances of the theorems are evaluated on.
\<close>

definition sample_meta :: "string \<Rightarrow> object_meta" where
  "sample_meta name = \<lparr> meta_name = name, meta_namespace = ''lab'', meta_uid = ''uid-'' @ name,
     meta_resource_version = ''1'', meta_generation = 1, meta_labels = [], meta_annotations = [],
     meta_owners = [], meta_deletion = None, meta_creation = 0 \<rparr>"

definition sample_node :: "string \<Rightarrow> string \<Rightarrow> node" where
  "sample_node name mode = \<lparr> nd_meta = sample_meta name,
     nd_spec = \<lparr> ns_kind = ''linux'', ns_network_mode = mode, ns_run_state = '''',
       ns_mgmt_ipv4 = '''', ns_mgmt_ipv6 = '''', ns_dns = None, ns_aliases = [], ns_components = [],
       ns_profile_ref = None, ns_definition = '''' \<rparr>,
     nd_status = \<lparr> nst_readiness = '''', nst_observed = '''' \<rparr> \<rparr>"

definition sample_link :: "string \<Rightarrow> string \<Rightarrow> string \<Rightarrow> string \<Rightarrow> string \<Rightarrow> int \<Rightarrow> link" where
  "sample_link name nodeA ifA nodeB ifB wire = \<lparr> lk_meta = sample_meta name,
     lk_spec = \<lparr> ls_endpoint_a = \<lparr> ep_node_name = nodeA, ep_interface_name = ifA \<rparr>,
       ls_endpoint_b = \<lparr> ep_node_name = nodeB, ep_interface_name = ifB \<rparr>, ls_mtu = 0 \<rparr>,
     lk_status = \<lparr> lst_wire_id = wire, lst_resolved = None, lst_conditions = [] \<rparr> \<rparr>"

lemmas sample_defs = sample_meta_def sample_node_def sample_link_def

end
