(* ===== verification/Grouping.thy ===== *)
theory Grouping
  imports Api_Types
begin

text \<open>
  Shared-network grouping (\<open>src/util/containerlab/grouping.go\<close> and \<open>networkmode.go\<close>): a node whose
  network mode is \<open>container:<name>\<close> runs in the Pod of the node it names. \<open>ResolvePrimaryNode\<close>
  walks these references to the primary node, whose Pod hosts the group.
\<close>

section \<open>Definitions\<close>

definition NetworkModeContainerPrefix :: string where
  "NetworkModeContainerPrefix = ''container:''"

definition ParseNetworkModeContainer :: "string \<Rightarrow> string" where
  "ParseNetworkModeContainer networkMode =
     (if \<not> has_prefix networkMode NetworkModeContainerPrefix then ''''
      else trim_prefix networkMode NetworkModeContainerPrefix)"

definition NodesByName :: "node list \<Rightarrow> (string, node) gomap" where
  "NodesByName nodes = fold (\<lambda>n byName. AList.update (nd_name n) n byName) nodes []"

text \<open>
  The loop of \<open>ResolvePrimaryNode\<close>. The local map \<open>seen\<close> only ever holds \<open>true\<close>, so it is the list
  of its keys.
\<close>

function resolve_primary_loop ::
    "(string, node) gomap \<Rightarrow> string list \<Rightarrow> string \<Rightarrow> string" where
  "resolve_primary_loop nodes seen current =
     (case map_of nodes current of
        None \<Rightarrow> current
      | Some node \<Rightarrow>
          let primary = ParseNetworkModeContainer (ns_network_mode (nd_spec node)) in
          if primary = '''' then current
          else if primary \<in> set seen then current
          else resolve_primary_loop nodes (current # seen) primary)"
  by pat_completeness auto

text \<open>
  The walk stops: a step either visits a node not seen before, or leaves a node already seen for
  one that is not, which only a node that references itself can make it do.
\<close>

termination
proof (relation "measure (\<lambda>(nodes, seen, current).
    2 * card (dom (map_of nodes) - set seen) + (if current \<in> set seen then 1 else 0))")
  show "wf (measure (\<lambda>(nodes, seen, current).
    2 * card (dom (map_of nodes) - set seen) + (if current \<in> set seen then 1 else (0::nat))))"
    by simp
next
  fix nodes :: "(string, node) gomap" and seen :: "string list" and current node primary
  assume found: "map_of nodes current = Some node"
    and new: "primary \<notin> set seen"
  show "((nodes, current # seen, primary), nodes, seen, current) \<in> measure (\<lambda>(nodes, seen, current).
    2 * card (dom (map_of nodes) - set seen) + (if current \<in> set seen then 1 else 0))"
  proof (cases "current \<in> set seen")
    case True
    then have "set (current # seen) = set seen" by auto
    with True new show ?thesis by simp
  next
    case False
    have "dom (map_of nodes) - set (current # seen) = (dom (map_of nodes) - set seen) - {current}"
      by auto
    moreover have "current \<in> dom (map_of nodes) - set seen" using found False by auto
    moreover have "finite (dom (map_of nodes) - set seen)" by (simp add: finite_dom_map_of)
    ultimately have "card (dom (map_of nodes) - set (current # seen)) < card (dom (map_of nodes) - set seen)"
      by (metis card_Diff1_less)
    with False show ?thesis by simp
  qed
qed

declare resolve_primary_loop.simps [simp del]

definition ResolvePrimaryNode :: "(string, node) gomap \<Rightarrow> string \<Rightarrow> string" where
  "ResolvePrimaryNode nodes nodeName = resolve_primary_loop nodes [] nodeName"

definition ResolveGroupMembers :: "(string, node) gomap \<Rightarrow> string \<Rightarrow> string list" where
  "ResolveGroupMembers nodes primaryNode =
     primaryNode # sort (filter (\<lambda>nodeName. nodeName \<noteq> primaryNode \<and>
                                   ResolvePrimaryNode nodes nodeName = primaryNode)
                                (map fst nodes))"

section \<open>The reference relation\<close>

text \<open>
  \<open>node_reference nodes a = Some b\<close> says that node \<open>a\<close> has an object and shares the network of \<open>b\<close>.
\<close>

definition node_reference :: "(string, node) gomap \<Rightarrow> string \<Rightarrow> string option" where
  "node_reference nodes a =
     (case map_of nodes a of
        None \<Rightarrow> None
      | Some node \<Rightarrow>
          (let primary = ParseNetworkModeContainer (ns_network_mode (nd_spec node))
           in if primary = '''' then None else Some primary))"

lemma resolve_primary_loop_unfold:
  "resolve_primary_loop nodes seen current =
     (case node_reference nodes current of
        None \<Rightarrow> current
      | Some primary \<Rightarrow>
          if primary \<in> set seen then current
          else resolve_primary_loop nodes (current # seen) primary)"
  by (subst resolve_primary_loop.simps)
    (simp add: node_reference_def Let_def split: option.splits)

lemma ResolvePrimaryNode_root:
  "node_reference nodes n = None \<Longrightarrow> ResolvePrimaryNode nodes n = n"
  by (simp add: ResolvePrimaryNode_def resolve_primary_loop_unfold)

text \<open>Computation induction of the walk, in terms of \<open>node_reference\<close>.\<close>

lemma resolve_primary_induct [case_names step]:
  assumes "\<And>nodes seen current.
    (\<And>primary. node_reference nodes current = Some primary \<Longrightarrow> primary \<notin> set seen \<Longrightarrow>
       P nodes (current # seen) primary) \<Longrightarrow> P nodes seen current"
  shows "P nodes seen current"
proof (induction nodes seen current rule: resolve_primary_loop.induct)
  case (1 nodes seen current)
  show ?case
  proof (rule assms)
    fix primary
    assume "node_reference nodes current = Some primary" and new: "primary \<notin> set seen"
    then obtain node where node: "map_of nodes current = Some node" and ne: "primary \<noteq> ''''"
      and parse: "primary = ParseNetworkModeContainer (ns_network_mode (nd_spec node))"
      by (auto simp: node_reference_def Let_def split: option.splits if_splits)
    show "P nodes (current # seen) primary"
      by (rule "1.IH" [OF node parse ne new])
  qed
qed

definition reference_step :: "(string, node) gomap \<Rightarrow> (string \<times> string) set" where
  "reference_step nodes = {(a, b). node_reference nodes a = Some b}"

text \<open>The result is always reached from the start by following references.\<close>

lemma resolve_primary_loop_reaches:
  "(current, resolve_primary_loop nodes seen current) \<in> (reference_step nodes)\<^sup>*"
proof (induction nodes seen current rule: resolve_primary_induct)
  case (step nodes seen current)
  show ?case
  proof (cases "node_reference nodes current")
    case None
    then show ?thesis by (subst resolve_primary_loop_unfold) simp
  next
    case (Some primary)
    then have edge: "(current, primary) \<in> reference_step nodes" by (simp add: reference_step_def)
    show ?thesis
    proof (cases "primary \<in> set seen")
      case True
      with Some show ?thesis by (subst resolve_primary_loop_unfold) simp
    next
      case False
      have "(current, resolve_primary_loop nodes (current # seen) primary) \<in> (reference_step nodes)\<^sup>*"
        using edge step.IH [OF Some False] by (rule converse_rtrancl_into_rtrancl)
      with Some False show ?thesis by (subst resolve_primary_loop_unfold) simp
    qed
  qed
qed

text \<open>
  Without a reference cycle the walk cannot meet a node it has seen, so it ends at a node that
  references nobody.
\<close>

lemma resolve_primary_loop_acyclic:
  assumes "acyclic (reference_step nodes)"
    and "\<forall>s \<in> set seen. (s, current) \<in> (reference_step nodes)\<^sup>+"
  shows "node_reference nodes (resolve_primary_loop nodes seen current) = None"
  using assms
proof (induction nodes seen current rule: resolve_primary_induct)
  case (step nodes seen current)
  show ?case
  proof (cases "node_reference nodes current")
    case None
    then show ?thesis by (subst resolve_primary_loop_unfold) simp
  next
    case (Some primary)
    then have edge: "(current, primary) \<in> reference_step nodes" by (simp add: reference_step_def)
    have seen': "\<forall>s \<in> set (current # seen). (s, primary) \<in> (reference_step nodes)\<^sup>+"
      using step.prems(2) edge by (auto intro: trancl.trancl_into_trancl)
    then have new: "primary \<notin> set seen" using step.prems(1) by (auto simp: acyclic_def)
    have "node_reference nodes (resolve_primary_loop nodes (current # seen) primary) = None"
      using step.prems(1) seen' by (rule step.IH [OF Some new])
    with Some new show ?thesis by (subst resolve_primary_loop_unfold) simp
  qed
qed

lemma reference_step_single_valued: "single_valued (reference_step nodes)"
  by (auto simp: single_valued_def reference_step_def)

text \<open>A chain of references has one end.\<close>

lemma reference_end_unique:
  assumes "(a, r) \<in> (reference_step nodes)\<^sup>*" "(a, s) \<in> (reference_step nodes)\<^sup>*"
    and "node_reference nodes r = None" "node_reference nodes s = None"
  shows "r = s"
proof -
  have stuck: "(x, y) \<in> (reference_step nodes)\<^sup>* \<Longrightarrow> node_reference nodes x = None \<Longrightarrow> y = x" for x y
    by (erule converse_rtranclE) (auto simp: reference_step_def)
  from single_valued_confluent [OF reference_step_single_valued assms(1,2)]
  show ?thesis using stuck assms(3,4) by metis
qed

section \<open>The contract of primary resolution\<close>

text \<open>
  What the controllers rely on when they group nodes by primary: under a well-formed inventory the
  resolution ends at a node that references nobody, a node that references nobody is its own
  primary, and a node has the primary of the node it references.
\<close>

locale primary_resolution =
  fixes wf_inventory :: "'n \<Rightarrow> bool"
    and reference :: "'n \<Rightarrow> string \<Rightarrow> string option"
    and resolve :: "'n \<Rightarrow> string \<Rightarrow> string"
  assumes resolve_root: "reference ns n = None \<Longrightarrow> resolve ns n = n"
    and resolve_ends: "wf_inventory ns \<Longrightarrow> reference ns (resolve ns n) = None"
    and resolve_follows: "wf_inventory ns \<Longrightarrow> reference ns a = Some b \<Longrightarrow> resolve ns a = resolve ns b"
begin

lemma resolve_idem: "wf_inventory ns \<Longrightarrow> resolve ns (resolve ns n) = resolve ns n"
  by (rule resolve_root) (rule resolve_ends)

lemma primary_iff_root:
  "wf_inventory ns \<Longrightarrow> resolve ns n = n \<longleftrightarrow> reference ns n = None"
  by (metis resolve_ends resolve_root)

lemma primary_in_own_group:
  "wf_inventory ns \<Longrightarrow> resolve ns n = p \<Longrightarrow> resolve ns p = p"
  using resolve_idem by blast

end

definition acyclic_inventory :: "(string, node) gomap \<Rightarrow> bool" where
  "acyclic_inventory nodes \<longleftrightarrow> acyclic (reference_step nodes)"

lemma ResolvePrimaryNode_reaches:
  "(n, ResolvePrimaryNode nodes n) \<in> (reference_step nodes)\<^sup>*"
  by (simp add: ResolvePrimaryNode_def resolve_primary_loop_reaches)

lemma ResolvePrimaryNode_ends:
  "acyclic_inventory nodes \<Longrightarrow> node_reference nodes (ResolvePrimaryNode nodes n) = None"
  by (simp add: ResolvePrimaryNode_def acyclic_inventory_def resolve_primary_loop_acyclic)

lemma ResolvePrimaryNode_follows:
  assumes acyc: "acyclic_inventory nodes" and edge: "node_reference nodes a = Some b"
  shows "ResolvePrimaryNode nodes a = ResolvePrimaryNode nodes b"
proof (rule reference_end_unique)
  have "(a, b) \<in> reference_step nodes" using edge by (simp add: reference_step_def)
  then show "(a, ResolvePrimaryNode nodes b) \<in> (reference_step nodes)\<^sup>*"
    using ResolvePrimaryNode_reaches by (rule converse_rtrancl_into_rtrancl)
qed (use acyc in \<open>simp_all add: ResolvePrimaryNode_reaches ResolvePrimaryNode_ends\<close>)

interpretation primary: primary_resolution acyclic_inventory node_reference ResolvePrimaryNode
  by unfold_locales
    (simp_all add: ResolvePrimaryNode_root ResolvePrimaryNode_ends ResolvePrimaryNode_follows)

section \<open>Group membership\<close>

lemma set_ResolveGroupMembers:
  "set (ResolveGroupMembers nodes p) =
     insert p {n \<in> fst ` set nodes. ResolvePrimaryNode nodes n = p}"
  by (auto simp: ResolveGroupMembers_def)

lemma distinct_ResolveGroupMembers:
  "distinct (map fst nodes) \<Longrightarrow> distinct (ResolveGroupMembers nodes p)"
  by (simp add: ResolveGroupMembers_def)

text \<open>
  A sufficient condition for an acyclic inventory that can be checked: the nodes can be listed so
  that each references only later ones.
\<close>

lemma acyclic_inventory_rank:
  assumes "\<And>a b. node_reference nodes a = Some b \<Longrightarrow> rank b < (rank a :: nat)"
  shows "acyclic_inventory nodes"
proof -
  have "reference_step nodes \<subseteq> (measure rank)\<inverse>"
    using assms by (auto simp: reference_step_def)
  moreover have "acyclic ((measure rank)\<inverse>)"
    by (simp add: wf_acyclic acyclic_converse)
  ultimately show ?thesis
    by (auto simp: acyclic_inventory_def intro: acyclic_subset)
qed

section \<open>Properties\<close>

text \<open>
  C9: In an inventory without reference cycles, \<open>ResolvePrimaryNode\<close> returns the one node at the
  end of the chain of network-mode references: the node reached from the given one that shares
  nobody's network.
\<close>

theorem ResolvePrimaryNode_correct:
  assumes "acyclic_inventory nodes"
  shows "ResolvePrimaryNode nodes n = p \<longleftrightarrow>
    (n, p) \<in> (reference_step nodes)\<^sup>* \<and> node_reference nodes p = None"
  using assms ResolvePrimaryNode_reaches ResolvePrimaryNode_ends reference_end_unique by metis

definition sample_group :: "(string, node) gomap" where
  "sample_group = NodesByName [sample_node ''c'' ''container:b'', sample_node ''b'' ''container:a'',
     sample_node ''a'' '''', sample_node ''d'' '''']"

lemma sample_group_reference:
  "node_reference sample_group n =
     (if n = ''c'' then Some ''b'' else if n = ''b'' then Some ''a'' else None)"
  by (simp add: sample_group_def NodesByName_def node_reference_def ParseNetworkModeContainer_def
      NetworkModeContainerPrefix_def sample_defs has_prefix_def trim_prefix_def Let_def)

lemma sample_group_acyclic: "acyclic_inventory sample_group"
  by (rule acyclic_inventory_rank [where rank = "\<lambda>n. if n = ''c'' then 2 else if n = ''b'' then 1 else 0"])
    (auto simp: sample_group_reference split: if_splits)

theorem ResolvePrimaryNode_correct_witness:
  "ResolvePrimaryNode sample_group ''c'' = ''a''"
proof -
  have "(''c'', ''b'') \<in> reference_step sample_group" "(''b'', ''a'') \<in> reference_step sample_group"
    by (simp_all add: reference_step_def sample_group_reference)
  then have "(''c'', ''a'') \<in> (reference_step sample_group)\<^sup>*" by (meson r_into_rtrancl rtrancl_trans)
  then show ?thesis
    using ResolvePrimaryNode_correct [OF sample_group_acyclic, of "''c''" "''a''"]
    by (simp add: sample_group_reference)
qed

text \<open>
  The groups that \<open>ResolveGroupMembers\<close> builds for the primaries of an inventory without
  reference cycles partition its nodes: a node is a member of the group of its primary and of the
  group of no other primary, and a group lists no node twice.
\<close>

theorem ResolveGroupMembers_partition:
  assumes "acyclic_inventory nodes" "distinct (map fst nodes)"
    and "n \<in> fst ` set nodes" "node_reference nodes p = None"
  shows "(n \<in> set (ResolveGroupMembers nodes p) \<longleftrightarrow> p = ResolvePrimaryNode nodes n) \<and>
    distinct (ResolveGroupMembers nodes p) \<and> hd (ResolveGroupMembers nodes p) = p"
  using assms primary.resolve_root [of nodes p]
  by (auto simp: set_ResolveGroupMembers distinct_ResolveGroupMembers) (simp add: ResolveGroupMembers_def)

theorem ResolveGroupMembers_partition_witness:
  "''c'' \<in> set (ResolveGroupMembers sample_group ''a'') \<and>
   ''c'' \<notin> set (ResolveGroupMembers sample_group ''d'')"
proof -
  have facts: "distinct (map fst sample_group)" "''c'' \<in> fst ` set sample_group"
    "node_reference sample_group ''a'' = None" "node_reference sample_group ''d'' = None"
    by (simp_all add: sample_group_reference) (simp_all add: sample_group_def NodesByName_def sample_defs)
  have "ResolvePrimaryNode sample_group ''c'' = ''a''"
    using primary.resolve_follows [OF sample_group_acyclic, of "''c''" "''b''"]
      primary.resolve_follows [OF sample_group_acyclic, of "''b''" "''a''"]
      primary.resolve_root [of sample_group "''a''"] by (simp add: sample_group_reference)
  then show ?thesis
    using ResolveGroupMembers_partition [OF sample_group_acyclic facts(1,2,3)]
      ResolveGroupMembers_partition [OF sample_group_acyclic facts(1,2,4)] by simp
qed

end
