(* ===== verification/Link_Endpoints.thy ===== *)
theory Link_Endpoints
  imports Grouping
begin

text \<open>
  Endpoint ownership of a namespace's links (\<open>src/util/containerlab/links.go\<close>): the checks a
  single link must pass, and the sorted pass that decides which of the links that name the same
  node interface owns it.
\<close>

section \<open>Definitions\<close>

text \<open>\<open>ValidateLink\<close> returns \<open>None\<close> for a nil error.\<close>

definition ValidateLink :: "link \<Rightarrow> link_invalid option" where
  "ValidateLink l =
     (let endpointA = lk_endpoint_a l; endpointB = lk_endpoint_b l in
      if ep_node_name endpointA = LinkHostNodeName \<and> ep_node_name endpointB = LinkHostNodeName
      then Some BothEndpointsHost
      else if ep_node_name endpointA = ep_node_name endpointB \<and>
              ep_interface_name endpointA = ep_interface_name endpointB
      then Some (ConnectsToItself (ep_node_name endpointA) (ep_interface_name endpointA))
      else None)"

definition endpointKey :: "link_endpoint_spec \<Rightarrow> string" where
  "endpointKey e = ep_node_name e @ '':'' @ ep_interface_name e"

fun claimed_owner :: "link_endpoint_spec list \<Rightarrow> (string, string) gomap \<Rightarrow> string" where
  "claimed_owner [] claimed = ''''"
| "claimed_owner (e # es) claimed =
     (if ep_node_name e = LinkHostNodeName then claimed_owner es claimed
      else let owner = gm_str claimed (endpointKey e) in
           if owner \<noteq> '''' then owner else claimed_owner es claimed)"

definition conflictForClaimedEndpoints :: "link \<Rightarrow> (string, string) gomap \<Rightarrow> string" where
  "conflictForClaimedEndpoints l claimed = claimed_owner [lk_endpoint_a l, lk_endpoint_b l] claimed"

fun claim_endpoints ::
    "string \<Rightarrow> link_endpoint_spec list \<Rightarrow> (string, string) gomap \<Rightarrow> (string, string) gomap" where
  "claim_endpoints name [] claimed = claimed"
| "claim_endpoints name (e # es) claimed =
     (if ep_node_name e = LinkHostNodeName then claim_endpoints name es claimed
      else claim_endpoints name es (AList.update (endpointKey e) name claimed))"

definition claimLinkEndpoints :: "link \<Rightarrow> (string, string) gomap \<Rightarrow> (string, string) gomap" where
  "claimLinkEndpoints l claimed =
     claim_endpoints (lk_name l) [lk_endpoint_a l, lk_endpoint_b l] claimed"

fun endpoint_conflicts_loop ::
    "link list \<Rightarrow> (string, string) gomap \<Rightarrow> (string, string) gomap \<Rightarrow> (string, string) gomap" where
  "endpoint_conflicts_loop [] claimed conflicts = conflicts"
| "endpoint_conflicts_loop (candidate # rest) claimed conflicts =
     (if ValidateLink candidate \<noteq> None then endpoint_conflicts_loop rest claimed conflicts
      else let conflict = conflictForClaimedEndpoints candidate claimed in
           if conflict \<noteq> ''''
           then endpoint_conflicts_loop rest claimed
                  (AList.update (lk_name candidate) conflict conflicts)
           else endpoint_conflicts_loop rest (claimLinkEndpoints candidate claimed) conflicts)"

definition EndpointConflicts :: "link list \<Rightarrow> (string, string) gomap" where
  "EndpointConflicts namespaceLinks =
     endpoint_conflicts_loop (sort_key lk_name namespaceLinks) [] []"

text \<open>
  The candidate replacement of \<open>FindEndpointConflict\<close>: the first link of that name is replaced, and
  the link is appended when there is none.
\<close>

fun replace_candidate :: "link \<Rightarrow> link list \<Rightarrow> link list" where
  "replace_candidate l [] = [l]"
| "replace_candidate l (c # cs) =
     (if lk_name c = lk_name l then l # cs else c # replace_candidate l cs)"

definition FindEndpointConflict :: "link \<Rightarrow> link list \<Rightarrow> string" where
  "FindEndpointConflict l namespaceLinks =
     gm_str (EndpointConflicts (replace_candidate l namespaceLinks)) (lk_name l)"

section \<open>The endpoints a link claims\<close>

definition endpoint_keys :: "link \<Rightarrow> string set" where
  "endpoint_keys l =
     endpointKey ` {e \<in> {lk_endpoint_a l, lk_endpoint_b l}. ep_node_name e \<noteq> LinkHostNodeName}"

lemma endpoint_keysI:
  "e \<in> {lk_endpoint_a l, lk_endpoint_b l} \<Longrightarrow> ep_node_name e \<noteq> LinkHostNodeName \<Longrightarrow>
     endpointKey e \<in> endpoint_keys l"
  unfolding endpoint_keys_def by blast

lemma gm_str_claim_endpoints:
  "gm_str (claim_endpoints name es claimed) k =
     (if k \<in> endpointKey ` {e \<in> set es. ep_node_name e \<noteq> LinkHostNodeName}
      then name else gm_str claimed k)"
  by (induction es arbitrary: claimed) auto

lemma gm_str_claimLinkEndpoints:
  "gm_str (claimLinkEndpoints l claimed) k =
     (if k \<in> endpoint_keys l then lk_name l else gm_str claimed k)"
proof -
  have "endpointKey ` {e \<in> set [lk_endpoint_a l, lk_endpoint_b l]. ep_node_name e \<noteq> LinkHostNodeName} =
    endpoint_keys l" by (simp add: endpoint_keys_def)
  then show ?thesis by (simp only: claimLinkEndpoints_def gm_str_claim_endpoints)
qed

lemma claimed_owner_Nil_iff:
  "claimed_owner es claimed = '''' \<longleftrightarrow>
     (\<forall>e \<in> set es. ep_node_name e \<noteq> LinkHostNodeName \<longrightarrow> gm_str claimed (endpointKey e) = '''')"
  by (induction es) (auto simp: Let_def)

lemma claimed_owner_in:
  "claimed_owner es claimed \<noteq> '''' \<Longrightarrow>
     \<exists>e \<in> set es. ep_node_name e \<noteq> LinkHostNodeName \<and>
       gm_str claimed (endpointKey e) = claimed_owner es claimed"
  by (induction es) (auto simp: Let_def split: if_splits)

lemma conflictForClaimedEndpoints_Nil_iff:
  "conflictForClaimedEndpoints l claimed = '''' \<longleftrightarrow>
     (\<forall>k \<in> endpoint_keys l. gm_str claimed k = '''')"
  unfolding conflictForClaimedEndpoints_def claimed_owner_Nil_iff endpoint_keys_def by auto

lemma conflictForClaimedEndpoints_in:
  assumes "conflictForClaimedEndpoints l claimed \<noteq> ''''"
  shows "\<exists>k \<in> endpoint_keys l. gm_str claimed k = conflictForClaimedEndpoints l claimed"
proof -
  let ?es = "[lk_endpoint_a l, lk_endpoint_b l]"
  from assms obtain e where "e \<in> set ?es" "ep_node_name e \<noteq> LinkHostNodeName"
    "gm_str claimed (endpointKey e) = claimed_owner ?es claimed"
    using claimed_owner_in [of ?es claimed] by (auto simp: conflictForClaimedEndpoints_def)
  then show ?thesis
    by (auto simp: endpoint_keys_def conflictForClaimedEndpoints_def)
qed

text \<open>
  Kubernetes names carry no colon, so for links between existing nodes the key identifies the
  node and the interface.
\<close>

lemma endpointKey_inject:
  assumes "CHR '':'' \<notin> set (ep_node_name d)" "CHR '':'' \<notin> set (ep_node_name e)"
  shows "endpointKey d = endpointKey e \<longleftrightarrow>
    ep_node_name d = ep_node_name e \<and> ep_interface_name d = ep_interface_name e"
proof
  assume "endpointKey d = endpointKey e"
  then have "cut (CHR '':'') (endpointKey d) = cut (CHR '':'') (endpointKey e)" by simp
  with assms show "ep_node_name d = ep_node_name e \<and> ep_interface_name d = ep_interface_name e"
    by (simp add: endpointKey_def cut_sep)
qed (simp add: endpointKey_def)

section \<open>The ownership pass\<close>

definition link_valid :: "link \<Rightarrow> bool" where
  "link_valid l \<longleftrightarrow> ValidateLink l = None"

definition link_accepted :: "(string, string) gomap \<Rightarrow> link \<Rightarrow> bool" where
  "link_accepted conflicts l \<longleftrightarrow> link_valid l \<and> map_of conflicts (lk_name l) = None"

definition links_overlap :: "link \<Rightarrow> link \<Rightarrow> bool" where
  "links_overlap l k \<longleftrightarrow> endpoint_keys l \<inter> endpoint_keys k \<noteq> {}"

text \<open>
  The invariant of the pass after the links \<open>P\<close>: the claims are exactly the endpoints of the
  accepted links, and every recorded conflict names an accepted link of smaller name that claims
  an endpoint of the rejected one.
\<close>

definition pass_claims :: "link list \<Rightarrow> (string, string) gomap \<Rightarrow> (string, string) gomap \<Rightarrow> bool" where
  "pass_claims P claimed conflicts \<longleftrightarrow>
     (\<forall>k. gm_str claimed k \<noteq> '''' \<longrightarrow>
        (\<exists>l \<in> set P. link_accepted conflicts l \<and> lk_name l = gm_str claimed k \<and> k \<in> endpoint_keys l)) \<and>
     (\<forall>l \<in> set P. link_accepted conflicts l \<longrightarrow> (\<forall>k \<in> endpoint_keys l. gm_str claimed k = lk_name l))"

definition pass_conflicts :: "link list \<Rightarrow> (string, string) gomap \<Rightarrow> bool" where
  "pass_conflicts P conflicts \<longleftrightarrow>
     (\<forall>n w. map_of conflicts n = Some w \<longrightarrow>
        (\<exists>l \<in> set P. \<exists>winner \<in> set P. lk_name l = n \<and> link_valid l \<and> lk_name winner = w \<and>
           link_accepted conflicts winner \<and> w < n \<and> links_overlap l winner))"

lemma pass_step_invalid:
  assumes "pass_claims P claimed conflicts" "pass_conflicts P conflicts" "\<not> link_valid c"
  shows "pass_claims (P @ [c]) claimed conflicts \<and> pass_conflicts (P @ [c]) conflicts"
proof -
  have "\<not> link_accepted conflicts c" using assms(3) by (simp add: link_accepted_def)
  with assms(1,2) show ?thesis
    by (auto simp: pass_claims_def pass_conflicts_def)
qed

lemma fresh_name_not_in_conflicts:
  assumes "pass_conflicts P conflicts" "\<forall>l \<in> set P. lk_name l \<noteq> n"
  shows "map_of conflicts n = None"
  using assms by (auto simp: pass_conflicts_def) (metis not_Some_eq)

lemma pass_step_reject:
  assumes claims: "pass_claims P claimed conflicts" and confl: "pass_conflicts P conflicts"
    and valid: "link_valid c" and later: "\<forall>l \<in> set P. lk_name l < lk_name c"
    and rejected: "conflictForClaimedEndpoints c claimed \<noteq> ''''"
  defines "conflicts' \<equiv> AList.update (lk_name c) (conflictForClaimedEndpoints c claimed) conflicts"
  shows "pass_claims (P @ [c]) claimed conflicts' \<and> pass_conflicts (P @ [c]) conflicts'"
proof
  have acc: "link_accepted conflicts' l \<longleftrightarrow> link_accepted conflicts l" if "l \<in> set P" for l
    using that later by (auto simp: link_accepted_def conflicts'_def)
  have nacc: "\<not> link_accepted conflicts' c" by (simp add: link_accepted_def conflicts'_def)
  show "pass_claims (P @ [c]) claimed conflicts'"
    using claims acc nacc unfolding pass_claims_def by auto
  obtain k where k: "k \<in> endpoint_keys c" "gm_str claimed k = conflictForClaimedEndpoints c claimed"
    using conflictForClaimedEndpoints_in [OF rejected] by blast
  with claims rejected obtain winner where w: "winner \<in> set P" "link_accepted conflicts winner"
    "lk_name winner = gm_str claimed k" "k \<in> endpoint_keys winner"
    unfolding pass_claims_def by metis
  have overlap: "links_overlap c winner" using k w by (auto simp: links_overlap_def)
  show "pass_conflicts (P @ [c]) conflicts'"
    unfolding pass_conflicts_def
  proof (intro allI impI)
    fix n w'
    assume some: "map_of conflicts' n = Some w'"
    show "\<exists>l \<in> set (P @ [c]). \<exists>winner \<in> set (P @ [c]). lk_name l = n \<and> link_valid l \<and>
      lk_name winner = w' \<and> link_accepted conflicts' winner \<and> w' < n \<and> links_overlap l winner"
    proof (cases "n = lk_name c")
      case True
      with some k have "w' = lk_name winner" using w by (simp add: conflicts'_def)
      with True w k valid later overlap acc show ?thesis by auto
    next
      case False
      with some have "map_of conflicts n = Some w'" by (simp add: conflicts'_def)
      with confl obtain l o' where "l \<in> set P" "o' \<in> set P" "lk_name l = n" "link_valid l"
        "lk_name o' = w'" "link_accepted conflicts o'" "w' < n" "links_overlap l o'"
        unfolding pass_conflicts_def by blast
      with acc show ?thesis by auto
    qed
  qed
qed

lemma pass_step_accept:
  assumes claims: "pass_claims P claimed conflicts" and confl: "pass_conflicts P conflicts"
    and valid: "link_valid c" and later: "\<forall>l \<in> set P. lk_name l < lk_name c"
    and named: "\<forall>l \<in> set P. lk_name l \<noteq> ''''"
    and free: "conflictForClaimedEndpoints c claimed = ''''"
  shows "pass_claims (P @ [c]) (claimLinkEndpoints c claimed) conflicts \<and> pass_conflicts (P @ [c]) conflicts"
proof
  have unclaimed: "gm_str claimed k = ''''" if "k \<in> endpoint_keys c" for k
    using free that by (simp add: conflictForClaimedEndpoints_Nil_iff)
  have "map_of conflicts (lk_name c) = None"
    using confl later by (intro fresh_name_not_in_conflicts) auto
  with valid have acc: "link_accepted conflicts c" by (simp add: link_accepted_def)
  show "pass_claims (P @ [c]) (claimLinkEndpoints c claimed) conflicts"
    unfolding pass_claims_def
  proof (intro conjI allI ballI impI)
    fix k
    assume "gm_str (claimLinkEndpoints c claimed) k \<noteq> ''''"
    then show "\<exists>l \<in> set (P @ [c]). link_accepted conflicts l \<and>
      lk_name l = gm_str (claimLinkEndpoints c claimed) k \<and> k \<in> endpoint_keys l"
      using claims acc unfolding pass_claims_def gm_str_claimLinkEndpoints
      by (cases "k \<in> endpoint_keys c") auto
  next
    fix l k
    assume l: "l \<in> set (P @ [c])" "link_accepted conflicts l" "k \<in> endpoint_keys l"
    show "gm_str (claimLinkEndpoints c claimed) k = lk_name l"
    proof (cases "l \<in> set P")
      case True
      with claims l have k: "gm_str claimed k = lk_name l" unfolding pass_claims_def by blast
      show ?thesis
      proof (cases "k \<in> endpoint_keys c")
        case True
        with unclaimed k have "lk_name l = ''''" by simp
        with \<open>l \<in> set P\<close> named show ?thesis by blast
      next
        case False
        with k show ?thesis by (simp add: gm_str_claimLinkEndpoints)
      qed
    next
      case False
      with l have "l = c" by simp
      with l show ?thesis by (simp add: gm_str_claimLinkEndpoints)
    qed
  qed
  show "pass_conflicts (P @ [c]) conflicts"
    using confl unfolding pass_conflicts_def by fastforce
qed

lemma endpoint_conflicts_loop_inv:
  assumes "pass_claims P claimed conflicts" "pass_conflicts P conflicts"
    and "sorted_wrt (<) (map lk_name (P @ cs))" "\<forall>l \<in> set (P @ cs). lk_name l \<noteq> ''''"
  shows "\<exists>claimed'. pass_claims (P @ cs) claimed' (endpoint_conflicts_loop cs claimed conflicts) \<and>
    pass_conflicts (P @ cs) (endpoint_conflicts_loop cs claimed conflicts)"
  using assms
proof (induction cs arbitrary: P claimed conflicts)
  case Nil
  then show ?case by auto
next
  case (Cons c cs)
  have later: "\<forall>l \<in> set P. lk_name l < lk_name c" and named: "\<forall>l \<in> set P. lk_name l \<noteq> ''''"
    using Cons.prems(3,4) by (simp_all add: sorted_wrt_append)
  have order: "sorted_wrt (<) (map lk_name ((P @ [c]) @ cs))" "\<forall>l \<in> set ((P @ [c]) @ cs). lk_name l \<noteq> ''''"
    using Cons.prems(3,4) by simp_all
  note step = Cons.IH [of "P @ [c]", OF _ _ order]
  consider (invalid) "\<not> link_valid c"
    | (reject) "link_valid c" "conflictForClaimedEndpoints c claimed \<noteq> ''''"
    | (accept) "link_valid c" "conflictForClaimedEndpoints c claimed = ''''" by blast
  then show ?case
  proof cases
    case invalid
    with pass_step_invalid [OF Cons.prems(1,2)] step show ?thesis by (simp add: link_valid_def)
  next
    case reject
    with pass_step_reject [OF Cons.prems(1,2) _ later] step show ?thesis
      by (simp add: link_valid_def Let_def)
  next
    case accept
    with pass_step_accept [OF Cons.prems(1,2) _ later named] step show ?thesis
      by (simp add: link_valid_def Let_def)
  qed
qed

definition links_wf :: "link list \<Rightarrow> bool" where
  "links_wf ls \<longleftrightarrow> distinct (map lk_name ls) \<and> (\<forall>l \<in> set ls. lk_name l \<noteq> '''')"

lemma EndpointConflicts_inv:
  assumes "links_wf ls"
  obtains claimed where "pass_claims (sort_key lk_name ls) claimed (EndpointConflicts ls)"
    "pass_conflicts (sort_key lk_name ls) (EndpointConflicts ls)"
proof -
  have sorted: "sorted_wrt (<) (map lk_name (sort_key lk_name ls))"
    using assms by (intro sort_key_strict) (simp add: links_wf_def)
  have "pass_claims [] [] []" "pass_conflicts [] []"
    by (simp_all add: pass_claims_def pass_conflicts_def)
  from endpoint_conflicts_loop_inv [OF this, of "sort_key lk_name ls"] sorted assms that
  show thesis by (auto simp: EndpointConflicts_def links_wf_def)
qed

section \<open>The arbitration contract\<close>

text \<open>
  What the ownership pass promises its callers, for any kind of named claimant: a rejected
  claimant overlaps an accepted one of smaller name, and two accepted claimants never overlap.
  The two laws already determine which claimants are accepted.
\<close>

locale arbitration =
  fixes wf :: "'l list \<Rightarrow> bool"
    and name :: "'l \<Rightarrow> 'n::linorder"
    and valid :: "'l \<Rightarrow> bool"
    and overlap :: "'l \<Rightarrow> 'l \<Rightarrow> bool"
    and loser :: "'l list \<Rightarrow> 'n \<Rightarrow> 'n option"
  assumes name_inj: "wf ls \<Longrightarrow> inj_on name (set ls)"
    and overlap_sym: "overlap l k \<Longrightarrow> overlap k l"
    and lost_to: "wf ls \<Longrightarrow> loser ls n = Some w \<Longrightarrow>
      \<exists>l \<in> set ls. \<exists>winner \<in> set ls. name l = n \<and> valid l \<and> name winner = w \<and> valid winner \<and>
        loser ls w = None \<and> w < n \<and> overlap l winner"
    and winners_disjoint: "wf ls \<Longrightarrow> l \<in> set ls \<Longrightarrow> k \<in> set ls \<Longrightarrow> valid l \<Longrightarrow> valid k \<Longrightarrow>
      loser ls (name l) = None \<Longrightarrow> loser ls (name k) = None \<Longrightarrow> l \<noteq> k \<Longrightarrow> \<not> overlap l k"
begin

lemma winner_of:
  assumes "wf ls" "l \<in> set ls" "loser ls (name l) = Some w"
  shows "\<exists>k \<in> set ls. name k = w \<and> valid k \<and> loser ls w = None \<and> w < name l \<and> overlap l k"
proof -
  from lost_to [OF assms(1,3)] obtain l' k where "l' \<in> set ls" "k \<in> set ls" "name l' = name l"
    "name k = w" "valid k" "loser ls w = None" "w < name l" "overlap l' k" by blast
  moreover from this assms(2) name_inj [OF assms(1)] have "l' = l" by (auto dest: inj_onD)
  ultimately show ?thesis by blast
qed

lemma loser_iff:
  assumes "wf ls" "l \<in> set ls" "valid l"
  shows "loser ls (name l) \<noteq> None \<longleftrightarrow>
    (\<exists>k \<in> set ls. valid k \<and> loser ls (name k) = None \<and> name k < name l \<and> overlap l k)"
proof
  assume "loser ls (name l) \<noteq> None"
  then obtain w where "loser ls (name l) = Some w" by blast
  from winner_of [OF assms(1,2) this]
  show "\<exists>k \<in> set ls. valid k \<and> loser ls (name k) = None \<and> name k < name l \<and> overlap l k" by blast
next
  assume "\<exists>k \<in> set ls. valid k \<and> loser ls (name k) = None \<and> name k < name l \<and> overlap l k"
  with assms winners_disjoint [OF assms(1)] show "loser ls (name l) \<noteq> None" by fastforce
qed

lemma least_wins:
  assumes "wf ls" "l \<in> set ls" "valid l" "\<forall>k \<in> set ls. valid k \<longrightarrow> name l \<le> name k"
  shows "loser ls (name l) = None"
  using loser_iff [OF assms(1-3)] assms(4) by fastforce

lemma winners_determined:
  assumes "wf ls" "wf ks" "set ls = set ks" "l \<in> set ls" "valid l"
  shows "loser ls (name l) = None \<longleftrightarrow> loser ks (name l) = None"
  using assms(4,5)
proof (induction "card {k \<in> set ls. name k < name l}" arbitrary: l rule: less_induct)
  case less
  have smaller: "loser ls (name k) = None \<longleftrightarrow> loser ks (name k) = None"
    if k: "k \<in> set ls" "valid k" "name k < name l" for k
  proof (rule less.hyps)
    have "{j \<in> set ls. name j < name k} \<subset> {j \<in> set ls. name j < name l}" using k by auto
    then show "card {j \<in> set ls. name j < name k} < card {j \<in> set ls. name j < name l}"
      by (intro psubset_card_mono) auto
  qed (use k in auto)
  have "(loser ls (name l) \<noteq> None) = (loser ks (name l) \<noteq> None)"
    unfolding loser_iff [OF assms(1) less.prems] assms(3)
      loser_iff [OF assms(2) less.prems [unfolded assms(3)]]
    using smaller assms(3) by blast
  then show ?case by blast
qed

end

lemma EndpointConflicts_lost_to:
  assumes "links_wf ls" "map_of (EndpointConflicts ls) n = Some w"
  shows "\<exists>l \<in> set ls. \<exists>winner \<in> set ls. lk_name l = n \<and> link_valid l \<and> lk_name winner = w \<and>
    link_valid winner \<and> map_of (EndpointConflicts ls) w = None \<and> w < n \<and> links_overlap l winner"
proof (rule EndpointConflicts_inv [OF assms(1)])
  fix claimed
  assume "pass_conflicts (sort_key lk_name ls) (EndpointConflicts ls)"
  with assms(2) show ?thesis
    unfolding pass_conflicts_def link_accepted_def set_sort by metis
qed

lemma EndpointConflicts_winners_disjoint:
  assumes "links_wf ls" "l \<in> set ls" "k \<in> set ls" "l \<noteq> k"
    and "link_accepted (EndpointConflicts ls) l" "link_accepted (EndpointConflicts ls) k"
  shows "\<not> links_overlap l k"
proof (rule EndpointConflicts_inv [OF assms(1)])
  fix claimed
  assume "pass_claims (sort_key lk_name ls) claimed (EndpointConflicts ls)"
  then have "lk_name l = lk_name k" if "links_overlap l k"
    using assms(2,3,5,6) that unfolding pass_claims_def links_overlap_def set_sort
    by (metis disjoint_iff)
  moreover have "lk_name l \<noteq> lk_name k"
    using assms(1-4) by (auto simp: links_wf_def distinct_map dest: inj_onD)
  ultimately show ?thesis by blast
qed

interpretation endpoint: arbitration links_wf lk_name link_valid links_overlap
  "\<lambda>ls. map_of (EndpointConflicts ls)"
proof
  fix ls :: "link list"
  assume "links_wf ls"
  then show "inj_on lk_name (set ls)" by (simp add: links_wf_def distinct_map)
next
  fix l k
  assume "links_overlap l k"
  then show "links_overlap k l" by (auto simp: links_overlap_def)
next
  fix ls n w
  assume "links_wf ls" "map_of (EndpointConflicts ls) n = Some w"
  then show "\<exists>l \<in> set ls. \<exists>winner \<in> set ls. lk_name l = n \<and> link_valid l \<and> lk_name winner = w \<and>
    link_valid winner \<and> map_of (EndpointConflicts ls) w = None \<and> w < n \<and> links_overlap l winner"
    by (rule EndpointConflicts_lost_to)
next
  fix ls l k
  assume "links_wf ls" "l \<in> set ls" "k \<in> set ls" "link_valid l" "link_valid k"
    "map_of (EndpointConflicts ls) (lk_name l) = None"
    "map_of (EndpointConflicts ls) (lk_name k) = None" "l \<noteq> k"
  then show "\<not> links_overlap l k"
    by (intro EndpointConflicts_winners_disjoint) (simp_all add: link_accepted_def)
qed

lemma EndpointConflicts_gm_str:
  assumes "links_wf ls"
  shows "gm_str (EndpointConflicts ls) n \<noteq> '''' \<longleftrightarrow> map_of (EndpointConflicts ls) n \<noteq> None"
proof (cases "map_of (EndpointConflicts ls) n")
  case (Some w)
  with endpoint.lost_to [OF assms this] assms have "w \<noteq> ''''" by (auto simp: links_wf_def)
  with Some show ?thesis by (simp add: gm_str_def)
qed (simp add: gm_str_def)

section \<open>Properties\<close>

text \<open>
  C1: No two accepted links of a namespace attach to the same interface of the same node: when
  neither of two valid links is in the result of \<open>EndpointConflicts\<close>, an endpoint of the one and an
  endpoint of the other differ in node or interface, unless they are host endpoints.
\<close>

theorem accepted_links_share_no_interface:
  assumes "links_wf ls" "l \<in> set ls" "k \<in> set ls" "l \<noteq> k"
    and "ValidateLink l = None" "map_of (EndpointConflicts ls) (lk_name l) = None"
    and "ValidateLink k = None" "map_of (EndpointConflicts ls) (lk_name k) = None"
    and "d \<in> {lk_endpoint_a l, lk_endpoint_b l}" "e \<in> {lk_endpoint_a k, lk_endpoint_b k}"
    and "ep_node_name d \<noteq> LinkHostNodeName"
  shows "ep_node_name d \<noteq> ep_node_name e \<or> ep_interface_name d \<noteq> ep_interface_name e"
proof (rule ccontr)
  assume "\<not> ?thesis"
  then have same: "endpointKey d = endpointKey e" "ep_node_name e \<noteq> LinkHostNodeName"
    using assms(11) by (auto simp: endpointKey_def)
  have "\<not> links_overlap l k"
    using assms(1-8) by (intro endpoint.winners_disjoint) (simp_all add: link_valid_def)
  moreover have "endpointKey d \<in> endpoint_keys l" "endpointKey d \<in> endpoint_keys k"
    using assms(9-11) same endpoint_keysI [of d l] endpoint_keysI [of e k] by simp_all
  ultimately show False by (auto simp: links_overlap_def)
qed

text \<open>
  Three links of which the last two name an interface of the first; \<open>l3\<close> is listed first.
\<close>

definition sample_links :: "link list" where
  "sample_links =
     [sample_link ''l3'' ''srl2'' ''e1-1'' ''srl3'' ''e1-9'' 0,
      sample_link ''l1'' ''srl1'' ''e1-1'' ''srl2'' ''e1-1'' 0,
      sample_link ''l2'' ''srl1'' ''e1-1'' ''host'' ''eth7'' 0,
      sample_link ''l4'' ''srl3'' ''e1-9'' ''host'' ''eth7'' 0]"

lemma sample_links_conflicts: "EndpointConflicts sample_links = [(''l2'', ''l1''), (''l3'', ''l1'')]"
  by (simp add: EndpointConflicts_def sample_links_def sample_defs ValidateLink_def
      LinkHostNodeName_def conflictForClaimedEndpoints_def claimLinkEndpoints_def endpointKey_def
      gm_str_def Let_def)

lemma sample_links_wf: "links_wf sample_links"
  by (simp add: links_wf_def sample_links_def sample_defs)

theorem accepted_links_share_no_interface_witness:
  "lk_endpoint_b (sample_links ! 1) \<noteq> lk_endpoint_a (sample_links ! 3)"
proof -
  let ?l = "sample_links ! 1" and ?k = "sample_links ! 3"
  have mem: "?l \<in> set sample_links" "?k \<in> set sample_links" by (simp_all add: sample_links_def)
  have names: "lk_name ?l = ''l1''" "lk_name ?k = ''l4''" by (simp_all add: sample_links_def sample_defs)
  have "lk_name ?l \<noteq> lk_name ?k" unfolding names by simp
  then have distinct: "?l \<noteq> ?k" by (rule contrapos_nn) (rule arg_cong)
  have valid: "ValidateLink ?l = None" "ValidateLink ?k = None"
    "ep_node_name (lk_endpoint_b ?l) \<noteq> LinkHostNodeName"
    by (simp_all add: sample_links_def sample_defs ValidateLink_def LinkHostNodeName_def)
  have accepted: "map_of (EndpointConflicts sample_links) (lk_name ?l) = None"
    "map_of (EndpointConflicts sample_links) (lk_name ?k) = None"
    unfolding names by (simp_all add: sample_links_conflicts)
  have "ep_node_name (lk_endpoint_b ?l) \<noteq> ep_node_name (lk_endpoint_a ?k) \<or>
    ep_interface_name (lk_endpoint_b ?l) \<noteq> ep_interface_name (lk_endpoint_a ?k)"
    by (rule accepted_links_share_no_interface [OF sample_links_wf mem distinct valid(1) accepted(1)
          valid(2) accepted(2) _ _ valid(3)]) simp_all
  then show ?thesis by metis
qed

text \<open>
  C8: A valid link is rejected exactly when it names an interface that an accepted link of smaller
  name owns, and the result of \<open>EndpointConflicts\<close> names such a link.
\<close>

theorem EndpointConflicts_iff:
  assumes "links_wf ls" "l \<in> set ls" "ValidateLink l = None"
  shows "(map_of (EndpointConflicts ls) (lk_name l) \<noteq> None \<longleftrightarrow>
      (\<exists>k \<in> set ls. ValidateLink k = None \<and> map_of (EndpointConflicts ls) (lk_name k) = None \<and>
         lk_name k < lk_name l \<and> endpoint_keys l \<inter> endpoint_keys k \<noteq> {})) \<and>
    (\<forall>w. map_of (EndpointConflicts ls) (lk_name l) = Some w \<longrightarrow>
      (\<exists>k \<in> set ls. lk_name k = w \<and> w < lk_name l \<and> map_of (EndpointConflicts ls) w = None \<and>
         endpoint_keys l \<inter> endpoint_keys k \<noteq> {}))"
proof
  show "map_of (EndpointConflicts ls) (lk_name l) \<noteq> None \<longleftrightarrow>
      (\<exists>k \<in> set ls. ValidateLink k = None \<and> map_of (EndpointConflicts ls) (lk_name k) = None \<and>
         lk_name k < lk_name l \<and> endpoint_keys l \<inter> endpoint_keys k \<noteq> {})"
    using endpoint.loser_iff [OF assms(1,2)] assms(3) by (simp add: link_valid_def links_overlap_def)
  show "\<forall>w. map_of (EndpointConflicts ls) (lk_name l) = Some w \<longrightarrow>
      (\<exists>k \<in> set ls. lk_name k = w \<and> w < lk_name l \<and> map_of (EndpointConflicts ls) w = None \<and>
         endpoint_keys l \<inter> endpoint_keys k \<noteq> {})"
    using endpoint.winner_of [OF assms(1,2)] unfolding links_overlap_def by blast
qed

theorem EndpointConflicts_iff_witness:
  "\<exists>k \<in> set sample_links. lk_name k = ''l1'' \<and>
     endpoint_keys (sample_links ! 0) \<inter> endpoint_keys k \<noteq> {}"
proof -
  have l: "sample_links ! 0 \<in> set sample_links" "ValidateLink (sample_links ! 0) = None"
    "lk_name (sample_links ! 0) = ''l3''"
    by (simp_all add: sample_links_def sample_defs ValidateLink_def LinkHostNodeName_def)
  show ?thesis
    using EndpointConflicts_iff [OF sample_links_wf l(1,2)] by (simp add: l(3) sample_links_conflicts)
qed

text \<open>
  The outcome of the pass does not depend on the order in which the API server lists the
  links of the namespace.
\<close>

theorem EndpointConflicts_order_independent:
  assumes "mset ls = mset ks" "distinct (map lk_name ls)"
  shows "EndpointConflicts ls = EndpointConflicts ks"
  using sort_key_unique [OF assms] by (simp add: EndpointConflicts_def)

theorem EndpointConflicts_order_independent_witness:
  "EndpointConflicts (rev sample_links) = [(''l2'', ''l1''), (''l3'', ''l1'')]"
  using EndpointConflicts_order_independent [of "rev sample_links" sample_links]
    sample_links_wf sample_links_conflicts
  by (simp add: links_wf_def rev_map [symmetric])

lemma replace_candidate_self:
  "distinct (map lk_name ls) \<Longrightarrow> l \<in> set ls \<Longrightarrow> replace_candidate l ls = ls"
  by (induction ls) (auto simp: image_iff)

lemma replace_candidate_names:
  "lk_name ` set (replace_candidate l ls) = insert (lk_name l) (lk_name ` set ls)"
  "distinct (map lk_name ls) \<Longrightarrow> distinct (map lk_name (replace_candidate l ls))"
proof -
  show names: "lk_name ` set (replace_candidate l ls) = insert (lk_name l) (lk_name ` set ls)" for ls
    by (induction ls) auto
  show "distinct (map lk_name ls) \<Longrightarrow> distinct (map lk_name (replace_candidate l ls))"
    by (induction ls) (auto simp: names)
qed

lemma replace_candidate_mem: "l \<in> set (replace_candidate l ls)"
  by (induction ls) auto

lemma replace_candidate_other:
  "k \<in> set (replace_candidate l ls) \<Longrightarrow> k = l \<or> k \<in> set ls"
  by (induction ls) (auto split: if_splits)

text \<open>
  \<open>FindEndpointConflict\<close> reports a conflict for a candidate link exactly when, in the namespace
  with the candidate put in place of its stored version, an accepted link of smaller name owns one
  of the interfaces the candidate names.
\<close>

theorem FindEndpointConflict_correct:
  assumes "links_wf ls" "lk_name l \<noteq> ''''" "ValidateLink l = None"
    and "ks = replace_candidate l ls"
  shows "FindEndpointConflict l ls \<noteq> '''' \<longleftrightarrow>
    (\<exists>k \<in> set ls. ValidateLink k = None \<and> map_of (EndpointConflicts ks) (lk_name k) = None \<and>
       lk_name k < lk_name l \<and> endpoint_keys l \<inter> endpoint_keys k \<noteq> {})"
proof -
  have wf: "links_wf ks"
    using assms(1,2) replace_candidate_other [of _ l ls]
    by (auto simp: links_wf_def assms(4) intro: replace_candidate_names(2))
  have mem: "l \<in> set ks" by (simp add: assms(4) replace_candidate_mem)
  have others: "k \<in> set ks \<longleftrightarrow> k \<in> set ls" if "lk_name k < lk_name l" for k
  proof
    show "k \<in> set ks \<Longrightarrow> k \<in> set ls" using that replace_candidate_other assms(4) by fastforce
    show "k \<in> set ls \<Longrightarrow> k \<in> set ks" using that unfolding assms(4) by (induction ls) auto
  qed
  have "FindEndpointConflict l ls \<noteq> '''' \<longleftrightarrow> map_of (EndpointConflicts ks) (lk_name l) \<noteq> None"
    unfolding FindEndpointConflict_def assms(4) [symmetric] by (rule EndpointConflicts_gm_str [OF wf])
  also have "\<dots> \<longleftrightarrow> (\<exists>k \<in> set ks. link_valid k \<and> map_of (EndpointConflicts ks) (lk_name k) = None \<and>
      lk_name k < lk_name l \<and> links_overlap l k)"
    using assms(3) by (intro endpoint.loser_iff [OF wf mem]) (simp add: link_valid_def)
  also have "\<dots> \<longleftrightarrow> (\<exists>k \<in> set ls. ValidateLink k = None \<and> map_of (EndpointConflicts ks) (lk_name k) = None \<and>
       lk_name k < lk_name l \<and> endpoint_keys l \<inter> endpoint_keys k \<noteq> {})"
    unfolding link_valid_def links_overlap_def Bex_def using others by (intro iff_exI) blast
  finally show ?thesis .
qed

theorem FindEndpointConflict_correct_witness:
  "FindEndpointConflict (sample_link ''l0'' ''srl1'' ''e1-1'' ''srl9'' ''e1-1'' 0) sample_links = ''''"
proof -
  let ?l = "sample_link ''l0'' ''srl1'' ''e1-1'' ''srl9'' ''e1-1'' 0"
  have l: "ValidateLink ?l = None" "lk_name ?l = ''l0''"
    by (simp_all add: ValidateLink_def sample_defs LinkHostNodeName_def)
  have least: "\<forall>k \<in> set sample_links. \<not> lk_name k < ''l0''"
    by (simp add: sample_links_def sample_defs)
  have "lk_name ?l \<noteq> ''''" by (simp add: l(2))
  from FindEndpointConflict_correct [OF sample_links_wf this l(1) refl] least
  show ?thesis unfolding l(2) by blast
qed

end
