(* ===== verification/Wire_Ids.thy ===== *)
theory Wire_Ids
  imports Link_Endpoints
begin

text \<open>
  Allocation of wire ids to the links of a namespace (\<open>src/controllers/link/allocate.go\<close>): which links
  need an id at all, and the reservation table a reconcile pass reads ids from and records them in.
\<close>

section \<open>Definitions\<close>

definition maxWireID :: int where
  "maxWireID = 16000000"

datatype link_error =
    EndpointNodeMissing string
  | WireIdsExhausted int
  | LinkApiError api_error

fun validate_endpoints :: "link_endpoint_spec list \<Rightarrow> (string, node) gomap \<Rightarrow> link_error option" where
  "validate_endpoints [] nodes = None"
| "validate_endpoints (endpoint # rest) nodes =
     (if ep_node_name endpoint = LinkHostNodeName then validate_endpoints rest nodes
      else if map_of nodes (ep_node_name endpoint) = None
      then Some (EndpointNodeMissing (ep_node_name endpoint))
      else validate_endpoints rest nodes)"

definition ValidateLinkEndpoints :: "link \<Rightarrow> (string, node) gomap \<Rightarrow> link_error option" where
  "ValidateLinkEndpoints l nodes = validate_endpoints [lk_endpoint_a l, lk_endpoint_b l] nodes"

definition IsHostLink :: "link \<Rightarrow> bool" where
  "IsHostLink l \<longleftrightarrow> ep_node_name (lk_endpoint_a l) = LinkHostNodeName \<or>
     ep_node_name (lk_endpoint_b l) = LinkHostNodeName"

definition IsSamePodLink :: "link \<Rightarrow> (string, node) gomap \<Rightarrow> bool" where
  "IsSamePodLink l nodes \<longleftrightarrow>
     ResolvePrimaryNode nodes (ep_node_name (lk_endpoint_a l)) =
     ResolvePrimaryNode nodes (ep_node_name (lk_endpoint_b l))"

definition LinksWithResolvedEndpoints :: "link list \<Rightarrow> (string, node) gomap \<Rightarrow> link list" where
  "LinksWithResolvedEndpoints namespaceLinks nodes =
     filter (\<lambda>l. ValidateLinkEndpoints l nodes = None) namespaceLinks"

text \<open>
  \<open>wireReservations\<close>: for every id the set of link keys that hold it, as a list without
  repetitions, and the lowest id the search for a free one starts from.
\<close>

record wireReservations =
  wr_owners :: "(int, string list) gomap"
  wr_next :: int

definition owners_of :: "wireReservations \<Rightarrow> int \<Rightarrow> string list" where
  "owners_of r wid = (case map_of (wr_owners r) wid of None \<Rightarrow> [] | Some ks \<Rightarrow> ks)"

definition link_key :: "link \<Rightarrow> string" where
  "link_key l = lk_namespace l @ ''/'' @ lk_name l"

definition release_wire :: "wireReservations \<Rightarrow> string \<Rightarrow> int \<Rightarrow> wireReservations" where
  "release_wire r key previous =
     (let ks = removeAll key (owners_of r previous) in
      if ks = [] then r\<lparr> wr_owners := AList.delete previous (wr_owners r),
                         wr_next := min (wr_next r) previous \<rparr>
      else r\<lparr> wr_owners := AList.update previous ks (wr_owners r) \<rparr>)"

definition record_wire :: "wireReservations \<Rightarrow> link \<Rightarrow> int \<Rightarrow> wireReservations" where
  "record_wire r l previous =
     (if previous = lk_wire_id l then r
      else let key = link_key l;
               r = (if previous > 0 then release_wire r key previous else r);
               wid = lk_wire_id l
           in if wid > 0
              then r\<lparr> wr_owners := AList.update wid (List.insert key (owners_of r wid)) (wr_owners r) \<rparr>
              else r)"

definition newWireReservations :: "link list \<Rightarrow> wireReservations" where
  "newWireReservations links =
     foldl (\<lambda>r l. record_wire r l 0) \<lparr> wr_owners = [], wr_next = 1 \<rparr> links"

text \<open>
  The search loop of \<open>desired\<close>: the found id, if any, and the value \<open>next\<close> is left with.
\<close>

function scan_wire :: "(int \<Rightarrow> string list) \<Rightarrow> string \<Rightarrow> int \<Rightarrow> int option \<times> int" where
  "scan_wire owners key next =
     (if next \<le> maxWireID
      then if owners next = [] \<or> (length (owners next) = 1 \<and> key \<in> set (owners next))
           then (Some next, next)
           else scan_wire owners key (next + 1)
      else (None, next))"
  by pat_completeness auto
termination
  by (relation "measure (\<lambda>(owners, key, next). nat (maxWireID + 1 - next))") auto

declare scan_wire.simps [simp del]

definition desired :: "wireReservations \<Rightarrow> link \<Rightarrow> (string, node) gomap
    \<Rightarrow> (link_error + int) \<times> wireReservations" where
  "desired r l nodes =
     (if IsHostLink l \<or> IsSamePodLink l nodes then (Inr 0, r)
      else let key = link_key l;
               contested = (\<exists>owner \<in> set (owners_of r (lk_wire_id l)). owner < key)
           in if lk_wire_id l \<ge> 1 \<and> lk_wire_id l \<le> maxWireID \<and> \<not> contested
              then (Inr (lk_wire_id l), r)
              else case scan_wire (owners_of r) key (wr_next r) of
                     (Some wid, next) \<Rightarrow> (Inr wid, r\<lparr> wr_next := next \<rparr>)
                   | (None, next) \<Rightarrow> (Inl (WireIdsExhausted maxWireID), r\<lparr> wr_next := next \<rparr>))"

definition ResolveDesiredWireID :: "link \<Rightarrow> link list \<Rightarrow> node list \<Rightarrow> link_error + int" where
  "ResolveDesiredWireID l namespaceLinks namespaceNodes =
     fst (desired (newWireReservations namespaceLinks) l (NodesByName namespaceNodes))"

section \<open>The reservation table\<close>

lemma owners_of_update [simp]:
  "owners_of (r\<lparr> wr_owners := AList.update wid ks m \<rparr>) j =
     (if j = wid then ks else owners_of (r\<lparr> wr_owners := m \<rparr>) j)"
  by (simp add: owners_of_def update_conv)

lemma owners_of_delete [simp]:
  "owners_of (r\<lparr> wr_owners := AList.delete wid m \<rparr>) j =
     (if j = wid then [] else owners_of (r\<lparr> wr_owners := m \<rparr>) j)"
  by (simp add: owners_of_def delete_conv)

lemma owners_of_next [simp]: "owners_of (r\<lparr> wr_next := n \<rparr>) = owners_of r"
  by (simp add: owners_of_def fun_eq_iff)

lemma owners_of_same [simp]: "owners_of (r\<lparr> wr_owners := wr_owners r \<rparr>) = owners_of r"
  by simp

lemma set_owners_release:
  "set (owners_of (release_wire r key previous) j) =
     (if j = previous then set (owners_of r j) - {key} else set (owners_of r j))"
proof (cases "removeAll key (owners_of r previous) = []")
  case True
  then have "set (owners_of r previous) - {key} = {}" by (metis set_removeAll set_empty)
  with True show ?thesis by (auto simp: release_wire_def)
qed (simp add: release_wire_def Let_def)

text \<open>What \<open>record\<close> does to the holders of an id.\<close>

lemma set_owners_record:
  "set (owners_of (record_wire r l previous) j) =
     (if previous = lk_wire_id l then set (owners_of r j)
      else (set (owners_of r j) - (if j = previous \<and> previous > 0 then {link_key l} else {})) \<union>
           (if j = lk_wire_id l \<and> j > 0 then {link_key l} else {}))"
  by (simp add: record_wire_def Let_def set_owners_release)

lemma wr_next_record:
  "wr_next (record_wire r l previous) =
     (if previous \<noteq> lk_wire_id l \<and> previous > 0 \<and> set (owners_of r previous) \<subseteq> {link_key l}
      then min (wr_next r) previous else wr_next r)"
proof -
  have "removeAll k xs = [] \<longleftrightarrow> set xs \<subseteq> {k}" for k :: string and xs
    by (induction xs) auto
  then show ?thesis by (simp add: record_wire_def release_wire_def Let_def)
qed

definition wires_wf :: "wireReservations \<Rightarrow> bool" where
  "wires_wf r \<longleftrightarrow> (\<forall>j. distinct (owners_of r j)) \<and>
     1 \<le> wr_next r \<and> (\<forall>j. 1 \<le> j \<longrightarrow> j < wr_next r \<longrightarrow> owners_of r j \<noteq> [])"

lemma wires_wf_record:
  assumes "wires_wf r"
  shows "wires_wf (record_wire r l previous)"
  unfolding wires_wf_def
proof (intro conjI allI impI)
  show "distinct (owners_of (record_wire r l previous) j)" for j
    using assms by (simp add: record_wire_def release_wire_def wires_wf_def Let_def distinct_removeAll)
  show "1 \<le> wr_next (record_wire r l previous)"
    using assms by (auto simp: wires_wf_def wr_next_record)
  fix j
  assume j: "1 \<le> j" "j < wr_next (record_wire r l previous)"
  then have "owners_of r j \<noteq> []" using assms by (auto simp: wires_wf_def wr_next_record split: if_splits)
  with j have "set (owners_of (record_wire r l previous) j) \<noteq> {}"
    unfolding set_owners_record wr_next_record by (auto split: if_splits)
  then show "owners_of (record_wire r l previous) j \<noteq> []" by auto
qed
lemma owners_newWireReservations:
  shows "0 < wid \<Longrightarrow> set (owners_of (newWireReservations links) wid) =
    link_key ` {l \<in> set links. lk_wire_id l = wid}"
    "wires_wf (newWireReservations links)"
proof -
  let ?start = "\<lparr> wr_owners = [], wr_next = 1 \<rparr>"
  have fold: "0 < wid \<Longrightarrow> set (owners_of (foldl (\<lambda>r l. record_wire r l 0) r ls) wid) =
    set (owners_of r wid) \<union> link_key ` {l \<in> set ls. lk_wire_id l = wid}" for r ls
    by (induction ls arbitrary: r) (auto simp: set_owners_record)
  show "0 < wid \<Longrightarrow> set (owners_of (newWireReservations links) wid) =
    link_key ` {l \<in> set links. lk_wire_id l = wid}"
    using fold [of ?start links] by (simp add: newWireReservations_def owners_of_def)
  have wf: "wires_wf r \<Longrightarrow> wires_wf (foldl (\<lambda>r l. record_wire r l 0) r ls)" for r ls
    by (induction ls arbitrary: r) (auto intro: wires_wf_record)
  show "wires_wf (newWireReservations links)"
    unfolding newWireReservations_def by (rule wf) (simp add: wires_wf_def owners_of_def)
qed

text \<open>
  The scan stops at the first id that is free for the key, or past the ceiling when there is none.
\<close>

definition wire_free :: "(int \<Rightarrow> string list) \<Rightarrow> string \<Rightarrow> int \<Rightarrow> bool" where
  "wire_free owners key j \<longleftrightarrow> owners j = [] \<or> (length (owners j) = 1 \<and> key \<in> set (owners j))"

lemma wire_free_iff: "wire_free owners key j \<longleftrightarrow> owners j = [] \<or> owners j = [key]"
  by (cases "owners j") (auto simp: wire_free_def)

lemma scan_wire_spec:
  assumes "scan_wire owners key n = (res, n')"
  shows "n \<le> n' \<and> (\<forall>j. n \<le> j \<longrightarrow> j < n' \<longrightarrow> \<not> wire_free owners key j) \<and>
    (case res of None \<Rightarrow> maxWireID < n' | Some wid \<Rightarrow> wid = n' \<and> wid \<le> maxWireID \<and> wire_free owners key wid)"
  using assms
proof (induction owners key n rule: scan_wire.induct)
  case (1 owners key n)
  consider (past) "\<not> n \<le> maxWireID" | (found) "n \<le> maxWireID" "wire_free owners key n"
    | (more) "n \<le> maxWireID" "\<not> wire_free owners key n" by blast
  then show ?case
  proof cases
    case more
    with "1.prems" have rest: "scan_wire owners key (n + 1) = (res, n')"
      by (subst (asm) scan_wire.simps) (auto simp: wire_free_def)
    from "1.IH" [OF more(1) more(2) [unfolded wire_free_def] rest] more(2) show ?thesis
      by (auto simp: int_one_le_iff_zero_less) (metis add1_zle_eq order_le_less)
  qed (use "1.prems" in \<open>subst (asm) scan_wire.simps, auto simp: wire_free_def\<close>)+
qed

section \<open>The allocation contract\<close>

text \<open>
  \<open>reserved_exactly\<close> says that the table holds the ids the objects have, no more and no fewer.
\<close>

definition reserved_exactly ::
    "('l \<Rightarrow> 'k) \<Rightarrow> ('l \<Rightarrow> int) \<Rightarrow> (int \<Rightarrow> 'k set) \<Rightarrow> 'l set \<Rightarrow> bool" where
  "reserved_exactly key wire own L \<longleftrightarrow>
     (\<forall>wid > 0. own wid = key ` {l \<in> L. wire l = wid})"

text \<open>
  The interface of an id allocator towards a pass that visits the objects one by one: the table's
  holders after an update, and what an answer guarantees.
\<close>

locale wire_allocator =
  fixes wf :: "'r \<Rightarrow> bool"
    and own :: "'r \<Rightarrow> int \<Rightarrow> ('k::linorder) set"
    and key :: "'l \<Rightarrow> 'k"
    and wire :: "'l \<Rightarrow> int"
    and wired :: "'c \<Rightarrow> 'l \<Rightarrow> bool"
    and assign :: "'r \<Rightarrow> 'l \<Rightarrow> int \<Rightarrow> 'r"
    and pick :: "'r \<Rightarrow> 'l \<Rightarrow> 'c \<Rightarrow> int option \<times> 'r"
    and ceiling :: int
  assumes wf_assign: "wf r \<Longrightarrow> wf (assign r l p)"
    and wf_pick: "wf r \<Longrightarrow> wf (snd (pick r l c))"
    and own_assign: "own (assign r l p) wid =
      (if p = wire l then own r wid
       else (own r wid - (if wid = p \<and> p > 0 then {key l} else {})) \<union>
            (if wid = wire l \<and> wid > 0 then {key l} else {}))"
    and own_pick: "own (snd (pick r l c)) = own r"
    and pick_unwired: "\<not> wired c l \<Longrightarrow> pick r l c = (Some 0, r)"
    and pick_keeps: "wired c l \<Longrightarrow> 1 \<le> wire l \<Longrightarrow> wire l \<le> ceiling \<Longrightarrow>
      \<forall>k \<in> own r (wire l). key l \<le> k \<Longrightarrow> pick r l c = (Some (wire l), r)"
    and pick_lowest: "wf r \<Longrightarrow> wired c l \<Longrightarrow>
      \<not> (1 \<le> wire l \<and> wire l \<le> ceiling \<and> (\<forall>k \<in> own r (wire l). key l \<le> k)) \<Longrightarrow>
      pick r l c = (Some wid, r') \<Longrightarrow> 1 \<le> wid \<and> wid \<le> ceiling \<and> own r wid \<subseteq> {key l} \<and>
        (\<forall>j. 1 \<le> j \<longrightarrow> j < wid \<longrightarrow> own r j \<noteq> {})"
    and pick_exhausted: "wf r \<Longrightarrow> fst (pick r l c) = None \<Longrightarrow>
      \<forall>j. 1 \<le> j \<longrightarrow> j \<le> ceiling \<longrightarrow> own r j \<noteq> {}"
begin

lemma pick_range:
  assumes "wf r" "pick r l c = (Some wid, r')"
  shows "if wired c l then 1 \<le> wid \<and> wid \<le> ceiling else wid = 0"
proof (cases "wired c l")
  case True
  note wired = this
  show ?thesis
  proof (cases "1 \<le> wire l \<and> wire l \<le> ceiling \<and> (\<forall>k \<in> own r (wire l). key l \<le> k)")
    case True
    then have "pick r l c = (Some (wire l), r)" by (intro pick_keeps [OF wired]) simp_all
    with True wired assms(2) show ?thesis by simp
  next
    case False
    from pick_lowest [OF assms(1) wired False assms(2)] wired show ?thesis by simp
  qed
qed (use assms pick_unwired in auto)

lemma pick_uncontested:
  assumes "wf r" "wired c l" "pick r l c = (Some wid, r')"
  shows "\<forall>k \<in> own r wid. key l \<le> k"
proof (cases "1 \<le> wire l \<and> wire l \<le> ceiling \<and> (\<forall>k \<in> own r (wire l). key l \<le> k)")
  case True
  with pick_keeps [OF assms(2)] assms(3) show ?thesis by simp
next
  case False
  from pick_lowest [OF assms(1,2) False assms(3)] show ?thesis by auto
qed

lemma pick_new_to_smaller:
  assumes "wf r" "reserved_exactly key wire (own r) L" "wired c l" "pick r l c = (Some wid, r')"
    and "k \<in> L" "key k < key l"
  shows "wire k \<noteq> wid"
proof
  assume "wire k = wid"
  moreover have "0 < wid" using pick_range [OF assms(1,4)] assms(3) by simp
  ultimately have "key k \<in> own r wid" using assms(2,5) by (auto simp: reserved_exactly_def)
  with pick_uncontested [OF assms(1,3,4)] assms(6) show False by auto
qed

lemma reserved_assign:
  assumes "reserved_exactly key wire (own r) (insert l L)" "\<forall>k \<in> L. key k \<noteq> key l" "key l' = key l"
  shows "reserved_exactly key wire (own (assign r l' (wire l))) (insert l' L)"
  unfolding reserved_exactly_def
proof (intro allI impI)
  fix wid :: int
  assume "0 < wid"
  have split: "key ` {k \<in> insert x L. wire k = wid} =
    (if wire x = wid then {key x} else {}) \<union> key ` {k \<in> L. wire k = wid}" for x by auto
  from \<open>0 < wid\<close> have old: "own r wid = key ` {k \<in> insert l L. wire k = wid}"
    using assms(1) unfolding reserved_exactly_def by blast
  have rest: "key l \<notin> key ` {k \<in> L. wire k = wid}" using assms(2) by auto
  show "own (assign r l' (wire l)) wid = key ` {k \<in> insert l' L. wire k = wid}"
    unfolding own_assign old split using rest assms(3) \<open>0 < wid\<close> by (simp split: if_splits) blast
qed

end
definition wired :: "(string, node) gomap \<Rightarrow> link \<Rightarrow> bool" where
  "wired nodes l \<longleftrightarrow> \<not> (IsHostLink l \<or> IsSamePodLink l nodes)"

definition pick_wire :: "wireReservations \<Rightarrow> link \<Rightarrow> (string, node) gomap \<Rightarrow> int option \<times> wireReservations" where
  "pick_wire r l nodes = (case desired r l nodes of (Inl e, r') \<Rightarrow> (None, r') | (Inr wid, r') \<Rightarrow> (Some wid, r'))"

lemma pick_wire_Some: "pick_wire r l nodes = (Some wid, r') \<longleftrightarrow> desired r l nodes = (Inr wid, r')"
  by (auto simp: pick_wire_def split: prod.splits sum.splits)

lemma desired_cases:
  obtains (unwired) "\<not> wired nodes l" "desired r l nodes = (Inr 0, r)"
  | (kept) "wired nodes l" "1 \<le> lk_wire_id l" "lk_wire_id l \<le> maxWireID"
      "\<forall>k \<in> set (owners_of r (lk_wire_id l)). link_key l \<le> k" "desired r l nodes = (Inr (lk_wire_id l), r)"
  | (scan) res n' where "wired nodes l"
      "\<not> (1 \<le> lk_wire_id l \<and> lk_wire_id l \<le> maxWireID \<and>
          (\<forall>k \<in> set (owners_of r (lk_wire_id l)). link_key l \<le> k))"
      "scan_wire (owners_of r) (link_key l) (wr_next r) = (res, n')"
      "desired r l nodes = ((case res of None \<Rightarrow> Inl (WireIdsExhausted maxWireID) | Some wid \<Rightarrow> Inr wid),
         r\<lparr> wr_next := n' \<rparr>)"
proof -
  obtain res n' where scanned: "scan_wire (owners_of r) (link_key l) (wr_next r) = (res, n')" by fastforce
  show thesis
  proof (cases "wired nodes l")
    case False
    then show thesis by (intro unwired) (simp_all add: wired_def desired_def)
  next
    case True
    show thesis
    proof (cases "1 \<le> lk_wire_id l \<and> lk_wire_id l \<le> maxWireID \<and>
        (\<forall>k \<in> set (owners_of r (lk_wire_id l)). link_key l \<le> k)")
      case uncontested: True
      then show thesis using True by (intro kept) (auto simp: wired_def desired_def Let_def)
    next
      case contested: False
      then show thesis using True scanned
        by (intro scan) (auto simp: wired_def desired_def Let_def not_le split: option.splits)
    qed
  qed
qed

lemma scan_result:
  assumes "wires_wf r" "scan_wire (owners_of r) key (wr_next r) = (res, n')"
  shows "1 \<le> n'" "\<forall>j. 1 \<le> j \<longrightarrow> j < n' \<longrightarrow> owners_of r j \<noteq> []"
    "res = None \<Longrightarrow> maxWireID < n'"
    "res = Some wid \<Longrightarrow> wid = n' \<and> wid \<le> maxWireID \<and> set (owners_of r wid) \<subseteq> {key}"
proof -
  note spec = scan_wire_spec [OF assms(2)]
  show "1 \<le> n'" "res = None \<Longrightarrow> maxWireID < n'"
    using spec assms(1) by (auto simp: wires_wf_def)
  show "res = Some wid \<Longrightarrow> wid = n' \<and> wid \<le> maxWireID \<and> set (owners_of r wid) \<subseteq> {key}"
    using spec by (auto simp: wire_free_iff)
  show "\<forall>j. 1 \<le> j \<longrightarrow> j < n' \<longrightarrow> owners_of r j \<noteq> []"
  proof (intro allI impI)
    fix j
    assume "1 \<le> j" "j < n'"
    then show "owners_of r j \<noteq> []"
      using spec assms(1) by (cases "j < wr_next r") (auto simp: wires_wf_def wire_free_iff)
  qed
qed

interpretation wires: wire_allocator wires_wf "\<lambda>r wid. set (owners_of r wid)" link_key lk_wire_id wired
  record_wire pick_wire maxWireID
proof
  fix r l nodes wid r' and p :: int
  show "wires_wf r \<Longrightarrow> wires_wf (record_wire r l p)" by (rule wires_wf_record)
  show "set (owners_of (record_wire r l p) wid) =
      (if p = lk_wire_id l then set (owners_of r wid)
       else (set (owners_of r wid) - (if wid = p \<and> p > 0 then {link_key l} else {})) \<union>
            (if wid = lk_wire_id l \<and> wid > 0 then {link_key l} else {}))"
    by (rule set_owners_record)
  show "(\<lambda>wid. set (owners_of (snd (pick_wire r l nodes)) wid)) = (\<lambda>wid. set (owners_of r wid))"
    by (cases rule: desired_cases [of nodes l r]) (auto simp: pick_wire_def split: option.splits)
  show "\<not> wired nodes l \<Longrightarrow> pick_wire r l nodes = (Some 0, r)"
    by (simp add: pick_wire_def desired_def wired_def)
  show "pick_wire r l nodes = (Some (lk_wire_id l), r)"
    if "wired nodes l" "1 \<le> lk_wire_id l" "lk_wire_id l \<le> maxWireID"
      "\<forall>k \<in> set (owners_of r (lk_wire_id l)). link_key l \<le> k"
    using that by (cases rule: desired_cases [of nodes l r]) (auto simp: pick_wire_def)
  show "wires_wf (snd (pick_wire r l nodes))" if wf: "wires_wf r"
  proof (cases rule: desired_cases [of nodes l r])
    case (scan res n')
    with scan_result [OF wf scan(3)] wf show ?thesis
      by (auto simp: pick_wire_def wires_wf_def split: option.splits)
  qed (use wf in \<open>simp_all add: pick_wire_def\<close>)
  show "1 \<le> wid \<and> wid \<le> maxWireID \<and> set (owners_of r wid) \<subseteq> {link_key l} \<and>
      (\<forall>j. 1 \<le> j \<longrightarrow> j < wid \<longrightarrow> set (owners_of r j) \<noteq> {})"
    if wf: "wires_wf r" and "wired nodes l" and fresh: "\<not> (1 \<le> lk_wire_id l \<and> lk_wire_id l \<le> maxWireID \<and>
      (\<forall>k \<in> set (owners_of r (lk_wire_id l)). link_key l \<le> k))"
      and picked: "pick_wire r l nodes = (Some wid, r')"
  proof (cases rule: desired_cases [of nodes l r])
    case (scan res n')
    with picked have "res = Some wid" by (auto simp: pick_wire_def split: option.splits)
    with scan_result [OF wf scan(3)] show ?thesis by auto
  qed (use that in auto)
  show "\<forall>j. 1 \<le> j \<longrightarrow> j \<le> maxWireID \<longrightarrow> set (owners_of r j) \<noteq> {}"
    if wf: "wires_wf r" and none: "fst (pick_wire r l nodes) = None"
  proof (cases rule: desired_cases [of nodes l r])
    case (scan res n')
    with none have "res = None" by (auto simp: pick_wire_def split: option.splits)
    with scan_result [OF wf scan(3)] show ?thesis by auto
  qed (use none in \<open>auto simp: pick_wire_def\<close>)
qed

lemma reserved_newWireReservations:
  "reserved_exactly link_key lk_wire_id (\<lambda>wid. set (owners_of (newWireReservations links) wid)) (set links)"
  by (simp add: reserved_exactly_def owners_newWireReservations(1))

text \<open>
  An id below a freshly allocated one is held by a link other than the one it is allocated to.
\<close>

lemma fresh_wire_lowest:
  assumes exact: "reserved_exactly link_key lk_wire_id (\<lambda>wid. set (owners_of r wid)) L"
    and inj: "inj_on link_key L" and l: "l \<in> L" and wf: "wires_wf r" and "wired nodes l"
    and pick: "pick_wire r l nodes = (Some d, r')" and new: "d \<noteq> lk_wire_id l"
  shows "\<forall>k \<in> L. lk_wire_id k \<noteq> d"
    and "1 \<le> j \<Longrightarrow> j < d \<Longrightarrow> \<exists>k \<in> L. k \<noteq> l \<and> lk_wire_id k = j"
proof -
  let ?kept = "1 \<le> lk_wire_id l \<and> lk_wire_id l \<le> maxWireID \<and>
    (\<forall>k \<in> set (owners_of r (lk_wire_id l)). link_key l \<le> k)"
  have holders: "set (owners_of r i) = link_key ` {k \<in> L. lk_wire_id k = i}" if "1 \<le> i" for i
    using exact that by (simp add: reserved_exactly_def)
  have "\<not> ?kept"
  proof
    assume ?kept
    then have "pick_wire r l nodes = (Some (lk_wire_id l), r)" by (intro wires.pick_keeps assms(5)) simp_all
    with pick new show False by simp
  qed
  note low = wires.pick_lowest [OF wf assms(5) this pick]
  have "link_key ` {k \<in> L. lk_wire_id k = d} \<subseteq> {link_key l}"
    unfolding holders [OF conjunct1 [OF low], symmetric] using low by blast
  with inj l new show "\<forall>k \<in> L. lk_wire_id k \<noteq> d" by (auto dest: inj_onD)
  show "\<exists>k \<in> L. k \<noteq> l \<and> lk_wire_id k = j" if j: "1 \<le> j" "j < d"
  proof (rule ccontr)
    assume no_other: "\<not> ?thesis"
    have "set (owners_of r j) \<noteq> {}" using low j by simp
    then have "lk_wire_id l = j" using holders [OF j(1)] no_other by auto
    moreover have "set (owners_of r j) \<subseteq> {link_key l}" using holders [OF j(1)] no_other by auto
    ultimately show False using \<open>\<not> ?kept\<close> low j by auto
  qed
qed

section \<open>Properties\<close>

text \<open>
  For a link of the namespace, \<open>ResolveDesiredWireID\<close> answers 0 for a link that never touches
  the wire and otherwise an id in range that no link of smaller key holds; an id that the link did
  not hold before is held by no link and is the lowest such, every smaller one being held by
  another link. It fails only when every id in range is held.
\<close>

theorem ResolveDesiredWireID_correct:
  assumes "inj_on link_key (set links)" "l \<in> set links"
  shows "case ResolveDesiredWireID l links nodes of
      Inl e \<Rightarrow> (\<forall>j. 1 \<le> j \<and> j \<le> maxWireID \<longrightarrow> (\<exists>k \<in> set links. lk_wire_id k = j))
    | Inr d \<Rightarrow>
        if IsHostLink l \<or> IsSamePodLink l (NodesByName nodes) then d = 0
        else 1 \<le> d \<and> d \<le> maxWireID \<and>
          (\<forall>k \<in> set links. link_key k < link_key l \<longrightarrow> lk_wire_id k \<noteq> d) \<and>
          (d \<noteq> lk_wire_id l \<longrightarrow> (\<forall>k \<in> set links. lk_wire_id k \<noteq> d) \<and>
            (\<forall>j. 1 \<le> j \<and> j < d \<longrightarrow> (\<exists>k \<in> set links. k \<noteq> l \<and> lk_wire_id k = j)))"
proof (cases "desired (newWireReservations links) l (NodesByName nodes)")
  case (Pair res r')
  let ?r = "newWireReservations links" and ?n = "NodesByName nodes"
  note wf = owners_newWireReservations(2) [of links] and exact = reserved_newWireReservations [of links]
  show ?thesis
  proof (cases res)
    case (Inl e)
    then have "fst (pick_wire ?r l ?n) = None" by (simp add: pick_wire_def Pair)
    note full = wires.pick_exhausted [OF wf this]
    have "\<exists>k \<in> set links. lk_wire_id k = j" if j: "1 \<le> j" "j \<le> maxWireID" for j
    proof -
      have "set (owners_of ?r j) \<noteq> {}" using full j by blast
      with j owners_newWireReservations(1) [of j links] show ?thesis by auto
    qed
    with Inl show ?thesis by (simp add: ResolveDesiredWireID_def Pair)
  next
    case (Inr d)
    then have pick: "pick_wire ?r l ?n = (Some d, r')" by (simp add: pick_wire_Some Pair)
    show ?thesis
    proof (cases "wired ?n l")
      case True
      then show ?thesis
        using Inr wires.pick_range [OF wf pick] wires.pick_new_to_smaller [OF wf exact True pick]
          fresh_wire_lowest [OF exact assms wf True pick]
        by (simp add: ResolveDesiredWireID_def Pair wired_def)
    next
      case False
      with wires.pick_range [OF wf pick] Inr show ?thesis
        by (simp add: ResolveDesiredWireID_def Pair wired_def)
    qed
  qed
qed

definition sample_wired_links :: "link list" where
  "sample_wired_links =
     [sample_link ''l3'' ''a'' ''e3'' ''b'' ''e3'' 1,
      sample_link ''l1'' ''a'' ''e1'' ''b'' ''e1'' 1,
      sample_link ''l2'' ''a'' ''e2'' ''b'' ''e2'' 2]"

lemma sample_wired_links_inj: "inj_on link_key (set sample_wired_links)"
  by (simp add: sample_wired_links_def link_key_def sample_defs)

lemma sample_primary: "ResolvePrimaryNode (NodesByName []) n = n"
  by (rule ResolvePrimaryNode_root) (simp add: node_reference_def NodesByName_def)

theorem ResolveDesiredWireID_correct_witness:
  "\<exists>d. ResolveDesiredWireID (hd sample_wired_links) sample_wired_links [] = Inr d \<and> d \<noteq> 1 \<and> d \<noteq> 2 \<and> d \<le> 3"
proof -
  let ?l = "hd sample_wired_links" and ?L = "set sample_wired_links"
  have l: "?l \<in> ?L" by (simp add: sample_wired_links_def)
  have wired: "\<not> (IsHostLink ?l \<or> IsSamePodLink ?l (NodesByName []))"
    by (simp add: IsHostLink_def IsSamePodLink_def sample_primary sample_wired_links_def sample_defs
        LinkHostNodeName_def)
  have ids: "\<not> (\<exists>k \<in> ?L. lk_wire_id k = 3)" "\<exists>k \<in> ?L. link_key k < link_key ?l \<and> lk_wire_id k = 1"
    "\<exists>k \<in> ?L. lk_wire_id k = 2" "lk_wire_id ?l = 1" "3 \<le> maxWireID"
    by (simp_all add: sample_wired_links_def sample_defs link_key_def maxWireID_def)
  note correct = ResolveDesiredWireID_correct [OF sample_wired_links_inj l, of "[]"]
  show ?thesis
  proof (cases "ResolveDesiredWireID ?l sample_wired_links []")
    case (Inl e)
    with correct have "\<exists>k \<in> ?L. lk_wire_id k = 3" using ids(5) by simp
    with ids(1) show ?thesis by blast
  next
    case (Inr d)
    with correct wired have d: "\<forall>k \<in> ?L. link_key k < link_key ?l \<longrightarrow> lk_wire_id k \<noteq> d"
      "d \<noteq> 1 \<longrightarrow> (\<forall>k \<in> ?L. lk_wire_id k \<noteq> d) \<and>
        (\<forall>j. 1 \<le> j \<and> j < d \<longrightarrow> (\<exists>k \<in> ?L. k \<noteq> ?l \<and> lk_wire_id k = j))"
      by (simp_all add: ids(4))
    then have "d \<noteq> 1" using ids(2) by blast
    moreover have "d \<noteq> 2" using d ids(3) by auto
    moreover have "1 \<le> (3::int) \<and> 3 < d \<longrightarrow> (\<exists>k \<in> ?L. k \<noteq> ?l \<and> lk_wire_id k = 3)"
      using d(2) \<open>d \<noteq> 1\<close> by blast
    then have "\<not> 3 < d" using ids(1) by auto
    ultimately show ?thesis using Inr by simp
  qed
qed

text \<open>
  A link keeps the id it holds, whatever its endpoints have become, as long as the id is in
  range, the link still crosses the wire and no link of smaller key claims the same id.
\<close>

theorem ResolveDesiredWireID_retains:
  assumes "1 \<le> lk_wire_id l" "lk_wire_id l \<le> maxWireID"
    and "\<not> IsHostLink l" "\<not> IsSamePodLink l (NodesByName nodes)"
    and "\<forall>k \<in> set links. lk_wire_id k = lk_wire_id l \<longrightarrow> link_key l \<le> link_key k"
  shows "ResolveDesiredWireID l links nodes = Inr (lk_wire_id l)"
proof -
  have "\<forall>k \<in> set (owners_of (newWireReservations links) (lk_wire_id l)). link_key l \<le> k"
    using assms(1,5) by (auto simp: owners_newWireReservations(1))
  then have "pick_wire (newWireReservations links) l (NodesByName nodes) =
      (Some (lk_wire_id l), newWireReservations links)"
    using assms(1-4) by (intro wires.pick_keeps) (simp_all add: wired_def)
  then show ?thesis by (simp add: ResolveDesiredWireID_def pick_wire_Some)
qed

theorem ResolveDesiredWireID_retains_witness:
  "ResolveDesiredWireID (sample_link ''l1'' ''c'' ''e7'' ''d'' ''e7'' 1) sample_wired_links [] = Inr 1"
proof -
  let ?l = "sample_link ''l1'' ''c'' ''e7'' ''d'' ''e7'' 1"
  have "lk_wire_id ?l = 1" by (simp add: sample_defs)
  moreover have "\<not> IsHostLink ?l" "\<not> IsSamePodLink ?l (NodesByName [])"
    by (simp_all add: IsHostLink_def IsSamePodLink_def sample_primary sample_defs LinkHostNodeName_def)
  moreover have "\<forall>k \<in> set sample_wired_links. lk_wire_id k = lk_wire_id ?l \<longrightarrow> link_key ?l \<le> link_key k"
    by (simp add: sample_wired_links_def sample_defs link_key_def)
  ultimately show ?thesis
    using ResolveDesiredWireID_retains [of ?l "[]" sample_wired_links] by (simp add: maxWireID_def)
qed

end
