(* ===== verification/Link_Reconcile.thy ===== *)
theory Link_Reconcile
  imports Wire_Ids
begin

text \<open>
  The link controller's namespace pass (\<open>src/controllers/link/reconcile.go\<close>): lifecycle of endpoint
  bindings, acceptance conditions and wire id allocation, with the API calls the pass issues.
\<close>

section \<open>Definitions\<close>

text \<open>
  The API client and \<open>apimachinerymeta.SetStatusCondition\<close> are parameters. A call's answer may depend
  on the calls issued before it.
\<close>

datatype link_call =
    LinkDelete string string link
  | LinkStatusUpdate link

record link_api =
  la_delete :: "link_call list \<Rightarrow> link \<Rightarrow> api_error option"
  la_status_update :: "link_call list \<Rightarrow> link \<Rightarrow> api_error + link"
  la_set_condition :: "link_message condition list \<Rightarrow> link_message condition \<Rightarrow> link_message condition list"

datatype lifecycle_reason =
    BoundNodeDeleted string string string
  | BoundNodeReplaced string string string string

definition LinkConditionAccepted :: string where
  "LinkConditionAccepted = ''Accepted''"

definition resolvedEndpointIsComplete :: "link_resolved_endpoint \<Rightarrow> bool" where
  "resolvedEndpointIsComplete e \<longleftrightarrow> re_node_name e = LinkHostNodeName \<or> re_uid e \<noteq> ''''"

definition endpointBindingMatchesSpec :: "link \<Rightarrow> link_resolved_endpoints option \<Rightarrow> bool" where
  "endpointBindingMatchesSpec l resolved =
     (case resolved of
        None \<Rightarrow> False
      | Some r \<Rightarrow>
          if re_node_name (res_endpoint_a r) \<noteq> ep_node_name (lk_endpoint_a l) \<or>
             re_node_name (res_endpoint_b r) \<noteq> ep_node_name (lk_endpoint_b l)
          then False
          else resolvedEndpointIsComplete (res_endpoint_a r) \<and>
               resolvedEndpointIsComplete (res_endpoint_b r))"

definition resolvedEndpointLifecycleReason ::
    "string \<Rightarrow> link_resolved_endpoint \<Rightarrow> (string, node) gomap \<Rightarrow> lifecycle_reason option" where
  "resolvedEndpointLifecycleReason side e nodes =
     (if re_node_name e = LinkHostNodeName then None
      else case map_of nodes (re_node_name e) of
             None \<Rightarrow> Some (BoundNodeDeleted side (re_node_name e) (re_uid e))
           | Some n \<Rightarrow>
               if nd_uid n \<noteq> re_uid e
               then Some (BoundNodeReplaced side (re_node_name e) (re_uid e) (nd_uid n))
               else None)"

definition resolveEndpoint :: "string \<Rightarrow> (string, node) gomap \<Rightarrow> link_resolved_endpoint option" where
  "resolveEndpoint nodeName nodes =
     (if nodeName = LinkHostNodeName then Some \<lparr> re_node_name = nodeName, re_uid = '''' \<rparr>
      else case map_of nodes nodeName of
             None \<Rightarrow> None
           | Some n \<Rightarrow> if nd_uid n = '''' then None
                       else Some \<lparr> re_node_name = nodeName, re_uid = nd_uid n \<rparr>)"

definition fresh_binding :: "link \<Rightarrow> (string, node) gomap \<Rightarrow> link_resolved_endpoints option" where
  "fresh_binding l nodes =
     (case resolveEndpoint (ep_node_name (lk_endpoint_a l)) nodes of
        None \<Rightarrow> None
      | Some a \<Rightarrow>
          (case resolveEndpoint (ep_node_name (lk_endpoint_b l)) nodes of
             None \<Rightarrow> None
           | Some b \<Rightarrow> Some \<lparr> res_endpoint_a = a, res_endpoint_b = b \<rparr>))"

definition resolveLinkEndpoints ::
    "link \<Rightarrow> (string, node) gomap \<Rightarrow> link_resolved_endpoints option \<times> lifecycle_reason option" where
  "resolveLinkEndpoints l nodes =
     (case lst_resolved (lk_status l) of
        Some observed \<Rightarrow>
          if endpointBindingMatchesSpec l (Some observed)
          then case resolvedEndpointLifecycleReason ''endpoint A'' (res_endpoint_a observed) nodes of
                 Some reason \<Rightarrow> (None, Some reason)
               | None \<Rightarrow>
                   (case resolvedEndpointLifecycleReason ''endpoint B'' (res_endpoint_b observed) nodes of
                      Some reason \<Rightarrow> (None, Some reason)
                    | None \<Rightarrow> (Some observed, None))
          else (fresh_binding l nodes, None)
      | None \<Rightarrow> (fresh_binding l nodes, None))"

definition desiredLinkStatus :: "link_api \<Rightarrow> link \<Rightarrow> int \<Rightarrow> link_resolved_endpoints option
    \<Rightarrow> condition_status \<Rightarrow> string \<Rightarrow> link_message \<Rightarrow> link_status" where
  "desiredLinkStatus api l wireID resolvedEndpoints conditionStatus reason message =
     \<lparr> lst_wire_id = wireID, lst_resolved = resolvedEndpoints,
       lst_conditions = la_set_condition api (lst_conditions (lk_status l))
         \<lparr> cond_type = LinkConditionAccepted, cond_status = conditionStatus,
           cond_generation = meta_generation (lk_meta l), cond_transition = 0,
           cond_reason = reason, cond_message = message \<rparr> \<rparr>"

definition updateLinkStatus :: "link_api \<Rightarrow> link \<Rightarrow> link_status \<Rightarrow> link_call list
    \<Rightarrow> link_error option \<times> link \<times> link_call list" where
  "updateLinkStatus api l desiredStatus calls =
     (if lk_status l = desiredStatus then (None, l, calls)
      else let l = l\<lparr> lk_status := desiredStatus \<rparr>; calls' = calls @ [LinkStatusUpdate l] in
           case la_status_update api calls l of
             Inl e \<Rightarrow> (Some (LinkApiError e), l, calls')
           | Inr l' \<Rightarrow> (None, l', calls'))"

fun endpoint_message :: "link_error \<Rightarrow> link_message" where
  "endpoint_message (EndpointNodeMissing n) = MsgEndpointNodeMissing n"
| "endpoint_message _ = MsgOther ''''"

definition link_skipped :: "link \<Rightarrow> bool" where
  "link_skipped l \<longleftrightarrow> meta_deletion (lk_meta l) \<noteq> None \<or> ShouldIgnoreReconcile (lk_meta l)"

definition reconcileLink :: "link_api \<Rightarrow> (string, node) gomap \<Rightarrow> string \<Rightarrow> link \<Rightarrow> wireReservations
    \<Rightarrow> link_call list \<Rightarrow> link_error option \<times> link \<times> wireReservations \<times> link_call list" where
  "reconcileLink api nodesByName conflictingLink l reservations calls =
     (let stamp = (\<lambda>r wireID resolved st reason message.
        case updateLinkStatus api l (desiredLinkStatus api l wireID resolved st reason message) calls of
          (err, l', calls') \<Rightarrow> (err, l', r, calls'))
      in
      if link_skipped l then (None, l, reservations, calls)
      else case resolveLinkEndpoints l nodesByName of
        (resolvedEndpoints, Some reason) \<Rightarrow>
          let calls' = calls @ [LinkDelete (meta_uid (lk_meta l)) (meta_resource_version (lk_meta l)) l] in
          (case la_delete api calls l of
             None \<Rightarrow> (None, l, reservations, calls')
           | Some e \<Rightarrow> if e = NotFound then (None, l, reservations, calls')
                       else (Some (LinkApiError e), l, reservations, calls'))
      | (resolvedEndpoints, None) \<Rightarrow>
          (case ValidateLink l of
             Some err \<Rightarrow>
               stamp reservations 0 resolvedEndpoints ConditionFalse ''InvalidSpec'' (MsgInvalidSpec err)
           | None \<Rightarrow>
               (case ValidateLinkEndpoints l nodesByName of
                  Some err \<Rightarrow>
                    stamp reservations 0 resolvedEndpoints ConditionFalse ''EndpointsUnresolved''
                      (endpoint_message err)
                | None \<Rightarrow>
                    if conflictingLink \<noteq> ''''
                    then stamp reservations 0 resolvedEndpoints ConditionFalse ''EndpointConflict''
                      (MsgEndpointClaimed conflictingLink)
                    else (case desired reservations l nodesByName of
                            (Inl err, r) \<Rightarrow> (Some err, l, r, calls)
                          | (Inr desiredWireID, r) \<Rightarrow>
                              stamp r desiredWireID resolvedEndpoints ConditionTrue ''Accepted''
                                (if desiredWireID \<noteq> 0 then MsgWireAllocated desiredWireID
                                 else MsgAcceptedWithoutWire)))))"

fun reconcile_links :: "link_api \<Rightarrow> (string, node) gomap \<Rightarrow> (string, string) gomap \<Rightarrow> link list
    \<Rightarrow> wireReservations \<Rightarrow> link_call list \<Rightarrow> link_error option \<times> link list \<times> link_call list" where
  "reconcile_links api nodes conflicts [] reservations calls = (None, [], calls)"
| "reconcile_links api nodes conflicts (l # rest) reservations calls =
     (case reconcileLink api nodes (gm_str conflicts (lk_name l)) l reservations calls of
        (Some err, l', r, calls') \<Rightarrow> (Some err, l' # rest, calls')
      | (None, l', r, calls') \<Rightarrow>
          (case reconcile_links api nodes conflicts rest (record_wire r l' (lk_wire_id l)) calls' of
             (err, rest', calls'') \<Rightarrow> (err, l' # rest', calls'')))"

definition Reconcile_links_pass :: "link_api \<Rightarrow> api_error + link list \<Rightarrow> api_error + node list
    \<Rightarrow> link_error option \<times> link list \<times> link_call list" where
  "Reconcile_links_pass api listedLinks listedNodes =
     (case listedLinks of
        Inl e \<Rightarrow> (Some (LinkApiError e), [], [])
      | Inr links \<Rightarrow>
          if links = [] then (None, [], [])
          else case listedNodes of
            Inl e \<Rightarrow> (Some (LinkApiError e), links, [])
          | Inr nodeItems \<Rightarrow>
              let nodes = NodesByName nodeItems;
                  items = sort_key lk_name links;
                  conflicts = EndpointConflicts (LinksWithResolvedEndpoints items nodes)
              in reconcile_links api nodes conflicts items (newWireReservations items) [])"
section \<open>One link\<close>

text \<open>
  A successful status update returns the object with the status that was sent and a new resource
  version, everything else unchanged.
\<close>

definition same_link :: "link \<Rightarrow> link \<Rightarrow> bool" where
  "same_link l l' \<longleftrightarrow> lk_spec l' = lk_spec l \<and>
     lk_meta l' = (lk_meta l)\<lparr> meta_resource_version := meta_resource_version (lk_meta l') \<rparr>"

definition faithful_status_update :: "link_api \<Rightarrow> bool" where
  "faithful_status_update api \<longleftrightarrow>
     (\<forall>calls l l'. la_status_update api calls l = Inr l' \<longrightarrow> same_link l l' \<and> lk_status l' = lk_status l)"

lemma same_link_refl [simp]: "same_link l l"
  by (simp add: same_link_def)

lemma same_link_name:
  assumes "same_link l l'"
  shows "lk_name l' = lk_name l" "link_key l' = link_key l" "lk_spec l' = lk_spec l"
proof -
  from assms have m: "lk_meta l' = (lk_meta l)\<lparr> meta_resource_version := meta_resource_version (lk_meta l') \<rparr>"
    by (simp add: same_link_def)
  show "lk_name l' = lk_name l" "link_key l' = link_key l"
    by (subst m, simp) (simp only: link_key_def, subst (1 2) m, simp)
  show "lk_spec l' = lk_spec l" using assms by (simp add: same_link_def)
qed

lemma updateLinkStatus_ok:
  assumes "faithful_status_update api" "updateLinkStatus api l st calls = (None, l', calls')"
  shows "same_link l l' \<and> lk_status l' = st"
  using assms unfolding faithful_status_update_def updateLinkStatus_def same_link_def
  by (fastforce simp: Let_def split: if_splits sum.splits)

definition settled :: "(string, node) gomap \<Rightarrow> link \<Rightarrow> bool" where
  "settled nodes l \<longleftrightarrow> \<not> link_skipped l \<and> snd (resolveLinkEndpoints l nodes) = None"

definition link_rejection :: "(string, node) gomap \<Rightarrow> string \<Rightarrow> link \<Rightarrow> (string \<times> link_message) option" where
  "link_rejection nodes conflict l =
     (case ValidateLink l of
        Some err \<Rightarrow> Some (''InvalidSpec'', MsgInvalidSpec err)
      | None \<Rightarrow>
          (case ValidateLinkEndpoints l nodes of
             Some err \<Rightarrow> Some (''EndpointsUnresolved'', endpoint_message err)
           | None \<Rightarrow>
               if conflict \<noteq> '''' then Some (''EndpointConflict'', MsgEndpointClaimed conflict) else None))"

definition accepted_message :: "int \<Rightarrow> link_message" where
  "accepted_message wid = (if wid \<noteq> 0 then MsgWireAllocated wid else MsgAcceptedWithoutWire)"

text \<open>What the pass does to a link whose binding still stands.\<close>

lemma reconcileLink_settled:
  assumes "settled nodes l"
  shows "reconcileLink api nodes conflict l r calls =
    (let bound = fst (resolveLinkEndpoints l nodes);
         stamp = (\<lambda>r' st. case updateLinkStatus api l st calls of (err, l', calls') \<Rightarrow> (err, l', r', calls'))
     in case link_rejection nodes conflict l of
          Some (reason, message) \<Rightarrow> stamp r (desiredLinkStatus api l 0 bound ConditionFalse reason message)
        | None \<Rightarrow>
            (case desired r l nodes of
               (Inl err, r') \<Rightarrow> (Some err, l, r', calls)
             | (Inr wid, r') \<Rightarrow>
                 stamp r' (desiredLinkStatus api l wid bound ConditionTrue ''Accepted'' (accepted_message wid))))"
proof -
  obtain bound where bound: "resolveLinkEndpoints l nodes = (bound, None)" "\<not> link_skipped l"
    using assms by (metis prod.collapse settled_def)
  consider (invalid) e where "ValidateLink l = Some e"
    | (unresolved) e where "ValidateLink l = None" "ValidateLinkEndpoints l nodes = Some e"
    | (conflict) "ValidateLink l = None" "ValidateLinkEndpoints l nodes = None" "conflict \<noteq> ''''"
    | (free) "ValidateLink l = None" "ValidateLinkEndpoints l nodes = None" "conflict = ''''"
    by (metis option.exhaust)
  then show ?thesis unfolding accepted_message_def
    by cases (simp_all add: reconcileLink_def bound link_rejection_def)
qed

lemma reconcileLink_outcome:
  assumes "faithful_status_update api"
    and "reconcileLink api nodes conflict l r calls = (None, l', r', calls')"
  shows "same_link l l'"
    and "\<not> settled nodes l \<Longrightarrow> l' = l \<and> r' = r"
    and "settled nodes l \<Longrightarrow> link_rejection nodes conflict l = Some (reason, message) \<Longrightarrow>
      r' = r \<and> lk_status l' =
        desiredLinkStatus api l 0 (fst (resolveLinkEndpoints l nodes)) ConditionFalse reason message"
    and "settled nodes l \<Longrightarrow> link_rejection nodes conflict l = None \<Longrightarrow>
      \<exists>wid. pick_wire r l nodes = (Some wid, r') \<and> lk_status l' =
        desiredLinkStatus api l wid (fst (resolveLinkEndpoints l nodes)) ConditionTrue
          ''Accepted'' (accepted_message wid)"
  using assms(2) updateLinkStatus_ok [OF assms(1)]
  unfolding reconcileLink_def settled_def link_rejection_def pick_wire_Some accepted_message_def
  by (auto simp: Let_def desiredLinkStatus_def split: if_splits option.splits prod.splits sum.splits)

lemma desiredLinkStatus_simps [simp]:
  "lst_wire_id (desiredLinkStatus api l wid res st reason message) = wid"
  "lst_resolved (desiredLinkStatus api l wid res st reason message) = res"
  by (simp_all add: desiredLinkStatus_def)

lemma reconcileLink_resolved:
  assumes "faithful_status_update api" "settled nodes l"
    and "reconcileLink api nodes conflict l r calls = (None, l', r', calls')"
  shows "lst_resolved (lk_status l') = fst (resolveLinkEndpoints l nodes)"
  using reconcileLink_outcome(3,4) [OF assms(1,3,2)]
  by (cases "link_rejection nodes conflict l") auto

lemma reconcileLink_accepted:
  assumes "faithful_status_update api" "settled nodes l" "link_rejection nodes conflict l = None"
    and "reconcileLink api nodes conflict l r calls = (None, l', r', calls')"
  obtains wid where "lk_wire_id l' = wid" "pick_wire r l nodes = (Some wid, r')"
    "lk_status l' = desiredLinkStatus api l wid (fst (resolveLinkEndpoints l nodes)) ConditionTrue
       ''Accepted'' (accepted_message wid)"
  using reconcileLink_outcome(4) [OF assms(1,4,2,3)] that by auto

lemma reconcileLink_rejected:
  assumes "faithful_status_update api" "settled nodes l" "link_rejection nodes conflict l \<noteq> None"
    and "reconcileLink api nodes conflict l r calls = (None, l', r', calls')"
  shows "lk_wire_id l' = 0"
  using reconcileLink_outcome(3) [OF assms(1,4,2)] assms(3) by auto

section \<open>The pass\<close>

lemma key_order_of_names:
  assumes "lk_namespace l = lk_namespace k"
  shows "link_key l < link_key k \<longleftrightarrow> lk_name l < lk_name k"
proof -
  have "p @ x < p @ y \<longleftrightarrow> x < y" for p x y :: string
    by (induction p) auto
  then show ?thesis using assms by (simp add: link_key_def)
qed

text \<open>
  \<open>wires_separate nodes P ls ls'\<close>: the links \<open>ls\<close> end the pass as \<open>ls'\<close>, and each of them that the pass
  settled and gave an id differs in it from the links \<open>P\<close> and from all earlier ones.
\<close>

fun wires_separate :: "(string, node) gomap \<Rightarrow> link set \<Rightarrow> link list \<Rightarrow> link list \<Rightarrow> bool" where
  "wires_separate nodes P [] [] = True"
| "wires_separate nodes P (l # ls) (l' # ls') =
     (same_link l l' \<and>
      (settled nodes l \<and> 0 < lk_wire_id l' \<longrightarrow> (\<forall>k \<in> P. lk_wire_id k \<noteq> lk_wire_id l')) \<and>
      wires_separate nodes (insert l' P) ls ls')"
| "wires_separate nodes P _ _ = False"

lemma wires_separate_same: "wires_separate nodes P ls ls' \<Longrightarrow> list_all2 same_link ls ls'"
  by (induction nodes P ls ls' rule: wires_separate.induct) auto

lemma wires_separate_nth:
  assumes "wires_separate nodes P ls ls'" "j < length ls"
  shows "length ls' = length ls" "same_link (ls ! j) (ls' ! j)"
    and "settled nodes (ls ! j) \<Longrightarrow> 0 < lk_wire_id (ls' ! j) \<Longrightarrow>
      (\<forall>k \<in> P. lk_wire_id k \<noteq> lk_wire_id (ls' ! j)) \<and> (\<forall>i < j. lk_wire_id (ls' ! i) \<noteq> lk_wire_id (ls' ! j))"
proof -
  show "length ls' = length ls" "same_link (ls ! j) (ls' ! j)"
    using wires_separate_same [OF assms(1)] assms(2) by (auto simp: list_all2_conv_all_nth)
  show "(\<forall>k \<in> P. lk_wire_id k \<noteq> lk_wire_id (ls' ! j)) \<and> (\<forall>i < j. lk_wire_id (ls' ! i) \<noteq> lk_wire_id (ls' ! j))"
    if "settled nodes (ls ! j)" "0 < lk_wire_id (ls' ! j)"
    using assms that
  proof (induction nodes P ls ls' arbitrary: j rule: wires_separate.induct)
    case (2 nodes P l ls l' ls')
    show ?case
    proof (cases j)
      case (Suc m)
      with 2 have "(\<forall>k \<in> insert l' P. lk_wire_id k \<noteq> lk_wire_id (ls' ! m)) \<and>
        (\<forall>i < m. lk_wire_id (ls' ! i) \<noteq> lk_wire_id (ls' ! m))" by simp
      with Suc show ?thesis by (auto simp: less_Suc_eq_0_disj)
    qed (use 2 in auto)
  qed auto
qed

lemma reconcileLink_separate:
  assumes api: "faithful_status_update api"
    and step: "reconcileLink api nodes conflict l r calls = (None, l', r', calls')"
    and wf: "wires_wf r"
    and exact: "reserved_exactly link_key lk_wire_id (\<lambda>wid. set (owners_of r wid)) (insert l L)"
    and fresh: "\<forall>k \<in> L. link_key k \<noteq> link_key l"
  shows "wires_wf (record_wire r' l' (lk_wire_id l))"
    and "reserved_exactly link_key lk_wire_id
      (\<lambda>wid. set (owners_of (record_wire r' l' (lk_wire_id l)) wid)) (insert l' L)"
    and "settled nodes l \<Longrightarrow> 0 < lk_wire_id l' \<Longrightarrow> k \<in> L \<Longrightarrow> link_key k < link_key l \<Longrightarrow>
      lk_wire_id k \<noteq> lk_wire_id l'"
proof -
  note outcome = reconcileLink_outcome [OF api step]
  have r': "r' = r \<or> r' = snd (pick_wire r l nodes)"
    using outcome(2-) by (cases "link_rejection nodes conflict l"; cases "settled nodes l") auto
  then have "wires_wf r'" using wf wires.wf_pick [OF wf] by blast
  then show "wires_wf (record_wire r' l' (lk_wire_id l))" by (rule wires.wf_assign)
  have "(\<lambda>wid. set (owners_of r' wid)) = (\<lambda>wid. set (owners_of r wid))"
    using r' wires.own_pick by auto
  with exact have "reserved_exactly link_key lk_wire_id (\<lambda>wid. set (owners_of r' wid)) (insert l L)" by simp
  from wires.reserved_assign [OF this fresh same_link_name(2) [OF outcome(1)]]
  show "reserved_exactly link_key lk_wire_id
      (\<lambda>wid. set (owners_of (record_wire r' l' (lk_wire_id l)) wid)) (insert l' L)" .
  show "lk_wire_id k \<noteq> lk_wire_id l'"
    if *: "settled nodes l" "0 < lk_wire_id l'" "k \<in> L" "link_key k < link_key l"
  proof -
    from * reconcileLink_rejected [OF api *(1) _ step] have "link_rejection nodes conflict l = None"
      by (metis less_irrefl)
    from reconcileLink_accepted [OF api *(1) this step]
    have pick: "pick_wire r l nodes = (Some (lk_wire_id l'), r')" by metis
    with wires.pick_range [OF wf pick] * have "wired nodes l" by (simp split: if_splits)
    from wires.pick_new_to_smaller [OF wf exact this pick] * show ?thesis by blast
  qed
qed

lemma reconcile_links_separate:
  assumes "faithful_status_update api"
    and "reconcile_links api nodes conflicts ls r calls = (None, ls', calls')"
    and "wires_wf r"
    and "reserved_exactly link_key lk_wire_id (\<lambda>wid. set (owners_of r wid)) (P \<union> set ls)"
    and "sorted_wrt (<) (map link_key ls)" "\<forall>k \<in> P. \<forall>l \<in> set ls. link_key k < link_key l"
  shows "wires_separate nodes P ls ls'"
  using assms(2-)
proof (induction ls arbitrary: P r calls ls')
  case (Cons l rest)
  from Cons.prems(1) obtain l' r1 calls1 rest' where
    step: "reconcileLink api nodes (gm_str conflicts (lk_name l)) l r calls = (None, l', r1, calls1)" and
    more: "reconcile_links api nodes conflicts rest (record_wire r1 l' (lk_wire_id l)) calls1 = (None, rest', calls')"
    and ls': "ls' = l' # rest'"
    by (auto split: prod.splits option.splits)
  have exact: "reserved_exactly link_key lk_wire_id (\<lambda>wid. set (owners_of r wid)) (insert l (P \<union> set rest))"
    using Cons.prems(3) by (simp add: Un_insert_right)
  have fresh: "\<forall>k \<in> P \<union> set rest. link_key k \<noteq> link_key l" using Cons.prems(4,5) by fastforce
  note sep = reconcileLink_separate [OF assms(1) step Cons.prems(2) exact fresh]
  have same: "same_link l l'" by (rule reconcileLink_outcome [OF assms(1) step])
  have "wires_separate nodes (insert l' P) rest rest'"
    using sep(1,2) Cons.prems(4,5) same_link_name(2) [OF same]
    by (intro Cons.IH [OF more]) auto
  moreover have "\<forall>k \<in> P. lk_wire_id k \<noteq> lk_wire_id l'" if "settled nodes l" "0 < lk_wire_id l'"
    using sep(3) [OF that] Cons.prems(5) by auto
  ultimately show ?case using ls' same by simp
qed simp

section \<open>A second pass\<close>

lemma ValidateLink_same: "same_link l l' \<Longrightarrow> ValidateLink l' = ValidateLink l"
  by (simp add: ValidateLink_def same_link_def)

lemma ValidateLinkEndpoints_same: "same_link l l' \<Longrightarrow> ValidateLinkEndpoints l' nodes = ValidateLinkEndpoints l nodes"
  by (simp add: ValidateLinkEndpoints_def same_link_def)

lemma wired_same: "same_link l l' \<Longrightarrow> wired nodes l' = wired nodes l"
  by (simp add: wired_def IsHostLink_def IsSamePodLink_def same_link_def)

lemma link_skipped_same:
  assumes "same_link l l'"
  shows "link_skipped l' = link_skipped l" "meta_generation (lk_meta l') = meta_generation (lk_meta l)"
proof -
  from assms obtain rv where "lk_meta l' = (lk_meta l)\<lparr> meta_resource_version := rv \<rparr>"
    unfolding same_link_def by blast
  then show "link_skipped l' = link_skipped l" "meta_generation (lk_meta l') = meta_generation (lk_meta l)"
    by (simp_all add: link_skipped_def ShouldIgnoreReconcile_def)
qed

lemma link_rejection_same:
  assumes "same_link l l'"
  shows "link_rejection nodes c l' = link_rejection nodes c l"
  unfolding link_rejection_def ValidateLink_same [OF assms] ValidateLinkEndpoints_same [OF assms] ..

lemmas same_link_simps = ValidateLink_same ValidateLinkEndpoints_same wired_same link_skipped_same
  link_rejection_same

text \<open>A binding that was just resolved matches the spec and resolves to itself.\<close>

lemma resolveEndpoint_complete:
  assumes "resolveEndpoint n nodes = Some e"
  shows "re_node_name e = n \<and> resolvedEndpointIsComplete e \<and> resolvedEndpointLifecycleReason side e nodes = None"
proof (cases "n = LinkHostNodeName")
  case True
  with assms have "e = \<lparr> re_node_name = n, re_uid = '''' \<rparr>" by (simp add: resolveEndpoint_def)
  with True show ?thesis by (simp add: resolvedEndpointIsComplete_def resolvedEndpointLifecycleReason_def)
next
  case False
  with assms obtain nd where "map_of nodes n = Some nd" "nd_uid nd \<noteq> ''''"
    "e = \<lparr> re_node_name = n, re_uid = nd_uid nd \<rparr>"
    by (simp add: resolveEndpoint_def split: option.splits if_splits)
  with False show ?thesis by (simp add: resolvedEndpointIsComplete_def resolvedEndpointLifecycleReason_def)
qed

lemma resolveLinkEndpoints_stable:
  assumes "same_link l l'" "snd (resolveLinkEndpoints l nodes) = None"
    and "lst_resolved (lk_status l') = fst (resolveLinkEndpoints l nodes)"
  shows "resolveLinkEndpoints l' nodes = resolveLinkEndpoints l nodes"
proof -
  have spec: "lk_spec l' = lk_spec l" by (rule same_link_name [OF assms(1)])
  show ?thesis
  proof (cases "endpointBindingMatchesSpec l (lst_resolved (lk_status l))")
    case True
    then obtain b where b: "lst_resolved (lk_status l) = Some b"
      by (auto simp: endpointBindingMatchesSpec_def split: option.splits)
    then show ?thesis using True assms(2,3) spec
      by (auto simp: resolveLinkEndpoints_def endpointBindingMatchesSpec_def split: option.splits if_splits)
  next
    case False
    then have fresh: "resolveLinkEndpoints l nodes = (fresh_binding l nodes, None)"
      by (auto simp: resolveLinkEndpoints_def split: option.splits)
    show ?thesis
    proof (cases "fresh_binding l nodes")
      case None
      with fresh assms(3) have "resolveLinkEndpoints l' nodes = (fresh_binding l' nodes, None)"
        by (simp add: resolveLinkEndpoints_def)
      then show ?thesis unfolding fresh fresh_binding_def spec .
    next
      case (Some b)
      then have "resolveEndpoint (ep_node_name (lk_endpoint_a l)) nodes = Some (res_endpoint_a b)"
        "resolveEndpoint (ep_node_name (lk_endpoint_b l)) nodes = Some (res_endpoint_b b)"
        by (auto simp: fresh_binding_def split: option.splits)
      note complete = resolveEndpoint_complete [OF this(1)] resolveEndpoint_complete [OF this(2)]
      show ?thesis using Some fresh assms(3) spec complete
        by (simp add: resolveLinkEndpoints_def endpointBindingMatchesSpec_def)
    qed
  qed
qed

lemma settled_same:
  assumes "faithful_status_update api"
    and "reconcileLink api nodes conflict l r calls = (None, l', r', calls')"
  shows "settled nodes l' = settled nodes l"
proof (cases "settled nodes l")
  case True
  note outcome = reconcileLink_outcome [OF assms]
  note reconcileLink_resolved [OF assms(1) True assms(2)]
  with True resolveLinkEndpoints_stable [OF outcome(1)] link_skipped_same(1) [OF outcome(1)]
  show ?thesis by (simp add: settled_def)
qed (use reconcileLink_outcome(2) [OF assms] in simp)

text \<open>
  Setting a condition again with the same content changes nothing, whatever the clock says, since
  the transition time only moves with the status.
\<close>

definition condition_stable :: "link_api \<Rightarrow> link_api \<Rightarrow> bool" where
  "condition_stable api api' \<longleftrightarrow>
     (\<forall>cs c. la_set_condition api' (la_set_condition api cs c) c = la_set_condition api cs c)"

lemma desiredLinkStatus_stable:
  assumes "condition_stable api api'" "same_link l l'"
    and "lk_status l' = desiredLinkStatus api l wid res st reason message"
  shows "desiredLinkStatus api' l' wid res st reason message = lk_status l'"
  using assms link_skipped_same(2) [OF assms(2)]
  by (simp add: desiredLinkStatus_def condition_stable_def)

lemma reconcileLink_again:
  assumes api: "faithful_status_update api" "condition_stable api api'"
    and step: "reconcileLink api nodes conflict l r calls = (None, l', r', calls')"
    and wf: "wires_wf r" and done': "settled nodes l \<or> link_skipped l"
    and keep: "settled nodes l \<Longrightarrow> wired nodes l' \<Longrightarrow> 0 < lk_wire_id l' \<Longrightarrow> lk_wire_id l' \<le> maxWireID \<Longrightarrow>
      \<forall>k \<in> set (owners_of r2 (lk_wire_id l')). link_key l' \<le> k"
  shows "reconcileLink api' nodes conflict l' r2 calls2 = (None, l', r2, calls2)"
proof (cases "settled nodes l")
  case False
  with done' reconcileLink_outcome(2) [OF api(1) step] show ?thesis by (simp add: reconcileLink_def)
next
  case True
  note outcome = reconcileLink_outcome [OF api(1) step] and same = reconcileLink_outcome(1) [OF api(1) step]
  have settled': "settled nodes l'" using True settled_same [OF api(1) step] by simp
  have "resolveLinkEndpoints l' nodes = resolveLinkEndpoints l nodes"
    using resolveLinkEndpoints_stable [OF same] True reconcileLink_resolved [OF api(1) True step]
    by (simp add: settled_def)
  then have bind: "resolveLinkEndpoints l' nodes = (fst (resolveLinkEndpoints l nodes), None)"
    using True by (simp add: settled_def prod_eq_iff)
  show ?thesis
  proof (cases "link_rejection nodes conflict l'")
    case (Some rm)
    then obtain reason message where rm: "link_rejection nodes conflict l' = Some (reason, message)" by force
    then have "lk_status l' = desiredLinkStatus api l 0 (fst (resolveLinkEndpoints l nodes)) ConditionFalse reason message"
      using outcome(3) [OF True] link_rejection_same [OF same] by simp
    note st = desiredLinkStatus_stable [OF api(2) same this]
    show ?thesis using rm bind st by (simp add: reconcileLink_settled [OF settled'] updateLinkStatus_def)
  next
    case None
    then have "link_rejection nodes conflict l = None" using link_rejection_same [OF same] by simp
    from reconcileLink_accepted [OF api(1) True this step] obtain wid where
      wid: "lk_wire_id l' = wid" "pick_wire r l nodes = (Some wid, r')" and
      status: "lk_status l' = desiredLinkStatus api l wid (fst (resolveLinkEndpoints l nodes)) ConditionTrue
       ''Accepted'' (accepted_message wid)" .
    note st = desiredLinkStatus_stable [OF api(2) same status]
    have "pick_wire r2 l' nodes = (Some wid, r2)"
    proof (cases "wired nodes l'")
      case False
      then have "wid = 0" using wires.pick_range [OF wf wid(2)] wired_same [OF same] by simp
      with False show ?thesis by (simp add: wires.pick_unwired)
    next
      case w: True
      then have "1 \<le> wid" "wid \<le> maxWireID" using wires.pick_range [OF wf wid(2)] wired_same [OF same] by simp_all
      with keep [OF True w] wires.pick_keeps [OF w] wid(1) show ?thesis by auto
    qed
    then have "desired r2 l' nodes = (Inr wid, r2)" by (simp add: pick_wire_Some)
    with None bind st show ?thesis by (simp add: reconcileLink_settled [OF settled'] updateLinkStatus_def)
  qed
qed

lemma reconcileLink_wf:
  assumes "faithful_status_update api" "wires_wf r"
    and "reconcileLink api nodes conflict l r calls = (None, l', r', calls')"
  shows "wires_wf r'"
proof -
  note outcome = reconcileLink_outcome(2-4) [OF assms(1,3)]
  have "r' = r \<or> r' = snd (pick_wire r l nodes)"
    using outcome by (cases "link_rejection nodes conflict l"; cases "settled nodes l") auto
  then show ?thesis using assms(2) wires.wf_pick [OF assms(2)] by blast
qed

lemma reconcile_links_each:
  assumes "faithful_status_update api" "wires_wf r"
    and "reconcile_links api nodes conflicts ls r calls = (None, ls', calls')"
  shows "list_all2 (\<lambda>l l'. \<exists>r calls r' calls'. wires_wf r \<and>
    reconcileLink api nodes (gm_str conflicts (lk_name l)) l r calls = (None, l', r', calls')) ls ls'"
  using assms(2,3)
proof (induction ls arbitrary: r calls ls')
  case (Cons l rest)
  from Cons.prems(2) obtain l' r1 calls1 rest' where
    step: "reconcileLink api nodes (gm_str conflicts (lk_name l)) l r calls = (None, l', r1, calls1)" and
    more: "reconcile_links api nodes conflicts rest (record_wire r1 l' (lk_wire_id l)) calls1 = (None, rest', calls')"
    and ls': "ls' = l' # rest'"
    by (auto split: prod.splits option.splits)
  have "wires_wf (record_wire r1 l' (lk_wire_id l))"
    by (intro wires_wf_record reconcileLink_wf [OF assms(1) Cons.prems(1) step])
  from Cons.IH [OF this more] step Cons.prems(1) ls' show ?case by auto
qed simp

lemma endpoint_conflicts_loop_same:
  "list_all2 same_link ls ls' \<Longrightarrow>
     endpoint_conflicts_loop ls' claimed conflicts = endpoint_conflicts_loop ls claimed conflicts"
proof (induction ls ls' arbitrary: claimed conflicts rule: list_all2_induct)
  case (Cons l ls l' ls')
  have "conflictForClaimedEndpoints l' claimed = conflictForClaimedEndpoints l claimed"
    "claimLinkEndpoints l' claimed = claimLinkEndpoints l claimed"
    using same_link_name [OF Cons.hyps(1)]
    by (simp_all only: conflictForClaimedEndpoints_def claimLinkEndpoints_def)
  with Cons ValidateLink_same [OF Cons.hyps(1)] same_link_name(1) [OF Cons.hyps(1)] show ?case
    by (simp add: Let_def)
qed simp

lemma LinksWithResolvedEndpoints_same:
  "list_all2 same_link ls ls' \<Longrightarrow>
     list_all2 same_link (LinksWithResolvedEndpoints ls nodes) (LinksWithResolvedEndpoints ls' nodes)"
  unfolding LinksWithResolvedEndpoints_def
  by (induction rule: list_all2_induct) (auto simp: ValidateLinkEndpoints_same)

lemma list_all2_same_names: "list_all2 same_link ls ls' \<Longrightarrow> map lk_name ls' = map lk_name ls"
  by (induction rule: list_all2_induct) (auto simp: same_link_name)

lemma EndpointConflicts_same:
  assumes "list_all2 same_link ls ls'" "sorted (map lk_name ls)"
  shows "EndpointConflicts (LinksWithResolvedEndpoints ls' nodes) =
    EndpointConflicts (LinksWithResolvedEndpoints ls nodes)"
proof -
  have "sorted (map lk_name (LinksWithResolvedEndpoints ls nodes))"
    "sorted (map lk_name (LinksWithResolvedEndpoints ls' nodes))"
    using assms(2) list_all2_same_names [OF assms(1)]
    by (simp_all add: LinksWithResolvedEndpoints_def sorted_filter)
  then show ?thesis
    using endpoint_conflicts_loop_same [OF LinksWithResolvedEndpoints_same [OF assms(1)]]
    by (simp add: EndpointConflicts_def sort_key_id_if_sorted)
qed

lemma reconcile_links_fixpoint:
  assumes "\<forall>l \<in> set ls. \<forall>calls. reconcileLink api nodes (gm_str conflicts (lk_name l)) l r calls = (None, l, r, calls)"
  shows "reconcile_links api nodes conflicts ls r calls = (None, ls, calls)"
  using assms by (induction ls) (simp_all add: record_wire_def)

text \<open>The calls of a pass.\<close>

definition delete_call :: "link \<Rightarrow> link_call" where
  "delete_call l = LinkDelete (meta_uid (lk_meta l)) (meta_resource_version (lk_meta l)) l"

lemma updateLinkStatus_calls:
  "updateLinkStatus api l st calls = (err, l', calls') \<Longrightarrow>
     \<exists>new. calls' = calls @ new \<and> (\<forall>c \<in> set new. \<exists>u. c = LinkStatusUpdate u)"
  by (auto simp: updateLinkStatus_def Let_def split: if_splits sum.splits)

lemma reconcileLink_calls:
  assumes "reconcileLink api nodes conflict l r calls = (err, l', r', calls')"
  shows "\<exists>new. calls' = calls @ new \<and> (\<forall>c \<in> set new. (\<exists>u. c = LinkStatusUpdate u) \<or> c = delete_call l \<and> \<not> settled nodes l)
    \<and> (\<not> settled nodes l \<longrightarrow> new = (if link_skipped l then [] else [delete_call l]))"
proof (cases "settled nodes l")
  case True
  then show ?thesis
    using assms updateLinkStatus_calls [of api l _ calls]
    by (fastforce simp: reconcileLink_settled Let_def split: prod.splits option.splits sum.splits)
next
  case False
  then show ?thesis
    using assms by (auto simp: reconcileLink_def settled_def delete_call_def Let_def
        split: if_splits prod.splits option.splits)
qed

lemma reconcile_links_calls:
  assumes "reconcile_links api nodes conflicts ls r calls = (err, ls', calls')"
  shows "\<exists>new. calls' = calls @ new \<and>
    (\<forall>c \<in> set new. (\<exists>u. c = LinkStatusUpdate u) \<or>
       (\<exists>l \<in> set ls. c = delete_call l \<and> \<not> link_skipped l \<and> \<not> settled nodes l)) \<and>
    (err = None \<longrightarrow> (\<forall>l \<in> set ls. \<not> link_skipped l \<longrightarrow> \<not> settled nodes l \<longrightarrow> delete_call l \<in> set new))"
  using assms
proof (induction ls arbitrary: r calls ls')
  case (Cons l rest)
  obtain e1 l' r1 calls1 where
    step: "reconcileLink api nodes (gm_str conflicts (lk_name l)) l r calls = (e1, l', r1, calls1)"
    by (metis prod_cases4)
  from reconcileLink_calls [OF step] obtain new1 where new1: "calls1 = calls @ new1"
    "\<forall>c \<in> set new1. (\<exists>u. c = LinkStatusUpdate u) \<or> c = delete_call l \<and> \<not> settled nodes l"
    "\<not> settled nodes l \<longrightarrow> new1 = (if link_skipped l then [] else [delete_call l])" by blast
  show ?case
  proof (cases e1)
    case (Some e)
    then have "calls' = calls @ new1" "err \<noteq> None" using Cons.prems step new1(1) by auto
    then show ?thesis using new1(2,3) by (intro exI [of _ new1]) fastforce
  next
    case None
    then obtain rest' where
      more: "reconcile_links api nodes conflicts rest (record_wire r1 l' (lk_wire_id l)) calls1 = (err, rest', calls')"
      using Cons.prems step by (auto split: prod.splits)
    from Cons.IH [OF more] obtain new2 where new2: "calls' = calls1 @ new2"
      "\<forall>c \<in> set new2. (\<exists>u. c = LinkStatusUpdate u) \<or>
         (\<exists>l \<in> set rest. c = delete_call l \<and> \<not> link_skipped l \<and> \<not> settled nodes l)"
      "err = None \<longrightarrow> (\<forall>l \<in> set rest. \<not> link_skipped l \<longrightarrow> \<not> settled nodes l \<longrightarrow> delete_call l \<in> set new2)"
      by blast
    show ?thesis
      using new1 new2 by (intro exI [of _ "new1 @ new2"]) (fastforce split: if_splits)
  qed
qed simp

section \<open>Properties\<close>

definition namespace_links :: "link list \<Rightarrow> bool" where
  "namespace_links ls \<longleftrightarrow> links_wf ls \<and> (\<forall>l \<in> set ls. \<forall>k \<in> set ls. lk_namespace l = lk_namespace k)"

lemma namespace_names: "namespace_links ls \<Longrightarrow> distinct (map lk_name ls)"
  unfolding namespace_links_def links_wf_def by blast

lemma sorted_links:
  assumes "namespace_links ls"
  shows "sorted_wrt (<) (map link_key (sort_key lk_name ls))" "inj_on link_key (set ls)"
proof -
  let ?s = "sort_key lk_name ls"
  have names: "sorted_wrt (<) (map lk_name ?s)"
    by (intro sort_key_strict namespace_names [OF assms])
  have order: "link_key l < link_key k \<longleftrightarrow> lk_name l < lk_name k" if "l \<in> set ?s" "k \<in> set ?s" for l k
    using assms that unfolding namespace_links_def set_sort by (intro key_order_of_names) blast
  show "sorted_wrt (<) (map link_key ?s)"
    unfolding sorted_wrt_map
    by (rule sorted_wrt_mono_rel [OF _ names [unfolded sorted_wrt_map]]) (simp only: order)
  show "inj_on link_key (set ls)"
  proof (rule inj_onI)
    fix l k
    assume lk: "l \<in> set ls" "k \<in> set ls" "link_key l = link_key k"
    then have "lk_namespace l = lk_namespace k" using assms unfolding namespace_links_def by blast
    with lk(3) have "lk_name l = lk_name k" by (simp add: link_key_def)
    moreover have "inj_on lk_name (set ls)" using namespace_names [OF assms] by (simp add: distinct_map)
    ultimately show "l = k" using lk by (auto dest: inj_onD)
  qed
qed

lemma pass_separate:
  assumes "faithful_status_update api" "namespace_links links"
    and "Reconcile_links_pass api (Inr links) (Inr nodeItems) = (None, links', calls)"
  shows "wires_separate (NodesByName nodeItems) {} (sort_key lk_name links) links'"
proof (cases "links = []")
  case True
  with assms(3) show ?thesis by (simp add: Reconcile_links_pass_def)
next
  case False
  let ?s = "sort_key lk_name links" and ?nodes = "NodesByName nodeItems"
  from False assms(3) have run: "reconcile_links api ?nodes
      (EndpointConflicts (LinksWithResolvedEndpoints ?s ?nodes)) ?s (newWireReservations ?s) [] = (None, links', calls)"
    by (simp add: Reconcile_links_pass_def Let_def)
  show ?thesis
    by (rule reconcile_links_separate [OF assms(1) run owners_newWireReservations(2)])
      (simp_all only: Un_empty_left reserved_newWireReservations sorted_links(1) [OF assms(2)], simp)
qed

lemma pass_each:
  assumes "faithful_status_update api"
    and "Reconcile_links_pass api (Inr links) (Inr nodeItems) = (None, links', calls)"
    and "nodes = NodesByName nodeItems" "s = sort_key lk_name links"
    and "conflicts = EndpointConflicts (LinksWithResolvedEndpoints s nodes)"
  shows "list_all2 (\<lambda>l l'. \<exists>r calls r' calls'. wires_wf r \<and>
    reconcileLink api nodes (gm_str conflicts (lk_name l)) l r calls = (None, l', r', calls')) s links'"
proof (cases "links = []")
  case True
  with assms show ?thesis by (simp add: Reconcile_links_pass_def)
next
  case False
  with assms(2) have "reconcile_links api nodes conflicts s (newWireReservations s) [] = (None, links', calls)"
    by (simp add: Reconcile_links_pass_def Let_def assms(3-5))
  then show ?thesis by (rule reconcile_links_each [OF assms(1) owners_newWireReservations(2)])
qed

lemma list_all2_mem:
  assumes "list_all2 R xs ys" "y \<in> set ys"
  obtains x where "x \<in> set xs" "R x y"
  using assms by (induction rule: list_all2_induct) auto


definition sample_api :: link_api where
  "sample_api = \<lparr> la_delete = (\<lambda>_ _. None), la_status_update = (\<lambda>_ l. Inr l),
     la_set_condition = (\<lambda>cs c. filter (\<lambda>d. cond_type d \<noteq> cond_type c) cs @ [c]) \<rparr>"

definition sample_nodes :: "node list" where
  "sample_nodes = [sample_node ''a'' '''', sample_node ''b'' '''']"

definition sample_pass :: "link_error option \<times> link list \<times> link_call list" where
  "sample_pass = Reconcile_links_pass sample_api (Inr sample_wired_links) (Inr sample_nodes)"

lemma sample_api_faithful: "faithful_status_update sample_api"
  by (simp add: faithful_status_update_def sample_api_def)

lemma sample_wired_namespace: "namespace_links sample_wired_links"
  by (simp add: namespace_links_def links_wf_def sample_wired_links_def sample_defs)

lemma sample_pass_ok: "sample_pass = (None, fst (snd sample_pass), snd (snd sample_pass))"
proof -
  have "fst sample_pass = None" by code_simp
  then show ?thesis by (metis prod.collapse)
qed


text \<open>
  After a successful pass a link that the pass processed holds a wire id exactly when its spec
  is valid, its endpoint nodes exist, no other link owns one of its interfaces and it crosses
  between pods; the id is then in range. Every other processed link holds none.
\<close>

theorem Reconcile_wire_iff_accepted:
  assumes "faithful_status_update api"
    and "Reconcile_links_pass api (Inr links) (Inr nodeItems) = (None, links', calls)"
    and "l' \<in> set links'" "nodes = NodesByName nodeItems" "settled nodes l'"
    and "conflicts = EndpointConflicts (LinksWithResolvedEndpoints (sort_key lk_name links) nodes)"
  shows "0 \<le> lk_wire_id l' \<and> lk_wire_id l' \<le> maxWireID \<and>
    (lk_wire_id l' \<noteq> 0 \<longleftrightarrow>
       ValidateLink l' = None \<and> ValidateLinkEndpoints l' nodes = None \<and>
       gm_str conflicts (lk_name l') = '''' \<and> \<not> IsHostLink l' \<and> \<not> IsSamePodLink l' nodes)"
proof -
  obtain l where "\<exists>r calls r' calls'. wires_wf r \<and>
    reconcileLink api nodes (gm_str conflicts (lk_name l)) l r calls = (None, l', r', calls')"
    by (rule list_all2_mem [OF pass_each [OF assms(1,2,4) refl assms(6)] assms(3)])
  then obtain r calls r' calls' where wf: "wires_wf r" and
    step: "reconcileLink api nodes (gm_str conflicts (lk_name l)) l r calls = (None, l', r', calls')" by blast
  have same: "same_link l l'" by (rule reconcileLink_outcome [OF assms(1) step])
  have settled: "settled nodes l" using assms(5) settled_same [OF assms(1) step] by simp
  let ?c = "gm_str conflicts (lk_name l)"
  have free: "link_rejection nodes ?c l = None \<longleftrightarrow>
    ValidateLink l' = None \<and> ValidateLinkEndpoints l' nodes = None \<and> gm_str conflicts (lk_name l') = ''''"
    unfolding link_rejection_def ValidateLink_same [OF same] ValidateLinkEndpoints_same [OF same]
      same_link_name(1) [OF same] by (simp split: option.split)
  have wired: "wired nodes l \<longleftrightarrow> \<not> IsHostLink l' \<and> \<not> IsSamePodLink l' nodes"
    using wired_same [OF same] by (simp add: wired_def)
  show ?thesis
  proof (cases "link_rejection nodes ?c l = None")
    case True
    then obtain wid where wid: "lk_wire_id l' = wid" "pick_wire r l nodes = (Some wid, r')"
      by (rule reconcileLink_accepted [OF assms(1) settled _ step])
    from wires.pick_range [OF wf wid(2)] show ?thesis
      using wid(1) True free wired by (auto simp: maxWireID_def split: if_splits)
  next
    case False
    with reconcileLink_rejected [OF assms(1) settled _ step] free show ?thesis by (auto simp: maxWireID_def)
  qed
qed

theorem Reconcile_wire_iff_accepted_witness:
  "lk_wire_id (fst (snd sample_pass) ! 0) \<noteq> 0"
proof -
  let ?l = "fst (snd sample_pass) ! 0" and ?n = "NodesByName sample_nodes"
  have facts: "?l \<in> set (fst (snd sample_pass))" "settled ?n ?l" by code_simp+
  have cond: "ValidateLink ?l = None" "ValidateLinkEndpoints ?l ?n = None" "\<not> IsHostLink ?l"
    "\<not> IsSamePodLink ?l ?n"
    "gm_str (EndpointConflicts (LinksWithResolvedEndpoints (sort_key lk_name sample_wired_links) ?n)) (lk_name ?l) = ''''"
    by code_simp+
  show ?thesis
    using Reconcile_wire_iff_accepted [OF sample_api_faithful sample_pass_ok [unfolded sample_pass_def]
        facts(1) [unfolded sample_pass_def] refl facts(2) [unfolded sample_pass_def] refl] cond
    by (simp add: sample_pass_def)
qed



text \<open>
  C12: Whatever the API answers, the pass deletes a link only when the link is neither terminating
  nor ignored and its stored binding, which still names the endpoints of its spec, is bound to a
  node that is gone or has another UID; the call is guarded by the link's UID and resource version.
\<close>

theorem Reconcile_deletes_only_unbound:
  assumes "Reconcile_links_pass api (Inr links) (Inr nodeItems) = (err, links', calls)"
    and "LinkDelete u v l \<in> set calls"
  shows "l \<in> set links \<and> \<not> link_skipped l \<and> u = meta_uid (lk_meta l) \<and> v = meta_resource_version (lk_meta l) \<and>
    (\<exists>b. lst_resolved (lk_status l) = Some b \<and> endpointBindingMatchesSpec l (Some b) \<and>
       (\<exists>e \<in> {res_endpoint_a b, res_endpoint_b b}. re_node_name e \<noteq> LinkHostNodeName \<and>
          (case map_of (NodesByName nodeItems) (re_node_name e) of
             None \<Rightarrow> True | Some n \<Rightarrow> nd_uid n \<noteq> re_uid e)))"
proof -
  let ?s = "sort_key lk_name links" and ?nodes = "NodesByName nodeItems"
  have "links \<noteq> []" using assms by (auto simp: Reconcile_links_pass_def)
  then have run: "reconcile_links api ?nodes (EndpointConflicts (LinksWithResolvedEndpoints ?s ?nodes)) ?s
      (newWireReservations ?s) [] = (err, links', calls)"
    using assms(1) by (simp add: Reconcile_links_pass_def Let_def)
  from reconcile_links_calls [OF run] assms(2)
  have l: "l \<in> set links" "LinkDelete u v l = delete_call l" "\<not> link_skipped l" "\<not> settled ?nodes l"
    by (auto simp: delete_call_def)
  then have "snd (resolveLinkEndpoints l ?nodes) \<noteq> None" by (simp add: settled_def)
  then show ?thesis
    using l(1-3) unfolding resolveLinkEndpoints_def delete_call_def resolvedEndpointLifecycleReason_def
    by (auto split: option.splits if_splits)
qed

definition sample_bound_link :: link where
  "sample_bound_link =
     (let l = sample_link ''l1'' ''a'' ''e1'' ''gone'' ''e1'' 1 in
      l\<lparr> lk_status := (lk_status l)\<lparr> lst_resolved := Some
        \<lparr> res_endpoint_a = \<lparr> re_node_name = ''a'', re_uid = ''uid-a'' \<rparr>,
          res_endpoint_b = \<lparr> re_node_name = ''gone'', re_uid = ''uid-gone'' \<rparr> \<rparr> \<rparr> \<rparr>)"

theorem Reconcile_deletes_only_unbound_witness:
  "\<exists>b. lst_resolved (lk_status sample_bound_link) = Some b \<and> endpointBindingMatchesSpec sample_bound_link (Some b)"
proof -
  let ?run = "Reconcile_links_pass sample_api (Inr [sample_bound_link]) (Inr sample_nodes)"
  have "snd (snd ?run) = [LinkDelete ''uid-l1'' ''1'' sample_bound_link]" by code_simp
  then have "LinkDelete ''uid-l1'' ''1'' sample_bound_link \<in> set (snd (snd ?run))" by simp
  moreover have "?run = (fst ?run, fst (snd ?run), snd (snd ?run))" by simp
  ultimately show ?thesis using Reconcile_deletes_only_unbound by blast
qed

end
