(* ===== verification/Fabric_Codec.thy ===== *)
theory Fabric_Codec
  imports Prelude
begin

text \<open>
  The datagram format of the fabric wire (\<open>src/internal/directruntime/wire.go\<close>): big-endian integers,
  the common header, data fragments, link-state and heartbeat messages, and the slicing of a frame
  into fragments.
\<close>

unbundle bit_operations_syntax

section \<open>Definitions\<close>

type_synonym byte = "8 word"

definition fabricWireVersion :: byte where "fabricWireVersion = 1"
definition fabricWireMsgData :: byte where "fabricWireMsgData = 1"
definition fabricWireMsgLinkState :: byte where "fabricWireMsgLinkState = 2"
definition fabricWireMsgHeartbeat :: byte where "fabricWireMsgHeartbeat = 3"
definition fabricWireHeaderSize :: nat where "fabricWireHeaderSize = 10"
definition fabricWireDataHeaderSize :: nat where "fabricWireDataHeaderSize = 12"
definition fabricWireLinkStateEntrySize :: nat where "fabricWireLinkStateEntrySize = 5"
definition fabricWireTransportOverhead :: int where
  "fabricWireTransportOverhead = 28 + int fabricWireHeaderSize + int fabricWireDataHeaderSize"
definition fabricWireMinimumFragmentPayload :: int where "fabricWireMinimumFragmentPayload = 1200"
definition fabricWireMaximumFrameSize :: nat where "fabricWireMaximumFrameSize = 2 ^ 16 - 1"
definition fabricWireMaximumFragments :: nat where "fabricWireMaximumFragments = 2 ^ 8 - 1"

datatype wire_error =
    ShortHeader
  | UnknownVersion
  | ShortDataHeader
  | InconsistentGeometry
  | MalformedLinkState
  | PayloadSizeNotPositive
  | FrameSize nat
  | FrameNeedsFragments nat

record fabricWireHeader =
  wh_version :: byte
  wh_msg_type :: byte
  wh_generation :: "64 word"

record fabricWireDataHeader =
  wd_link_id :: "32 word"
  wd_frame_id :: "32 word"
  wd_frag_index :: byte
  wd_frag_count :: byte
  wd_total_length :: "16 word"

record fabricWireLinkState =
  wls_link_id :: "32 word"
  wls_oper_up :: bool

text \<open>\<open>binary.BigEndian\<close>, on the bytes it reads and writes.\<close>

definition put_uint16 :: "16 word \<Rightarrow> byte list" where
  "put_uint16 v = [ucast (drop_bit 8 v), ucast v]"

definition get_uint16 :: "byte list \<Rightarrow> 16 word" where
  "get_uint16 b = ucast (b ! 1) OR push_bit 8 (ucast (b ! 0))"

definition put_uint32 :: "32 word \<Rightarrow> byte list" where
  "put_uint32 v = [ucast (drop_bit 24 v), ucast (drop_bit 16 v), ucast (drop_bit 8 v), ucast v]"

definition get_uint32 :: "byte list \<Rightarrow> 32 word" where
  "get_uint32 b = ucast (b ! 3) OR push_bit 8 (ucast (b ! 2)) OR push_bit 16 (ucast (b ! 1)) OR
     push_bit 24 (ucast (b ! 0))"

definition put_uint64 :: "64 word \<Rightarrow> byte list" where
  "put_uint64 v = [ucast (drop_bit 56 v), ucast (drop_bit 48 v), ucast (drop_bit 40 v),
     ucast (drop_bit 32 v), ucast (drop_bit 24 v), ucast (drop_bit 16 v), ucast (drop_bit 8 v), ucast v]"

definition get_uint64 :: "byte list \<Rightarrow> 64 word" where
  "get_uint64 b = ucast (b ! 7) OR push_bit 8 (ucast (b ! 6)) OR push_bit 16 (ucast (b ! 5)) OR
     push_bit 24 (ucast (b ! 4)) OR push_bit 32 (ucast (b ! 3)) OR push_bit 40 (ucast (b ! 2)) OR
     push_bit 48 (ucast (b ! 1)) OR push_bit 56 (ucast (b ! 0))"

text \<open>The header bytes that \<open>putFabricWireHeader\<close> writes at the start of a datagram.\<close>

definition putFabricWireHeader :: "byte \<Rightarrow> 64 word \<Rightarrow> byte list" where
  "putFabricWireHeader msgType generation = [fabricWireVersion, msgType] @ put_uint64 generation"

definition parseFabricWireHeader :: "byte list \<Rightarrow> wire_error + fabricWireHeader \<times> byte list" where
  "parseFabricWireHeader datagram =
     (if length datagram < fabricWireHeaderSize then Inl ShortHeader
      else let header = \<lparr> wh_version = datagram ! 0, wh_msg_type = datagram ! 1,
                          wh_generation = get_uint64 (drop 2 datagram) \<rparr>
           in if wh_version header \<noteq> fabricWireVersion then Inl UnknownVersion
              else Inr (header, drop fabricWireHeaderSize datagram))"

definition put_data_header :: "fabricWireDataHeader \<Rightarrow> byte list" where
  "put_data_header h = put_uint32 (wd_link_id h) @ put_uint32 (wd_frame_id h) @
     [wd_frag_index h, wd_frag_count h] @ put_uint16 (wd_total_length h)"

definition encodeFabricWireFragment :: "64 word \<Rightarrow> fabricWireDataHeader \<Rightarrow> byte list \<Rightarrow> byte list" where
  "encodeFabricWireFragment generation header payload =
     putFabricWireHeader fabricWireMsgData generation @ put_data_header header @ payload"

definition get_data_header :: "byte list \<Rightarrow> fabricWireDataHeader" where
  "get_data_header body = \<lparr> wd_link_id = get_uint32 body, wd_frame_id = get_uint32 (drop 4 body),
     wd_frag_index = body ! 8, wd_frag_count = body ! 9, wd_total_length = get_uint16 (drop 10 body) \<rparr>"

definition parseFabricWireDataHeader :: "byte list \<Rightarrow> wire_error + fabricWireDataHeader \<times> byte list" where
  "parseFabricWireDataHeader body =
     (if length body < fabricWireDataHeaderSize then Inl ShortDataHeader
      else let header = get_data_header body; payload = drop fabricWireDataHeaderSize body
           in if wd_frag_count header = 0 \<or> wd_frag_index header \<ge> wd_frag_count header \<or>
                 length payload = 0 \<or> unat (wd_total_length header) < length payload
              then Inl InconsistentGeometry
              else Inr (header, payload))"

definition put_link_state :: "fabricWireLinkState \<Rightarrow> byte list" where
  "put_link_state s = put_uint32 (wls_link_id s) @ [if wls_oper_up s then 1 else 0]"

definition get_link_state :: "byte list \<Rightarrow> fabricWireLinkState" where
  "get_link_state b = \<lparr> wls_link_id = get_uint32 b, wls_oper_up = (b ! 4 = 1) \<rparr>"

definition encodeFabricWireLinkStates :: "64 word \<Rightarrow> fabricWireLinkState list \<Rightarrow> byte list" where
  "encodeFabricWireLinkStates generation states =
     putFabricWireHeader fabricWireMsgLinkState generation @ concat (map put_link_state states)"

text \<open>
  \<open>chunks k xs\<close> are the slices \<open>xs[o : min(o+k, len xs)]\<close> for the offsets \<open>o = 0, k, 2k, \<dots>\<close> below the
  length: the stride loops of the link-state parser and of the frame splitter.
\<close>

function chunks :: "nat \<Rightarrow> 'a list \<Rightarrow> 'a list list" where
  "chunks k xs = (if k = 0 \<or> xs = [] then [] else take k xs # chunks k (drop k xs))"
  by pat_completeness auto
termination
  by (relation "measure (\<lambda>(k, xs). length xs)") auto

declare chunks.simps [simp del]

definition parseFabricWireLinkStates :: "byte list \<Rightarrow> wire_error + fabricWireLinkState list" where
  "parseFabricWireLinkStates body =
     (if length body = 0 \<or> length body mod fabricWireLinkStateEntrySize \<noteq> 0 then Inl MalformedLinkState
      else Inr (map get_link_state (chunks fabricWireLinkStateEntrySize body)))"

definition encodeFabricWireHeartbeat :: "64 word \<Rightarrow> byte list" where
  "encodeFabricWireHeartbeat generation = putFabricWireHeader fabricWireMsgHeartbeat generation"

definition splitFabricWireFrame :: "byte list \<Rightarrow> int \<Rightarrow> wire_error + byte list list" where
  "splitFabricWireFrame frame payloadSize =
     (if payloadSize < 1 then Inl PayloadSizeNotPositive
      else if length frame = 0 \<or> length frame > fabricWireMaximumFrameSize
      then Inl (FrameSize (length frame))
      else let count = (length frame + nat payloadSize - 1) div nat payloadSize
           in if count > fabricWireMaximumFragments then Inl (FrameNeedsFragments count)
              else Inr (chunks (nat payloadSize) frame))"

definition fabricWireFragmentPayload :: "int \<Rightarrow> int" where
  "fabricWireFragmentPayload underlayMTU =
     (let payload = underlayMTU - fabricWireTransportOverhead in
      if payload < fabricWireMinimumFragmentPayload then fabricWireMinimumFragmentPayload else payload)"

section \<open>Fixed-width fields\<close>

text \<open>
  A field of fixed width: what is written has the width, and reading a buffer that starts with it
  gives the value back. Sequences of fields read back entry by entry.
\<close>

locale fixed_codec =
  fixes put :: "'a \<Rightarrow> byte list" and get :: "byte list \<Rightarrow> 'a" and width :: nat
  assumes length_put [simp]: "length (put x) = width"
    and get_put [simp]: "get (put x @ rest) = x"
    and width_pos: "0 < width"
begin

lemma get_put_only: "get (put x) = x"
  using get_put [of x "[]"] by simp

lemma put_inject: "put x = put y \<longleftrightarrow> x = y"
  by (metis get_put_only)

lemma length_put_all: "length (concat (map put xs)) = length xs * width"
  by (induction xs) simp_all

lemma get_chunks: "map get (chunks width (concat (map put xs))) = xs"
proof (induction xs)
  case (Cons x xs)
  have "put x \<noteq> []" using width_pos length_put [of x] by (metis length_0_conv less_irrefl)
  with Cons width_pos show ?case by (subst chunks.simps) (simp add: get_put_only)
qed (simp add: chunks.simps)

end

text \<open>A byte taken out of a word at offset \<open>k\<close> and put back there has the word's bits of that range.\<close>

lemma bit_byte_at:
  fixes v :: "'a::len word"
  shows "bit (push_bit k (ucast (ucast (drop_bit k v) :: byte) :: 'a word)) n \<longleftrightarrow> k \<le> n \<and> n < k + 8 \<and> bit v n"
  by (auto simp: bit_simps dest: bit_imp_le_length)

lemma bit_byte_low:
  fixes v :: "'a::len word"
  shows "bit (ucast (ucast v :: byte) :: 'a word) n \<longleftrightarrow> n < 8 \<and> bit v n"
  by (auto simp: bit_simps dest: bit_imp_le_length)

lemmas bit_bytes = bit_byte_at bit_byte_low bit_or_iff

lemma uint16_roundtrip: "get_uint16 (put_uint16 v @ rest) = v"
proof (rule bit_word_eqI)
  fix n
  assume "n < LENGTH(16)"
  then have "n < 8 \<or> 8 \<le> n \<and> n < 8 + 8" by simp linarith
  then show "bit (get_uint16 (put_uint16 v @ rest)) n = bit v n"
    by (auto simp: get_uint16_def put_uint16_def bit_bytes)
qed

lemma uint32_roundtrip: "get_uint32 (put_uint32 v @ rest) = v"
proof (rule bit_word_eqI)
  fix n
  assume "n < LENGTH(32)"
  then have "n < 8 \<or> 8 \<le> n \<and> n < 8 + 8 \<or> 16 \<le> n \<and> n < 16 + 8 \<or> 24 \<le> n \<and> n < 24 + 8" by simp linarith
  then show "bit (get_uint32 (put_uint32 v @ rest)) n = bit v n"
    by (simp add: get_uint32_def put_uint32_def bit_bytes) blast
qed

lemma uint64_roundtrip: "get_uint64 (put_uint64 v @ rest) = v"
proof (rule bit_word_eqI)
  fix n
  assume "n < LENGTH(64)"
  then have "n < 8 \<or> 8 \<le> n \<and> n < 8 + 8 \<or> 16 \<le> n \<and> n < 16 + 8 \<or> 24 \<le> n \<and> n < 24 + 8 \<or>
    32 \<le> n \<and> n < 32 + 8 \<or> 40 \<le> n \<and> n < 40 + 8 \<or> 48 \<le> n \<and> n < 48 + 8 \<or> 56 \<le> n \<and> n < 56 + 8"
    by simp linarith
  then show "bit (get_uint64 (put_uint64 v @ rest)) n = bit v n"
    by (simp add: get_uint64_def put_uint64_def bit_bytes) blast
qed

interpretation u16: fixed_codec put_uint16 get_uint16 2
  by unfold_locales (simp_all add: uint16_roundtrip, simp add: put_uint16_def)

interpretation u32: fixed_codec put_uint32 get_uint32 4
  by unfold_locales (simp_all add: uint32_roundtrip, simp add: put_uint32_def)

interpretation u64: fixed_codec put_uint64 get_uint64 8
  by unfold_locales (simp_all add: uint64_roundtrip, simp add: put_uint64_def)

lemma get_data_header_put: "get_data_header (put_data_header h @ rest) = h"
  by (simp add: get_data_header_def put_data_header_def nth_append drop_append)

interpretation data_header: fixed_codec put_data_header get_data_header fabricWireDataHeaderSize
  by unfold_locales (simp_all add: get_data_header_put, simp_all add: put_data_header_def fabricWireDataHeaderSize_def)

lemma get_link_state_put: "get_link_state (put_link_state s @ rest) = s"
  by (simp add: get_link_state_def put_link_state_def nth_append)

interpretation link_state: fixed_codec put_link_state get_link_state fabricWireLinkStateEntrySize
  by unfold_locales (simp_all add: get_link_state_put, simp_all add: put_link_state_def fabricWireLinkStateEntrySize_def)

section \<open>Slicing\<close>

lemma chunks_Nil: "chunks k [] = []"
  by (simp add: chunks.simps)

lemma chunks_Cons: "0 < k \<Longrightarrow> chunks k (x # xs) = take k (x # xs) # chunks k (drop k (x # xs))"
  by (subst chunks.simps) simp

lemma concat_chunks: "0 < k \<Longrightarrow> concat (chunks k xs) = xs"
proof (induction k xs rule: chunks.induct)
  case (1 k xs)
  then show ?case by (subst chunks.simps) (cases "xs = []"; simp)
qed

lemma chunk_lengths: "c \<in> set (chunks k xs) \<Longrightarrow> 0 < length c \<and> length c \<le> k"
proof (induction k xs rule: chunks.induct)
  case (1 k xs)
  then show ?case by (subst (asm) (2) chunks.simps) (auto split: if_splits)
qed

lemma length_chunks: "0 < k \<Longrightarrow> length (chunks k xs) = (length xs + k - 1) div k"
proof (induction k xs rule: chunks.induct)
  case (1 k xs)
  show ?case
  proof (cases "xs = []")
    case True
    then show ?thesis using 1(2) by (subst chunks.simps) simp
  next
    case False
    with 1 have IH: "length (chunks k (drop k xs)) = (length xs - k + k - 1) div k" by simp
    have "(length xs + k - 1) div k = Suc ((length xs - k + k - 1) div k)"
    proof (cases "k \<le> length xs")
      case True
      then have "length xs + k - 1 = (length xs - k + k - 1) + k" using 1(2) by simp
      then show ?thesis using 1(2) by (simp only: div_add_self2)
    next
      case short: False
      then have "length xs + k - 1 = (length xs - 1) + k" "length xs - k + k - 1 = k - 1"
        using False by (cases xs, auto)+
      with short 1(2) show ?thesis by (simp only: div_add_self2) simp
    qed
    with IH False 1(2) show ?thesis by (subst chunks.simps) simp
  qed
qed

text \<open>Reading and writing back: the writer reproduces the bytes that were read.\<close>

lemma bit_byte_high: "8 \<le> n \<Longrightarrow> \<not> bit (b :: byte) n"
  using bit_imp_le_length [of b n] by auto

lemma put_get_uint16: "put_uint16 (get_uint16 [b0, b1]) = [b0, b1]"
  by (simp add: put_uint16_def get_uint16_def) (auto intro!: bit_word_eqI simp: bit_simps bit_byte_high)

lemma put_get_uint32: "put_uint32 (get_uint32 [b0, b1, b2, b3]) = [b0, b1, b2, b3]"
  by (simp add: put_uint32_def get_uint32_def) (auto intro!: bit_word_eqI simp: bit_simps bit_byte_high)

lemma get_uint_prefix:
  "get_uint32 (b0 # b1 # b2 # b3 # rest) = get_uint32 [b0, b1, b2, b3]"
  "get_uint16 (b0 # b1 # rest) = get_uint16 [b0, b1]"
  by (simp_all add: get_uint32_def get_uint16_def)

lemma put_get_data_header:
  assumes "fabricWireDataHeaderSize \<le> length body"
  shows "put_data_header (get_data_header body) = take fabricWireDataHeaderSize body"
proof -
  obtain b0 b1 b2 b3 b4 b5 b6 b7 b8 b9 b10 b11 rest where
    "body = b0 # b1 # b2 # b3 # b4 # b5 # b6 # b7 # b8 # b9 # b10 # b11 # rest"
    using assms by (auto simp: fabricWireDataHeaderSize_def Suc_le_length_iff numeral_eq_Suc)
  then show ?thesis
    by (simp add: put_data_header_def get_data_header_def fabricWireDataHeaderSize_def
        put_get_uint16 put_get_uint32 get_uint_prefix(1) [of b0 b1 b2 b3 "b4 # _"]
        get_uint_prefix(1) [of b4 b5 b6 b7 "b8 # _"] get_uint_prefix(2) [of b10 b11 rest])
qed

section \<open>Datagrams\<close>

lemma length_putFabricWireHeader: "length (putFabricWireHeader t g) = fabricWireHeaderSize"
  by (simp add: putFabricWireHeader_def fabricWireHeaderSize_def)

lemma parse_putFabricWireHeader:
  "parseFabricWireHeader (putFabricWireHeader t g @ rest) =
     Inr (\<lparr> wh_version = fabricWireVersion, wh_msg_type = t, wh_generation = g \<rparr>, rest)"
proof -
  have "drop fabricWireHeaderSize (putFabricWireHeader t g @ rest) = rest"
    by (simp add: length_putFabricWireHeader)
  moreover have "(putFabricWireHeader t g @ rest) ! 0 = fabricWireVersion"
    "(putFabricWireHeader t g @ rest) ! 1 = t"
    "drop 2 (putFabricWireHeader t g @ rest) = put_uint64 g @ rest"
    by (simp_all add: putFabricWireHeader_def)
  ultimately show ?thesis
    by (simp add: parseFabricWireHeader_def length_putFabricWireHeader)
qed

definition data_header_ok :: "fabricWireDataHeader \<Rightarrow> byte list \<Rightarrow> bool" where
  "data_header_ok h payload \<longleftrightarrow>
     wd_frag_index h < wd_frag_count h \<and> payload \<noteq> [] \<and> length payload \<le> unat (wd_total_length h)"

lemma parse_put_data_header:
  "parseFabricWireDataHeader (put_data_header h @ payload) =
     (if data_header_ok h payload then Inr (h, payload) else Inl InconsistentGeometry)"
  by (auto simp: parseFabricWireDataHeader_def data_header_ok_def Let_def not_le not_less)

section \<open>Properties\<close>

text \<open>
  A data datagram reads back as what was encoded: the header and the fragment when the
  fragment's geometry is consistent, and otherwise a geometry error.
\<close>

theorem fragment_roundtrip:
  "(case parseFabricWireHeader (encodeFabricWireFragment generation h payload) of
      Inl e \<Rightarrow> Inl e
    | Inr (header, body) \<Rightarrow> map_sum id (Pair header) (parseFabricWireDataHeader body)) =
   (if wd_frag_index h < wd_frag_count h \<and> payload \<noteq> [] \<and> length payload \<le> unat (wd_total_length h)
    then Inr (\<lparr> wh_version = fabricWireVersion, wh_msg_type = fabricWireMsgData,
                wh_generation = generation \<rparr>, h, payload)
    else Inl InconsistentGeometry)"
  unfolding encodeFabricWireFragment_def parse_putFabricWireHeader
  by (simp add: parse_put_data_header data_header_ok_def)

text \<open>
  A link-state datagram reads back as the entries that were encoded, in order; only an empty
  list of entries is refused.
\<close>

theorem link_states_roundtrip:
  "parseFabricWireHeader (encodeFabricWireLinkStates generation states) =
     Inr (\<lparr> wh_version = fabricWireVersion, wh_msg_type = fabricWireMsgLinkState,
            wh_generation = generation \<rparr>, concat (map put_link_state states)) \<and>
   parseFabricWireLinkStates (concat (map put_link_state states)) =
     (if states = [] then Inl MalformedLinkState else Inr states)"
proof
  show "parseFabricWireHeader (encodeFabricWireLinkStates generation states) =
     Inr (\<lparr> wh_version = fabricWireVersion, wh_msg_type = fabricWireMsgLinkState,
            wh_generation = generation \<rparr>, concat (map put_link_state states))"
    by (simp add: encodeFabricWireLinkStates_def parse_putFabricWireHeader)
  have "0 < fabricWireLinkStateEntrySize" by (simp add: fabricWireLinkStateEntrySize_def)
  then show "parseFabricWireLinkStates (concat (map put_link_state states)) =
     (if states = [] then Inl MalformedLinkState else Inr states)"
    by (simp add: parseFabricWireLinkStates_def link_state.get_chunks link_state.length_put_all
        del: length_concat length_map)
qed

text \<open>
  Whatever bytes arrive, a data datagram that the parser accepts has a fragment index below its
  fragment count, a payload that is not empty and not longer than the announced frame, and is
  exactly what the encoder writes for that header and payload.
\<close>

theorem parse_data_header_sound:
  assumes "parseFabricWireDataHeader body = Inr (h, payload)"
  shows "unat (wd_frag_index h) < unat (wd_frag_count h) \<and> payload \<noteq> [] \<and>
    length payload \<le> unat (wd_total_length h) \<and> body = put_data_header h @ payload"
proof -
  from assms have h: "h = get_data_header body" "payload = drop fabricWireDataHeaderSize body"
    and long: "fabricWireDataHeaderSize \<le> length body" and ok: "data_header_ok h payload"
    by (auto simp: parseFabricWireDataHeader_def data_header_ok_def Let_def not_less not_le split: if_splits)
  have "body = put_data_header h @ payload"
    unfolding h put_get_data_header [OF long] by simp
  with ok show ?thesis by (simp add: data_header_ok_def word_less_nat_alt)
qed

definition sample_data_header :: fabricWireDataHeader where
  "sample_data_header = \<lparr> wd_link_id = 7, wd_frame_id = 1, wd_frag_index = 0, wd_frag_count = 2,
     wd_total_length = 3 \<rparr>"

theorem parse_data_header_sound_witness:
  "unat (wd_frag_index sample_data_header) < unat (wd_frag_count sample_data_header)"
proof -
  have "data_header_ok sample_data_header [1, 2]" by (simp add: data_header_ok_def sample_data_header_def)
  then have "parseFabricWireDataHeader (put_data_header sample_data_header @ [1, 2]) =
    Inr (sample_data_header, [1, 2])" by (simp add: parse_put_data_header)
  from parse_data_header_sound [OF this] show ?thesis by blast
qed


text \<open>
  C10: Splitting a frame succeeds exactly when the payload size is positive, the frame is neither
  empty nor longer than 65535 bytes and needs at most 255 fragments; the fragments are not empty,
  fit the payload size and concatenate to the frame.
\<close>

theorem splitFabricWireFrame_correct:
  "case splitFabricWireFrame frame payloadSize of
     Inl e \<Rightarrow> payloadSize < 1 \<or> frame = [] \<or> length frame > 65535 \<or> int (length frame) > 255 * payloadSize
   | Inr fragments \<Rightarrow>
       1 \<le> payloadSize \<and> frame \<noteq> [] \<and> length frame \<le> 65535 \<and> int (length frame) \<le> 255 * payloadSize \<and>
       concat fragments = frame \<and> 1 \<le> length fragments \<and> length fragments \<le> 255 \<and>
       (\<forall>f \<in> set fragments. f \<noteq> [] \<and> int (length f) \<le> payloadSize)"
proof (cases "payloadSize < 1 \<or> frame = [] \<or> length frame > 65535")
  case True
  then show ?thesis by (auto simp: splitFabricWireFrame_def fabricWireMaximumFrameSize_def Let_def)
next
  case False
  define k where "k = nat payloadSize"
  have k: "0 < k" "payloadSize = int k" using False by (auto simp: k_def)
  have "(length frame + k - 1) div k > 255 \<longleftrightarrow> 256 * k \<le> length frame + k - 1"
    using k(1) less_eq_div_iff_mult_less_eq [of k 256 "length frame + k - 1"] by auto
  then have count: "(length frame + k - 1) div k > 255 \<longleftrightarrow> int (length frame) > 255 * payloadSize"
    using k by auto
  have "1 \<le> length (chunks k frame)"
    using False k by (subst chunks.simps) simp
  moreover have "\<forall>f \<in> set (chunks k frame). f \<noteq> [] \<and> int (length f) \<le> payloadSize"
    using chunk_lengths [of _ k frame] k(2) by fastforce
  ultimately show ?thesis
    using False count k length_chunks [OF k(1), of frame] concat_chunks [OF k(1), of frame]
    by (auto simp: splitFabricWireFrame_def fabricWireMaximumFrameSize_def fabricWireMaximumFragments_def
        Let_def not_less simp flip: k_def)
qed


theorem splitFabricWireFrame_correct_witness:
  "splitFabricWireFrame [1, 2, 3] 2 = Inr [[1, 2], [3]] \<and>
   concat [[1, 2], [3 :: byte]] = [1, 2, 3] \<and> int (length [1, 2 :: byte]) \<le> 2"
proof -
  have "splitFabricWireFrame [1, 2, 3] 2 = Inr [[1, 2], [3]]"
    by (simp add: splitFabricWireFrame_def fabricWireMaximumFrameSize_def fabricWireMaximumFragments_def
        chunks_Nil chunks_Cons)
  with splitFabricWireFrame_correct [of 2 "[1, 2, 3]"] show ?thesis by simp
qed

end
