(* ===== verification/Wire_Reassembly.thy ===== *)
theory Wire_Reassembly
  imports Fabric_Codec
begin

text \<open>
  Reassembly of frames from fragments (\<open>wireReassembler\<close> of \<open>src/internal/directruntime/wire.go\<close>):
  expiry of incomplete frames, the cap on frames in flight, and the absorption of one fragment.
  Times are nanoseconds.
\<close>

section \<open>Definitions\<close>

definition fabricWireReassemblyExpiry :: int where "fabricWireReassemblyExpiry = 100 * 1000000"
definition fabricWireReassemblyFrameLimit :: nat where "fabricWireReassemblyFrameLimit = 64"

datatype fabricWireDropCause =
    fabricWireDropNone
  | fabricWireDropExpiry
  | fabricWireDropMemoryCap
  | fabricWireDropGeometry
  | fabricWireDropOversize

text \<open>A fragment that has not arrived is the nil slice, here \<open>None\<close>.\<close>

record pendingWireFrame =
  pf_arrived :: int
  pf_frag_count :: nat
  pf_total_len :: nat
  pf_received :: nat
  pf_bytes :: nat
  pf_fragments :: "byte list option list"

text \<open>The calls of the \<open>drops\<close> callback are recorded in \<open>ra_drops\<close>.\<close>

record wireReassembler =
  ra_pending :: "(32 word, pendingWireFrame) gomap"
  ra_drops :: "fabricWireDropCause list"

definition newWireReassembler :: wireReassembler where
  "newWireReassembler = \<lparr> ra_pending = [], ra_drops = [] \<rparr>"

definition expired :: "int \<Rightarrow> pendingWireFrame \<Rightarrow> bool" where
  "expired now f \<longleftrightarrow> now - pf_arrived f > fabricWireReassemblyExpiry"

definition expire :: "wireReassembler \<Rightarrow> int \<Rightarrow> wireReassembler" where
  "expire r now = r\<lparr> ra_pending := filter (\<lambda>(_, f). \<not> expired now f) (ra_pending r),
     ra_drops := ra_drops r @
       replicate (length (filter (\<lambda>(_, f). expired now f) (ra_pending r))) fabricWireDropExpiry \<rparr>"

fun oldest_frame :: "(32 word \<times> pendingWireFrame) option \<Rightarrow> (32 word, pendingWireFrame) gomap
    \<Rightarrow> (32 word \<times> pendingWireFrame) option" where
  "oldest_frame oldest [] = oldest"
| "oldest_frame oldest ((frameID, frame) # rest) =
     (case oldest of
        None \<Rightarrow> oldest_frame (Some (frameID, frame)) rest
      | Some (oldestID, oldestFrame) \<Rightarrow>
          if pf_arrived frame < pf_arrived oldestFrame
          then oldest_frame (Some (frameID, frame)) rest
          else oldest_frame oldest rest)"

definition evictOldest :: "wireReassembler \<Rightarrow> wireReassembler" where
  "evictOldest r =
     (case oldest_frame None (ra_pending r) of
        None \<Rightarrow> r
      | Some (oldestID, _) \<Rightarrow>
          r\<lparr> ra_pending := AList.delete oldestID (ra_pending r),
             ra_drops := ra_drops r @ [fabricWireDropMemoryCap] \<rparr>)"

definition assemble :: "byte list option list \<Rightarrow> byte list" where
  "assemble fragments = concat (map (\<lambda>f. case f of None \<Rightarrow> [] | Some b \<Rightarrow> b) fragments)"

text \<open>
  The first part of \<open>absorb\<close>: the pending frame of a fragment, created, under the cap, when there is
  none.
\<close>

definition admit_frame :: "wireReassembler \<Rightarrow> int \<Rightarrow> fabricWireDataHeader \<Rightarrow> wireReassembler \<times> pendingWireFrame" where
  "admit_frame r now header =
     (case map_of (ra_pending r) (wd_frame_id header) of
        Some frame \<Rightarrow> (r, frame)
      | None \<Rightarrow>
          let r = (if length (ra_pending r) \<ge> fabricWireReassemblyFrameLimit then evictOldest r else r);
              frame = \<lparr> pf_arrived = now, pf_frag_count = unat (wd_frag_count header),
                        pf_total_len = unat (wd_total_length header), pf_received = 0, pf_bytes = 0,
                        pf_fragments = replicate (unat (wd_frag_count header)) None \<rparr>
          in (r\<lparr> ra_pending := AList.update (wd_frame_id header) frame (ra_pending r) \<rparr>, frame))"

text \<open>
  \<open>absorb\<close> returns \<open>None\<close> where the source would index the fragments out of range, and otherwise the
  reassembler afterwards and the completed frame, if any.
\<close>

definition absorb :: "wireReassembler \<Rightarrow> int \<Rightarrow> fabricWireDataHeader \<Rightarrow> byte list
    \<Rightarrow> (wireReassembler \<times> byte list option) option" where
  "absorb r0 now header payload =
     (let (r, frame) = admit_frame (expire r0 now) now header;
          frameID = wd_frame_id header;
          idx = unat (wd_frag_index header)
      in
      if pf_frag_count frame \<noteq> unat (wd_frag_count header) \<or> pf_total_len frame \<noteq> unat (wd_total_length header)
      then Some (r\<lparr> ra_pending := AList.delete frameID (ra_pending r),
                    ra_drops := ra_drops r @ [fabricWireDropGeometry] \<rparr>, None)
      else if idx \<ge> length (pf_fragments frame) then None
      else if pf_fragments frame ! idx \<noteq> None then Some (r, None)
      else
        let frame = frame\<lparr> pf_fragments := (pf_fragments frame)[idx := (if payload = [] then None else Some payload)],
                           pf_received := pf_received frame + 1,
                           pf_bytes := pf_bytes frame + length payload \<rparr>
        in if pf_received frame < pf_frag_count frame
           then Some (r\<lparr> ra_pending := AList.update frameID frame (ra_pending r) \<rparr>, None)
           else let r = r\<lparr> ra_pending := AList.delete frameID (ra_pending r) \<rparr>
                in if pf_bytes frame \<noteq> pf_total_len frame
                   then Some (r\<lparr> ra_drops := ra_drops r @ [fabricWireDropGeometry] \<rparr>, None)
                   else Some (r, Some (assemble (pf_fragments frame))))"

text \<open>The frames that a sequence of fragments with their arrival times completes.\<close>

fun absorb_all :: "wireReassembler \<Rightarrow> (int \<times> fabricWireDataHeader \<times> byte list) list
    \<Rightarrow> (wireReassembler \<times> byte list list) option" where
  "absorb_all r [] = Some (r, [])"
| "absorb_all r ((now, header, payload) # rest) =
     (case absorb r now header payload of
        None \<Rightarrow> None
      | Some (r', out) \<Rightarrow>
          (case absorb_all r' rest of
             None \<Rightarrow> None
           | Some (r'', frames) \<Rightarrow> Some (r'', (case out of None \<Rightarrow> frames | Some f \<Rightarrow> f # frames))))"

section \<open>Well-formed reassemblers\<close>

definition fragment_bytes :: "byte list option list \<Rightarrow> nat" where
  "fragment_bytes fragments = length (assemble fragments)"

definition received_count :: "byte list option list \<Rightarrow> nat" where
  "received_count fragments = length (filter (\<lambda>x. x \<noteq> None) fragments)"

definition frame_wf :: "pendingWireFrame \<Rightarrow> bool" where
  "frame_wf f \<longleftrightarrow>
     length (pf_fragments f) = pf_frag_count f \<and>
     pf_received f = received_count (pf_fragments f) \<and>
     pf_received f < pf_frag_count f \<and>
     pf_bytes f = fragment_bytes (pf_fragments f)"

definition reassembler_wf :: "wireReassembler \<Rightarrow> bool" where
  "reassembler_wf r \<longleftrightarrow>
     distinct (map fst (ra_pending r)) \<and> length (ra_pending r) \<le> fabricWireReassemblyFrameLimit \<and>
     (\<forall>(_, f) \<in> set (ra_pending r). frame_wf f)"

text \<open>Filling an empty slot of a fragment table.\<close>

lemma count_update_None:
  "i < length xs \<Longrightarrow> xs ! i = None \<Longrightarrow>
     received_count (xs[i := Some b]) = Suc (received_count xs)"
proof (induction xs arbitrary: i)
  case (Cons x xs)
  then show ?case by (cases i) (auto simp: received_count_def)
qed simp

lemma fragment_bytes_update_None:
  "i < length xs \<Longrightarrow> xs ! i = None \<Longrightarrow> fragment_bytes (xs[i := Some b]) = fragment_bytes xs + length b"
proof (induction xs arbitrary: i)
  case (Cons x xs)
  then show ?case by (cases i) (auto simp: fragment_bytes_def assemble_def)
qed simp

lemma expire_wf: "reassembler_wf r \<Longrightarrow> reassembler_wf (expire r now)"
  unfolding reassembler_wf_def expire_def
  by (auto simp: distinct_map intro: order_trans [OF length_filter_le] inj_on_subset)

lemma oldest_frame_mem:
  "oldest_frame acc xs = Some e \<Longrightarrow> acc = Some e \<or> e \<in> set xs"
  by (induction acc xs rule: oldest_frame.induct) (auto split: option.splits if_splits)

lemma oldest_frame_None: "oldest_frame acc xs = None \<longleftrightarrow> acc = None \<and> xs = []"
  by (induction acc xs rule: oldest_frame.induct) (auto split: option.splits)

lemma evictOldest_wf:
  assumes "reassembler_wf r"
  shows "reassembler_wf (evictOldest r)"
proof (cases "oldest_frame None (ra_pending r)")
  case (Some e)
  then show ?thesis
    using assms set_alist_delete [of "fst e" "ra_pending r"] length_alist_delete [of "fst e" "ra_pending r"]
    by (cases e) (auto simp: reassembler_wf_def evictOldest_def distinct_delete dest: subsetD)
qed (use assms in \<open>simp add: evictOldest_def\<close>)

lemma evictOldest_room: "ra_pending r \<noteq> [] \<Longrightarrow> length (ra_pending (evictOldest r)) < length (ra_pending r)"
proof -
  assume "ra_pending r \<noteq> []"
  then obtain k f where old: "oldest_frame None (ra_pending r) = Some (k, f)"
    using oldest_frame_None [of None "ra_pending r"] by (cases "oldest_frame None (ra_pending r)") auto
  then have "k \<in> fst ` set (ra_pending r)" using oldest_frame_mem by force
  with old show ?thesis by (simp add: evictOldest_def length_alist_delete_mem)
qed
lemma reassembler_wf_update:
  assumes "reassembler_wf r" "frame_wf f"
    and "k \<in> fst ` set (ra_pending r) \<or> length (ra_pending r) < fabricWireReassemblyFrameLimit"
  shows "reassembler_wf (r\<lparr> ra_pending := AList.update k f (ra_pending r) \<rparr>)"
  using assms set_alist_update [of k f "ra_pending r"]
  by (auto simp: reassembler_wf_def distinct_update length_alist_update dest: subsetD)

lemma reassembler_wf_delete:
  assumes "reassembler_wf r"
  shows "reassembler_wf (r\<lparr> ra_pending := AList.delete k (ra_pending r) \<rparr>)"
  using assms set_alist_delete [of k "ra_pending r"] length_alist_delete [of k "ra_pending r"]
  by (auto simp: reassembler_wf_def distinct_delete dest: subsetD)

lemma reassembler_wf_drops [simp]: "reassembler_wf (r\<lparr> ra_drops := ds \<rparr>) = reassembler_wf r"
  by (simp add: reassembler_wf_def)

lemma frame_wf_new:
  "0 < n \<Longrightarrow> frame_wf \<lparr> pf_arrived = t, pf_frag_count = n, pf_total_len = l, pf_received = 0, pf_bytes = 0,
     pf_fragments = replicate n None \<rparr>"
proof -
  have "assemble (replicate n None) = []" by (induction n) (simp_all add: assemble_def)
  then show "0 < n \<Longrightarrow> ?thesis" by (simp add: frame_wf_def fragment_bytes_def received_count_def filter_replicate)
qed

lemma admit_frame_wf:
  assumes "reassembler_wf r" "0 < unat (wd_frag_count h)" "admit_frame r now h = (r', f)"
  shows "reassembler_wf r'" "frame_wf f" "map_of (ra_pending r') (wd_frame_id h) = Some f"
proof (atomize (full), cases "map_of (ra_pending r) (wd_frame_id h)")
  case (Some g)
  then have "frame_wf g" using assms(1) map_of_SomeD [OF Some] by (auto simp: reassembler_wf_def)
  with Some assms show "reassembler_wf r' \<and> frame_wf f \<and> map_of (ra_pending r') (wd_frame_id h) = Some f"
    by (simp add: admit_frame_def)
next
  case None
  let ?r = "if length (ra_pending r) \<ge> fabricWireReassemblyFrameLimit then evictOldest r else r"
  have room: "length (ra_pending ?r) < fabricWireReassemblyFrameLimit"
    using assms(1) evictOldest_room [of r]
    by (cases "ra_pending r") (auto simp: reassembler_wf_def fabricWireReassemblyFrameLimit_def)
  have "reassembler_wf ?r" using assms(1) evictOldest_wf by simp
  with room frame_wf_new [OF assms(2)] None assms(3)
  show "reassembler_wf r' \<and> frame_wf f \<and> map_of (ra_pending r') (wd_frame_id h) = Some f"
    by (auto simp: admit_frame_def Let_def intro!: reassembler_wf_update)
qed

lemma frame_wf_fill:
  assumes "frame_wf f" "i < length (pf_fragments f)" "pf_fragments f ! i = None" "payload \<noteq> []"
    and "g = f\<lparr> pf_fragments := (pf_fragments f)[i := Some payload], pf_received := pf_received f + 1,
      pf_bytes := pf_bytes f + length payload \<rparr>"
  shows "pf_received g < pf_frag_count g \<Longrightarrow> frame_wf g"
    and "pf_bytes g = length (assemble (pf_fragments g))"
  using assms
  by (simp_all add: frame_wf_def count_update_None fragment_bytes_update_None flip: fragment_bytes_def)

lemma absorb_wf:
  assumes "reassembler_wf r" "unat (wd_frag_index h) < unat (wd_frag_count h)" "payload \<noteq> []"
  shows "\<exists>r' out. absorb r now h payload = Some (r', out) \<and> reassembler_wf r' \<and>
    (\<forall>frame. out = Some frame \<longrightarrow> length frame = unat (wd_total_length h) \<and>
       map_of (ra_pending r') (wd_frame_id h) = None)"
proof -
  obtain r1 f where admit: "admit_frame (expire r now) now h = (r1, f)" by force
  note wf = admit_frame_wf [OF expire_wf [OF assms(1)] _ admit]
  have wf1: "reassembler_wf r1" "frame_wf f" "wd_frame_id h \<in> fst ` set (ra_pending r1)"
    using wf assms(2) map_of_eq_None_iff [of "ra_pending r1" "wd_frame_id h"] by auto
  let ?i = "unat (wd_frag_index h)"
  define g where "g = f\<lparr> pf_fragments := (pf_fragments f)[?i := Some payload], pf_received := pf_received f + 1,
      pf_bytes := pf_bytes f + length payload \<rparr>"
  consider (mismatch) "pf_frag_count f \<noteq> unat (wd_frag_count h) \<or> pf_total_len f \<noteq> unat (wd_total_length h)"
    | (duplicate) "pf_frag_count f = unat (wd_frag_count h)" "pf_total_len f = unat (wd_total_length h)"
        "pf_fragments f ! ?i \<noteq> None"
    | (fill) "pf_frag_count f = unat (wd_frag_count h)" "pf_total_len f = unat (wd_total_length h)"
        "pf_fragments f ! ?i = None" by blast
  then show ?thesis
  proof cases
    case mismatch
    then show ?thesis using wf1 by (simp add: absorb_def admit reassembler_wf_delete)
  next
    case duplicate
    then show ?thesis using wf1 assms(2) by (simp add: absorb_def admit frame_wf_def)
  next
    case fill
    then have i: "?i < length (pf_fragments f)" using wf1(2) assms(2) by (simp add: frame_wf_def)
    note filled = frame_wf_fill [OF wf1(2) i fill(3) assms(3) g_def]
    have "absorb r now h payload =
      (if pf_received g < pf_frag_count g
       then Some (r1\<lparr> ra_pending := AList.update (wd_frame_id h) g (ra_pending r1) \<rparr>, None)
       else if pf_bytes g \<noteq> pf_total_len g
       then Some (r1\<lparr> ra_pending := AList.delete (wd_frame_id h) (ra_pending r1),
                      ra_drops := ra_drops r1 @ [fabricWireDropGeometry] \<rparr>, None)
       else Some (r1\<lparr> ra_pending := AList.delete (wd_frame_id h) (ra_pending r1) \<rparr>,
                  Some (assemble (pf_fragments g))))"
      using fill i assms(3) by (simp add: absorb_def admit g_def Let_def)
    then show ?thesis
      using filled wf1 reassembler_wf_update [OF wf1(1) filled(1) disjI1 [OF wf1(3)]]
        reassembler_wf_delete [OF wf1(1)] fill(2) g_def
      by (auto simp: delete_conv)
  qed
qed

section \<open>Fragments in any order\<close>

definition partial_fragments :: "byte list list \<Rightarrow> nat set \<Rightarrow> byte list option list" where
  "partial_fragments fs I = map (\<lambda>i. if i \<in> I then Some (fs ! i) else None) [0..<length fs]"

lemma length_partial_fragments [simp]: "length (partial_fragments fs I) = length fs"
  by (simp add: partial_fragments_def)

lemma nth_partial_fragments [simp]:
  "i < length fs \<Longrightarrow> partial_fragments fs I ! i = (if i \<in> I then Some (fs ! i) else None)"
  by (simp add: partial_fragments_def)

lemma partial_fragments_insert:
  "i < length fs \<Longrightarrow> (partial_fragments fs I)[i := Some (fs ! i)] = partial_fragments fs (insert i I)"
  by (rule nth_equalityI) (auto simp: nth_list_update)

lemma partial_fragments_none: "partial_fragments fs {} = replicate (length fs) None"
  by (rule nth_equalityI) auto

lemma assemble_all: "{0..<length fs} \<subseteq> I \<Longrightarrow> assemble (partial_fragments fs I) = concat fs"
proof -
  assume "{0..<length fs} \<subseteq> I"
  then have "partial_fragments fs I = map Some fs" by (intro nth_equalityI) auto
  then show ?thesis by (simp add: assemble_def comp_def)
qed

lemma received_count_partial:
  "I \<subseteq> {0..<length fs} \<Longrightarrow> received_count (partial_fragments fs I) = card I"
proof -
  assume I: "I \<subseteq> {0..<length fs}"
  have "{i. i < length fs \<and> partial_fragments fs I ! i \<noteq> None} = I" using I by (auto split: if_splits)
  then show ?thesis unfolding received_count_def by (simp add: length_filter_conv_card del: not_None_eq)
qed

lemma expire_lookup:
  assumes "reassembler_wf r"
  shows "map_of (ra_pending (expire r now)) k =
    (case map_of (ra_pending r) k of None \<Rightarrow> None | Some f \<Rightarrow> if expired now f then None else Some f)"
  using assms by (auto simp: reassembler_wf_def expire_def kept_entry split: option.splits)

text \<open>The header that the sender gives fragment \<open>i\<close> of a frame that was split into \<open>fs\<close>.\<close>

definition fragment_header :: "32 word \<Rightarrow> 32 word \<Rightarrow> byte list list \<Rightarrow> nat \<Rightarrow> fabricWireDataHeader" where
  "fragment_header linkID frameID fs i = \<lparr> wd_link_id = linkID, wd_frame_id = frameID,
     wd_frag_index = of_nat i, wd_frag_count = of_nat (length fs),
     wd_total_length = of_nat (length (concat fs)) \<rparr>"

definition frame_fits :: "byte list list \<Rightarrow> bool" where
  "frame_fits fs \<longleftrightarrow> length fs \<le> fabricWireMaximumFragments \<and>
     length (concat fs) \<le> fabricWireMaximumFrameSize \<and> (\<forall>f \<in> set fs. f \<noteq> [])"

lemma fragment_header_fields:
  assumes "frame_fits fs" "i < length fs"
  shows "unat (wd_frag_index (fragment_header l k fs i)) = i"
    "unat (wd_frag_count (fragment_header l k fs i)) = length fs"
    "unat (wd_total_length (fragment_header l k fs i)) = length (concat fs)"
    "wd_frame_id (fragment_header l k fs i) = k" "fs ! i \<noteq> []"
  using assms
  by (simp_all add: fragment_header_def frame_fits_def fabricWireMaximumFragments_def
      fabricWireMaximumFrameSize_def unat_of_nat del: length_concat)

text \<open>
  \<open>in_flight r k t fs I\<close>: frame \<open>k\<close> started at time \<open>t\<close> and holds exactly the fragments \<open>I\<close> of \<open>fs\<close>;
  the frame is pending as soon as one of them has arrived.
\<close>

definition in_flight :: "wireReassembler \<Rightarrow> 32 word \<Rightarrow> int \<Rightarrow> byte list list \<Rightarrow> nat set \<Rightarrow> bool" where
  "in_flight r k t fs I \<longleftrightarrow> reassembler_wf r \<and>
     (case map_of (ra_pending r) k of
        None \<Rightarrow> I = {}
      | Some f \<Rightarrow> I \<noteq> {} \<and> pf_arrived f = t \<and> pf_frag_count f = length fs \<and> pf_total_len f = length (concat fs) \<and>
          pf_fragments f = partial_fragments fs I)"

lemma absorb_in_flight:
  assumes fits: "frame_fits fs" and i: "i < length fs" "i \<notin> I" and I: "I \<subseteq> {0..<length fs}"
    and flight: "in_flight r k t fs I" and now: "now - t \<le> fabricWireReassemblyExpiry" "I = {} \<longrightarrow> now = t"
  shows "\<exists>r'. absorb r now (fragment_header l k fs i) (fs ! i) =
      Some (r', if insert i I = {0..<length fs} then Some (concat fs) else None) \<and>
    in_flight r' k t fs (if insert i I = {0..<length fs} then {} else insert i I)"
proof -
  let ?h = "fragment_header l k fs i"
  note hdr = fragment_header_fields [OF fits i(1)]
  have wf: "reassembler_wf r" using flight by (simp add: in_flight_def)
  obtain r1 f where admit: "admit_frame (expire r now) now ?h = (r1, f)" by force
  have "0 < unat (wd_frag_count ?h)" using i by (simp only: hdr)
  note wf1 = admit_frame_wf [OF expire_wf [OF wf] this admit]
  have f: "pf_arrived f = t" "pf_frag_count f = length fs" "pf_total_len f = length (concat fs)"
    "pf_fragments f = partial_fragments fs I"
    using admit flight now hdr unfolding in_flight_def admit_frame_def expire_lookup [OF wf]
    by (auto simp: Let_def expired_def partial_fragments_none split: option.splits if_splits)
  define g where "g = f\<lparr> pf_fragments := partial_fragments fs (insert i I), pf_received := pf_received f + 1,
      pf_bytes := pf_bytes f + length (fs ! i) \<rparr>"
  have fill: "pf_fragments f ! i = None" "i < length (pf_fragments f)" using f i by simp_all
  note filled = frame_wf_fill [OF wf1(2) fill(2,1) hdr(5), of g]
  have received: "pf_received g = card (insert i I)"
    using wf1(2) f(4) received_count_partial [OF I] i I
    by (simp add: g_def frame_wf_def card_insert_if finite_subset [OF I])
  have sub: "insert i I \<subseteq> {0..<length fs}" using I i by auto
  have count: "pf_frag_count g = length fs" by (simp add: g_def f)
  have last: "\<not> pf_received g < pf_frag_count g \<longleftrightarrow> insert i I = {0..<length fs}"
    unfolding received count
  proof
    assume "\<not> card (insert i I) < length fs"
    with card_mono [OF _ sub] have "card (insert i I) = card {0..<length fs}" by simp
    with card_subset_eq [OF _ sub] show "insert i I = {0..<length fs}" by simp
  qed simp
  have bytes: "pf_bytes g = length (assemble (pf_fragments g))"
    using filled(2) f(4) i(1) by (simp add: g_def partial_fragments_insert)
  have run: "absorb r now ?h (fs ! i) =
      (if pf_received g < pf_frag_count g
       then Some (r1\<lparr> ra_pending := AList.update k g (ra_pending r1) \<rparr>, None)
       else if pf_bytes g \<noteq> pf_total_len g
       then Some (r1\<lparr> ra_pending := AList.delete k (ra_pending r1),
                      ra_drops := ra_drops r1 @ [fabricWireDropGeometry] \<rparr>, None)
       else Some (r1\<lparr> ra_pending := AList.delete k (ra_pending r1) \<rparr>,
                  Some (assemble (pf_fragments g))))"
    using fill f hdr i by (simp add: absorb_def admit g_def Let_def partial_fragments_insert)
  show ?thesis
  proof (cases "insert i I = {0..<length fs}")
    case True
    then have "assemble (pf_fragments g) = concat fs" by (simp add: g_def assemble_all)
    with True last run bytes f(3) show ?thesis
      using reassembler_wf_delete [OF wf1(1), of k] by (simp add: g_def in_flight_def delete_conv)
  next
    case False
    then have more: "pf_received g < pf_frag_count g" using last by blast
    have "frame_wf g" using filled(1) more f(4) i(1) by (simp add: g_def partial_fragments_insert)
    moreover have "k \<in> fst ` set (ra_pending r1)"
      using wf1(3) hdr(4) map_of_eq_None_iff [of "ra_pending r1" k] by auto
    ultimately show ?thesis
      using False more run f reassembler_wf_update [OF wf1(1), of g k]
      by (simp add: in_flight_def update_conv) (simp add: g_def)
  qed
qed

lemma absorb_all_in_flight:
  assumes "frame_fits fs"
  shows "in_flight r k t fs I \<Longrightarrow> I \<subseteq> {0..<length fs} \<Longrightarrow> I \<noteq> {0..<length fs} \<Longrightarrow>
    distinct (map snd order) \<Longrightarrow> snd ` set order = {0..<length fs} - I \<Longrightarrow>
    \<forall>(now, i) \<in> set order. now - t \<le> fabricWireReassemblyExpiry \<Longrightarrow>
    (I = {} \<Longrightarrow> fst (hd order) = t) \<Longrightarrow>
    \<exists>r'. absorb_all r (map (\<lambda>(now, i). (now, fragment_header l k fs i, fs ! i)) order) = Some (r', [concat fs])
      \<and> reassembler_wf r' \<and> map_of (ra_pending r') k = None"
proof (induction order arbitrary: r I)
  case Nil
  then show ?case by auto
next
  case (Cons e order)
  obtain now i where e: "e = (now, i)" by force
  have i: "i < length fs" "i \<notin> I" using Cons.prems(5) e by auto
  have time: "now - t \<le> fabricWireReassemblyExpiry" "I = {} \<longrightarrow> now = t" using Cons.prems(6,7) e by auto
  from absorb_in_flight [OF assms i Cons.prems(2,1) time, of l] obtain r1 where
    step: "absorb r now (fragment_header l k fs i) (fs ! i) =
      Some (r1, if insert i I = {0..<length fs} then Some (concat fs) else None)" and
    flight: "in_flight r1 k t fs (if insert i I = {0..<length fs} then {} else insert i I)" by blast
  have rest: "snd ` set order = {0..<length fs} - insert i I"
    using Cons.prems(4,5) e by auto
  show ?case
  proof (cases "insert i I = {0..<length fs}")
    case True
    with rest have "order = []" by auto
    with True step flight e show ?thesis by (auto simp: in_flight_def split: option.splits)
  next
    case False
    with flight Cons.IH [of r1 "insert i I"] rest Cons.prems i e step show ?thesis by auto
  qed
qed

lemma absorb_all_gap:
  assumes "frame_fits fs"
  shows "in_flight r k t fs I \<Longrightarrow> I \<subseteq> {0..<length fs} \<Longrightarrow>
    distinct (map snd order) \<Longrightarrow> snd ` set order \<inter> I = {} \<Longrightarrow>
    snd ` set order \<union> I \<subset> {0..<length fs} \<Longrightarrow>
    \<forall>(now, i) \<in> set order. now - t \<le> fabricWireReassemblyExpiry \<Longrightarrow>
    (I = {} \<Longrightarrow> order \<noteq> [] \<Longrightarrow> fst (hd order) = t) \<Longrightarrow>
    \<exists>r'. absorb_all r (map (\<lambda>(now, i). (now, fragment_header l k fs i, fs ! i)) order) = Some (r', [])
      \<and> in_flight r' k t fs (snd ` set order \<union> I)"
proof (induction order arbitrary: r I)
  case (Cons e order)
  obtain now i where e: "e = (now, i)" by force
  have i: "i < length fs" "i \<notin> I" "insert i I \<noteq> {0..<length fs}" using Cons.prems(4,5) e by auto
  have time: "now - t \<le> fabricWireReassemblyExpiry" "I = {} \<longrightarrow> now = t" using Cons.prems(6,7) e by auto
  from absorb_in_flight [OF assms i(1,2) Cons.prems(2,1) time, of l] i(3) obtain r1 where
    step: "absorb r now (fragment_header l k fs i) (fs ! i) = Some (r1, None)" and
    flight: "in_flight r1 k t fs (insert i I)" by auto
  have "\<exists>r'. absorb_all r1 (map (\<lambda>(now, i). (now, fragment_header l k fs i, fs ! i)) order) = Some (r', [])
      \<and> in_flight r' k t fs (snd ` set order \<union> insert i I)"
    using flight Cons.prems i e by (intro Cons.IH) auto
  with step e show ?case by auto
qed simp

lemma splitFabricWireFrame_fits:
  assumes "splitFabricWireFrame frame payloadSize = Inr fs"
  shows "frame_fits fs" "concat fs = frame" "fs \<noteq> []"
proof -
  have k: "0 < nat payloadSize" "fs = chunks (nat payloadSize) frame" "frame \<noteq> []"
    using assms by (auto simp: splitFabricWireFrame_def Let_def split: if_splits)
  then show cat: "concat fs = frame" by (simp add: concat_chunks)
  then show "fs \<noteq> []" using k(3) by auto
  show "frame_fits fs"
    using assms cat k chunk_lengths [of _ "nat payloadSize" frame] length_chunks [OF k(1), of frame]
    by (auto simp: frame_fits_def splitFabricWireFrame_def Let_def not_less split: if_splits)
qed

section \<open>Properties\<close>

text \<open>
  Whatever fragments a peer sends, absorbing one that the parser accepted never indexes out of
  range and keeps the reassembler well formed: at most 64 frames in flight, no frame twice, and the
  counts of received fragments and bytes of every frame equal to what its table holds. A frame that
  is handed out has exactly the announced length and is no longer pending.
\<close>

theorem absorb_preserves_wf:
  assumes "reassembler_wf r" "parseFabricWireDataHeader body = Inr (h, payload)"
  shows "\<exists>r' out. absorb r now h payload = Some (r', out) \<and> reassembler_wf r' \<and>
    length (ra_pending r') \<le> 64 \<and>
    (\<forall>frame. out = Some frame \<longrightarrow> length frame = unat (wd_total_length h) \<and>
       map_of (ra_pending r') (wd_frame_id h) = None)"
proof -
  have "unat (wd_frag_index h) < unat (wd_frag_count h)" "payload \<noteq> []"
    using assms(2) by (auto simp: parseFabricWireDataHeader_def Let_def not_le word_less_nat_alt split: if_splits)
  from absorb_wf [OF assms(1) this, of now] show ?thesis
    by (auto simp: reassembler_wf_def fabricWireReassemblyFrameLimit_def)
qed

lemma newWireReassembler_wf: "reassembler_wf newWireReassembler"
  by (simp add: reassembler_wf_def newWireReassembler_def)

theorem absorb_preserves_wf_witness:
  "\<exists>r' out. absorb newWireReassembler 0 sample_data_header [1, 2] = Some (r', out) \<and> length (ra_pending r') \<le> 64"
proof -
  have "data_header_ok sample_data_header [1, 2]" by (simp add: data_header_ok_def sample_data_header_def)
  then have "parseFabricWireDataHeader (put_data_header sample_data_header @ [1, 2]) =
    Inr (sample_data_header, [1, 2])" by (simp add: parse_put_data_header)
  from absorb_preserves_wf [OF newWireReassembler_wf this, of 0] show ?thesis by blast
qed

text \<open>
  The fragments of a split frame, absorbed in any order within the expiry, complete exactly one
  frame, and it is the frame that was split, whatever else the reassembler holds.
\<close>

theorem reassembles_in_any_order:
  assumes "splitFabricWireFrame frame payloadSize = Inr fs"
    and "reassembler_wf r" "map_of (ra_pending r) k = None"
    and "distinct (map snd order)" "snd ` set order = {0..<length fs}"
    and "\<forall>(now, i) \<in> set order. now - fst (hd order) \<le> fabricWireReassemblyExpiry"
  shows "\<exists>r'. absorb_all r (map (\<lambda>(now, i). (now, fragment_header l k fs i, fs ! i)) order) = Some (r', [frame]) \<and>
    reassembler_wf r' \<and> map_of (ra_pending r') k = None"
proof -
  note fits = splitFabricWireFrame_fits [OF assms(1)]
  have flight: "in_flight r k (fst (hd order)) fs {}" using assms(2,3) by (simp add: in_flight_def)
  from absorb_all_in_flight [OF fits(1) flight _ _ assms(4) _ assms(6)] fits(2,3) assms(5)
  show ?thesis by auto
qed

definition sample_split :: "byte list list" where
  "sample_split = [[1, 2], [3, 4], [5]]"

lemma sample_split_ok: "splitFabricWireFrame [1, 2, 3, 4, 5] 2 = Inr sample_split"
  by (simp add: splitFabricWireFrame_def fabricWireMaximumFrameSize_def fabricWireMaximumFragments_def
      sample_split_def chunks_Nil chunks_Cons)

theorem reassembles_in_any_order_witness:
  "\<exists>r'. absorb_all newWireReassembler (map (\<lambda>(now, i). (now, fragment_header 7 1 sample_split i, sample_split ! i))
     [(0, 2), (5, 0), (9, 1)]) = Some (r', [[1, 2, 3, 4, 5]])"
proof -
  have "snd ` set [(0::int, 2), (5, 0), (9, 1)] = {0..<length sample_split}"
    by (auto simp: sample_split_def)
  with reassembles_in_any_order [OF sample_split_ok newWireReassembler_wf, of 1 "[(0, 2), (5, 0), (9, 1)]" 7]
  show ?thesis by (auto simp: newWireReassembler_def fabricWireReassemblyExpiry_def)
qed

text \<open>
  Loss stays loss: while a fragment of a frame is missing, no frame is handed out, in whatever
  order the others arrive.
\<close>

theorem missing_fragment_yields_nothing:
  assumes "splitFabricWireFrame frame payloadSize = Inr fs"
    and "reassembler_wf r" "map_of (ra_pending r) k = None"
    and "distinct (map snd order)" "snd ` set order \<subset> {0..<length fs}"
    and "\<forall>(now, i) \<in> set order. now - fst (hd order) \<le> fabricWireReassemblyExpiry"
  shows "\<exists>r'. absorb_all r (map (\<lambda>(now, i). (now, fragment_header l k fs i, fs ! i)) order) = Some (r', [])"
proof -
  note fits = splitFabricWireFrame_fits [OF assms(1)]
  have flight: "in_flight r k (fst (hd order)) fs {}" using assms(2,3) by (simp add: in_flight_def)
  have "\<exists>r'. absorb_all r (map (\<lambda>(now, i). (now, fragment_header l k fs i, fs ! i)) order) = Some (r', []) \<and>
      in_flight r' k (fst (hd order)) fs (snd ` set order \<union> {})"
    using assms(4-6) by (intro absorb_all_gap [OF fits(1) flight]) simp_all
  then show ?thesis by blast
qed

theorem missing_fragment_yields_nothing_witness:
  "\<exists>r'. absorb_all newWireReassembler (map (\<lambda>(now, i). (now, fragment_header 7 1 sample_split i, sample_split ! i))
     [(0, 2), (5, 0)]) = Some (r', [])"
proof -
  have "1 \<in> {0..<length sample_split}" "1 \<notin> snd ` set [(0::int, 2::nat), (5, 0)]"
    "snd ` set [(0::int, 2), (5, 0)] \<subseteq> {0..<length sample_split}"
    by (auto simp: sample_split_def)
  then have "snd ` set [(0::int, 2), (5, 0)] \<subset> {0..<length sample_split}" by blast
  with missing_fragment_yields_nothing [OF sample_split_ok newWireReassembler_wf, of 1 "[(0, 2), (5, 0)]" 7]
  show ?thesis by (auto simp: newWireReassembler_def fabricWireReassemblyExpiry_def)
qed

end
