(* ===== verification/Fabric_Wire.thy ===== *)
theory Fabric_Wire
  imports Wire_Reassembly
begin

text \<open>
  The fabric wire endpoint of one sidecar (\<open>src/internal/directruntime/wire_linux.go\<close>): registered
  links, peer sessions, the carrier state machine, transmission and reception of frames and the
  periodic tick. Every method that runs under the endpoint's mutex is one step on its state.
\<close>

section \<open>Definitions\<close>

text \<open>\<open>netip.Addr\<close>: the zero value, an IPv4 or an IPv6 address with its zone.\<close>

datatype netip_addr = AddrInvalid | Addr4 "32 word" | Addr6 "128 word" string

fun IsValid :: "netip_addr \<Rightarrow> bool" where
  "IsValid AddrInvalid = False"
| "IsValid _ = True"

fun Unmap :: "netip_addr \<Rightarrow> netip_addr" where
  "Unmap (Addr6 a zone) = (if drop_bit 32 a = 0xFFFF then Addr4 (ucast a) else Addr6 a zone)"
| "Unmap a = a"

definition fabricWireSessionTimeout :: int where
  "fabricWireSessionTimeout = 3 * 1000000000 + 500 * 1000000"
definition fabricWireResolveInterval :: int where "fabricWireResolveInterval = 2 * 1000000000"
definition fabricWireFrameHeadroom :: int where "fabricWireFrameHeadroom = 22"
definition fabricWireCarrierSettleWindow :: int where "fabricWireCarrierSettleWindow = 500 * 1000000"

record fabricWireLinkSpec =
  sp_link_id :: "32 word"
  sp_owner :: string
  sp_leg_name :: string
  sp_peer_transport :: string
  sp_peer_address :: netip_addr
  sp_mtu :: int

record fabricWireLinkCounters =
  ct_tx_frames :: "64 word"
  ct_tx_fragments :: "64 word"
  ct_rx_frames :: "64 word"
  ct_rx_fragments :: "64 word"
  ct_drop_expiry :: "64 word"
  ct_drop_memory_cap :: "64 word"
  ct_drop_geometry :: "64 word"
  ct_drop_oversize :: "64 word"
  ct_drop_stale_generation :: "64 word"
  ct_drop_foreign_source :: "64 word"
  ct_drop_unresolved_peer :: "64 word"
  ct_drop_send_full :: "64 word"
  ct_drop_inject :: "64 word"

definition zero_counters :: fabricWireLinkCounters where
  "zero_counters = \<lparr> ct_tx_frames = 0, ct_tx_fragments = 0, ct_rx_frames = 0, ct_rx_fragments = 0,
     ct_drop_expiry = 0, ct_drop_memory_cap = 0, ct_drop_geometry = 0, ct_drop_oversize = 0,
     ct_drop_stale_generation = 0, ct_drop_foreign_source = 0, ct_drop_unresolved_peer = 0,
     ct_drop_send_full = 0, ct_drop_inject = 0 \<rparr>"

text \<open>\<open>wl_stopped\<close> says that the stop channel of the link's capture pump is closed.\<close>

record fabricWireLink =
  wl_link_id :: "32 word"
  wl_owner :: string
  wl_leg_name :: string
  wl_leg_index :: int
  wl_packet_fd :: int
  wl_peer_transport :: string
  wl_peer_addr :: netip_addr
  wl_mtu :: int
  wl_last_local_up :: bool
  wl_remote_oper_up :: bool
  wl_forced_down :: bool
  wl_settle_until :: int
  wl_frame_id :: "32 word"
  wl_reassembler :: wireReassembler
  wl_counters :: fabricWireLinkCounters
  wl_reported :: fabricWireLinkCounters
  wl_resolve_in_flight :: bool
  wl_last_resolve :: int
  wl_stopped :: bool

record fabricWireSession =
  ss_remote :: netip_addr
  ss_generation :: "64 word"
  ss_generation_known :: bool
  ss_last_heard :: int
  ss_up :: bool

datatype wire_event =
    LegSetDown int
  | LegSetUp int
  | Sent netip_addr "byte list list"
  | Injected int "byte list"

record fabricWire =
  fw_local_address :: netip_addr
  fw_fragment_payload :: int
  fw_generation :: "64 word"
  fw_links :: "(32 word, fabricWireLink) gomap"
  fw_by_leg :: "(int, 32 word) gomap"
  fw_sessions :: "(netip_addr, fabricWireSession) gomap"
  fw_closed :: bool
  fw_events :: "wire_event list"

text \<open>
  What the kernel answers during one step: leg lookups, socket opens, administrative changes, oper
  state samples, datagrams accepted and whether the send failed, injections, and the clock.
\<close>

record wire_env =
  we_leg_by_name :: "string \<Rightarrow> (int \<times> bool) option"
  we_open_capture :: "int \<Rightarrow> int option"
  we_leg_exists :: "int \<Rightarrow> bool"
  we_set_down :: "int \<Rightarrow> bool"
  we_set_up :: "int \<Rightarrow> bool"
  we_leg_oper_up :: "int \<Rightarrow> bool option"
  we_send :: "netip_addr \<Rightarrow> byte list list \<Rightarrow> nat \<times> bool"
  we_inject :: "int \<Rightarrow> byte list \<Rightarrow> bool"
  we_now :: int

definition emit :: "fabricWire \<Rightarrow> wire_event list \<Rightarrow> fabricWire" where
  "emit w evs = w\<lparr> fw_events := fw_events w @ evs \<rparr>"

definition put_link :: "fabricWire \<Rightarrow> fabricWireLink \<Rightarrow> fabricWire" where
  "put_link w l = w\<lparr> fw_links := AList.update (wl_link_id l) l (fw_links w) \<rparr>"

text \<open>A loop over all links that changes each on its own and emits events.\<close>

definition each_link :: "(fabricWireLink \<Rightarrow> fabricWireLink \<times> wire_event list) \<Rightarrow> fabricWire \<Rightarrow> fabricWire" where
  "each_link f w = w\<lparr> fw_links := map (\<lambda>(k, l). (k, fst (f l))) (fw_links w),
     fw_events := fw_events w @ concat (map (\<lambda>(k, l). snd (f l)) (fw_links w)) \<rparr>"

fun note_drop :: "fabricWireLinkCounters \<Rightarrow> fabricWireDropCause \<Rightarrow> fabricWireLinkCounters" where
  "note_drop c fabricWireDropNone = c"
| "note_drop c fabricWireDropExpiry = c\<lparr> ct_drop_expiry := ct_drop_expiry c + 1 \<rparr>"
| "note_drop c fabricWireDropMemoryCap = c\<lparr> ct_drop_memory_cap := ct_drop_memory_cap c + 1 \<rparr>"
| "note_drop c fabricWireDropGeometry = c\<lparr> ct_drop_geometry := ct_drop_geometry c + 1 \<rparr>"
| "note_drop c fabricWireDropOversize = c\<lparr> ct_drop_oversize := ct_drop_oversize c + 1 \<rparr>"

text \<open>
  A reassembler calls the link's counters for every drop: its recorded drops are folded into the
  counters after each operation.
\<close>

definition set_reassembler :: "fabricWireLink \<Rightarrow> wireReassembler \<Rightarrow> fabricWireLink" where
  "set_reassembler l r = l\<lparr> wl_reassembler := r\<lparr> ra_drops := [] \<rparr>,
     wl_counters := foldl note_drop (wl_counters l) (ra_drops r) \<rparr>"

definition sessionReferencedLocked :: "fabricWire \<Rightarrow> netip_addr \<Rightarrow> bool" where
  "sessionReferencedLocked w remote \<longleftrightarrow> (\<exists>(_, l) \<in> set (fw_links w). wl_peer_addr l = remote)"

definition remote_up :: "(netip_addr, fabricWireSession) gomap \<Rightarrow> fabricWireLink \<Rightarrow> bool" where
  "remote_up sessions l =
     (case map_of sessions (wl_peer_addr l) of
        None \<Rightarrow> False
      | Some session \<Rightarrow> ss_up session \<and> wl_remote_oper_up l)"

definition applyLinkCarrierLocked :: "wire_env \<Rightarrow> (netip_addr, fabricWireSession) gomap \<Rightarrow> fabricWireLink
    \<Rightarrow> fabricWireLink \<times> wire_event list" where
  "applyLinkCarrierLocked env sessions l =
     (let desired = (wl_last_local_up l \<and> \<not> remote_up sessions l) in
      if desired = wl_forced_down l then (l, [])
      else let l = l\<lparr> wl_forced_down := desired \<rparr>; leg = wl_leg_index l in
           if \<not> we_leg_exists env leg then (l, [])
           else if desired then (l, if we_set_down env leg then [LegSetDown leg] else [])
           else if we_set_up env leg
           then (l\<lparr> wl_settle_until := we_now env + fabricWireCarrierSettleWindow \<rparr>, [LegSetUp leg])
           else (l, []))"

definition applyPeerCarrierLocked :: "wire_env \<Rightarrow> fabricWire \<Rightarrow> netip_addr \<Rightarrow> fabricWire" where
  "applyPeerCarrierLocked env w source =
     each_link (\<lambda>l. if wl_peer_addr l = source then applyLinkCarrierLocked env (fw_sessions w) l else (l, [])) w"

definition resetPeerLinksLocked :: "fabricWire \<Rightarrow> netip_addr \<Rightarrow> fabricWire" where
  "resetPeerLinksLocked w source =
     each_link (\<lambda>l. (if wl_peer_addr l = source
       then l\<lparr> wl_reassembler := newWireReassembler, wl_remote_oper_up := False \<rparr> else l, [])) w"

text \<open>\<open>refreshSessionLocked\<close>: \<open>None\<close> for a datagram that is not accepted into a session.\<close>

definition refreshSessionLocked :: "fabricWire \<Rightarrow> int \<Rightarrow> netip_addr \<Rightarrow> 64 word \<Rightarrow> fabricWire option" where
  "refreshSessionLocked w now source generation =
     (case (case map_of (fw_sessions w) source of
              Some s \<Rightarrow> Some s
            | None \<Rightarrow> if \<not> sessionReferencedLocked w source then None
                      else Some \<lparr> ss_remote = source, ss_generation = 0, ss_generation_known = False,
                                  ss_last_heard = 0, ss_up = False \<rparr>) of
        None \<Rightarrow> None
      | Some session \<Rightarrow>
          let changed = (ss_generation_known session \<and> ss_generation session \<noteq> generation) in
          if changed \<and> generation < ss_generation session \<and>
             now - ss_last_heard session \<le> fabricWireSessionTimeout
          then None
          else let w = (if changed then resetPeerLinksLocked w source else w);
                   session = session\<lparr> ss_generation := generation, ss_generation_known := True,
                                      ss_last_heard := now, ss_up := True \<rparr>
               in Some (w\<lparr> fw_sessions := AList.update source session (fw_sessions w) \<rparr>))"
datatype wire_setup_error =
    RegistrationIncomplete
  | LegUnreadable string
  | WireClosed
  | CaptureFailed int

text \<open>Closing a stop channel twice panics; such a call has no state afterwards.\<close>

datatype ensure_outcome =
    EnsurePanic
  | EnsureFailed wire_setup_error fabricWire
  | EnsureDone fabricWire

definition new_wire_link :: "wire_env \<Rightarrow> 32 word \<Rightarrow> int \<Rightarrow> int \<Rightarrow> bool \<Rightarrow> fabricWireLink" where
  "new_wire_link env linkID legIndex packetFD legOperUp =
     \<lparr> wl_link_id = linkID, wl_owner = '''', wl_leg_name = '''', wl_leg_index = legIndex,
       wl_packet_fd = packetFD, wl_peer_transport = '''', wl_peer_addr = AddrInvalid, wl_mtu = 0,
       wl_last_local_up = legOperUp, wl_remote_oper_up = False, wl_forced_down = False,
       wl_settle_until = we_now env + fabricWireCarrierSettleWindow, wl_frame_id = 0,
       wl_reassembler = newWireReassembler, wl_counters = zero_counters, wl_reported = zero_counters,
       wl_resolve_in_flight = False, wl_last_resolve = 0, wl_stopped = False \<rparr>"

text \<open>
  The last part of \<open>EnsureLink\<close>: take over the registration, re-evaluate the carrier and store the
  link.
\<close>

definition take_registration :: "fabricWireLinkSpec \<Rightarrow> fabricWireLink \<Rightarrow> fabricWireLink" where
  "take_registration spec l =
     (let l = l\<lparr> wl_owner := sp_owner spec, wl_leg_name := sp_leg_name spec,
                 wl_peer_transport := sp_peer_transport spec, wl_mtu := sp_mtu spec \<rparr>
      in if IsValid (sp_peer_address spec) \<and> sp_peer_address spec \<noteq> wl_peer_addr l
         then l\<lparr> wl_peer_addr := Unmap (sp_peer_address spec) \<rparr> else l)"

definition register_link :: "wire_env \<Rightarrow> fabricWire \<Rightarrow> fabricWireLinkSpec \<Rightarrow> fabricWireLink \<Rightarrow> fabricWire" where
  "register_link env w spec l =
     (case applyLinkCarrierLocked env (fw_sessions w) (take_registration spec l) of
        (l', evs) \<Rightarrow> emit (put_link w l') evs)"

definition EnsureLink :: "wire_env \<Rightarrow> fabricWire \<Rightarrow> fabricWireLinkSpec \<Rightarrow> ensure_outcome" where
  "EnsureLink env w spec =
     (if sp_link_id spec = 0 \<or> sp_leg_name spec = '''' \<or> sp_owner spec = '''' \<or> sp_mtu spec < 1
      then EnsureFailed RegistrationIncomplete w
      else case we_leg_by_name env (sp_leg_name spec) of
        None \<Rightarrow> EnsureFailed (LegUnreadable (sp_leg_name spec)) w
      | Some (legIndex, legOperUp) \<Rightarrow>
          if fw_closed w then EnsureFailed WireClosed w
          else case map_of (fw_links w) (sp_link_id spec) of
            None \<Rightarrow>
              (case we_open_capture env legIndex of
                 None \<Rightarrow> EnsureFailed (CaptureFailed legIndex) w
               | Some packetFD \<Rightarrow>
                   let l = new_wire_link env (sp_link_id spec) legIndex packetFD legOperUp;
                       w = w\<lparr> fw_by_leg := AList.update legIndex (sp_link_id spec) (fw_by_leg w) \<rparr>
                   in EnsureDone (register_link env w spec l))
          | Some l \<Rightarrow>
              if wl_leg_index l \<noteq> legIndex
              then if wl_stopped l then EnsurePanic
                   else let w = w\<lparr> fw_by_leg := AList.delete (wl_leg_index l) (fw_by_leg w) \<rparr>;
                            l = l\<lparr> wl_stopped := True \<rparr>
                        in (case we_open_capture env legIndex of
                              None \<Rightarrow> EnsureFailed (CaptureFailed legIndex) (put_link w l)
                            | Some packetFD \<Rightarrow>
                                let l = l\<lparr> wl_leg_index := legIndex, wl_packet_fd := packetFD,
                                           wl_stopped := False, wl_forced_down := False,
                                           wl_last_local_up := legOperUp,
                                           wl_settle_until := we_now env + fabricWireCarrierSettleWindow \<rparr>;
                                    w = w\<lparr> fw_by_leg := AList.update legIndex (sp_link_id spec) (fw_by_leg w) \<rparr>
                                in EnsureDone (register_link env w spec l))
              else EnsureDone (register_link env w spec l))"

definition sweep_keeps :: "string \<Rightarrow> string list \<Rightarrow> fabricWireLink \<Rightarrow> bool" where
  "sweep_keeps ownerPrefix keepOwners l \<longleftrightarrow>
     wl_owner l \<in> set keepOwners \<or> \<not> has_prefix (wl_owner l) ownerPrefix"

definition SweepLinks :: "wire_env \<Rightarrow> fabricWire \<Rightarrow> string \<Rightarrow> string list \<Rightarrow> fabricWire option" where
  "SweepLinks env w ownerPrefix keepOwners =
     (let gone = filter (\<lambda>(_, l). \<not> sweep_keeps ownerPrefix keepOwners l) (fw_links w) in
      if \<exists>(_, l) \<in> set gone. wl_stopped l then None
      else let w = w\<lparr> fw_links := filter (\<lambda>(_, l). sweep_keeps ownerPrefix keepOwners l) (fw_links w),
                      fw_by_leg := foldl (\<lambda>m (_, l). AList.delete (wl_leg_index l) m) (fw_by_leg w) gone \<rparr>
           in Some (w\<lparr> fw_sessions := filter (\<lambda>(remote, s). sessionReferencedLocked w remote \<or>
                \<not> we_now env - ss_last_heard s > fabricWireSessionTimeout) (fw_sessions w) \<rparr>))"

definition ForcesLegDown :: "fabricWire \<Rightarrow> 32 word \<Rightarrow> bool \<times> bool" where
  "ForcesLegDown w linkID =
     (case map_of (fw_links w) linkID of None \<Rightarrow> (False, False) | Some l \<Rightarrow> (True, wl_forced_down l))"

definition Close_wire :: "fabricWire \<Rightarrow> fabricWire option" where
  "Close_wire w =
     (if fw_closed w then Some w
      else if \<exists>(_, l) \<in> set (fw_links w). wl_stopped l then None
      else Some (w\<lparr> fw_closed := True, fw_links := map (\<lambda>(k, l). (k, l\<lparr> wl_stopped := True \<rparr>)) (fw_links w) \<rparr>))"

text \<open>
  The part of \<open>captureLoop\<close> between the read and the transmission: a tag the kernel stripped is put
  back after the MAC addresses.
\<close>

definition vlanEthernetHeaderPrefix :: nat where "vlanEthernetHeaderPrefix = 12"

definition reinsert_vlan_tag :: "(16 word \<times> 16 word) option \<Rightarrow> byte list \<Rightarrow> byte list" where
  "reinsert_vlan_tag tag frame =
     (case tag of
        Some (tpid, tci) \<Rightarrow>
          if length frame \<ge> vlanEthernetHeaderPrefix
          then take vlanEthernetHeaderPrefix frame @ put_uint16 tpid @ put_uint16 tci @
               drop vlanEthernetHeaderPrefix frame
          else frame
      | None \<Rightarrow> frame)"

definition frame_datagrams :: "64 word \<Rightarrow> 32 word \<Rightarrow> 32 word \<Rightarrow> byte list \<Rightarrow> byte list list \<Rightarrow> byte list list" where
  "frame_datagrams generation linkID frameID frame fragments =
     map (\<lambda>index. encodeFabricWireFragment generation
            \<lparr> wd_link_id = linkID, wd_frame_id = frameID, wd_frag_index = of_nat index,
              wd_frag_count = of_nat (length fragments), wd_total_length = of_nat (length frame) \<rparr>
            (fragments ! index)) [0..<length fragments]"

text \<open>\<open>transmitFrame\<close>, called by the pump of the registered link with the given id.\<close>

definition transmit_on :: "wire_env \<Rightarrow> fabricWire \<Rightarrow> fabricWireLink \<Rightarrow> byte list \<Rightarrow> fabricWire" where
  "transmit_on env w l frame =
     (let peer = wl_peer_addr l; c = wl_counters l in
      if \<not> IsValid peer
      then put_link w (l\<lparr> wl_counters := c\<lparr> ct_drop_unresolved_peer := ct_drop_unresolved_peer c + 1 \<rparr> \<rparr>)
      else let l = l\<lparr> wl_frame_id := wl_frame_id l + 1 \<rparr> in
           case splitFabricWireFrame frame (fw_fragment_payload w) of
             Inl e \<Rightarrow> put_link w (l\<lparr> wl_counters := c\<lparr> ct_drop_oversize := ct_drop_oversize c + 1 \<rparr> \<rparr>)
           | Inr fragments \<Rightarrow>
               let datagrams = frame_datagrams (fw_generation w) (wl_link_id l) (wl_frame_id l) frame fragments;
                   (sent, failed) = we_send env peer datagrams;
                   c = c\<lparr> ct_tx_fragments := ct_tx_fragments c + of_nat sent \<rparr>;
                   c = (if failed \<or> sent < length datagrams
                        then c\<lparr> ct_drop_send_full := ct_drop_send_full c + 1 \<rparr>
                        else c\<lparr> ct_tx_frames := ct_tx_frames c + 1 \<rparr>)
               in emit (put_link w (l\<lparr> wl_counters := c \<rparr>)) [Sent peer datagrams])"

definition transmitFrame :: "wire_env \<Rightarrow> fabricWire \<Rightarrow> 32 word \<Rightarrow> byte list \<Rightarrow> fabricWire" where
  "transmitFrame env w linkID frame =
     (case map_of (fw_links w) linkID of None \<Rightarrow> w | Some l \<Rightarrow> transmit_on env w l frame)"

text \<open>
  The last part of \<open>handleData\<close>, for a fragment accepted into its session: absorb it and inject the
  frame it completes.
\<close>

definition deliver_fragment :: "wire_env \<Rightarrow> fabricWire \<Rightarrow> int \<Rightarrow> fabricWireLink \<Rightarrow> fabricWireDataHeader
    \<Rightarrow> byte list \<Rightarrow> fabricWire option" where
  "deliver_fragment env w now l header payload =
     (let l = l\<lparr> wl_counters := (wl_counters l)\<lparr> ct_rx_fragments := ct_rx_fragments (wl_counters l) + 1 \<rparr> \<rparr> in
      case absorb (wl_reassembler l) now header payload of
        None \<Rightarrow> None
      | Some (r, out) \<Rightarrow>
          let l = set_reassembler l r; c = wl_counters l in
          (case out of
             None \<Rightarrow> Some (put_link w l)
           | Some frame \<Rightarrow>
               if int (length frame) > wl_mtu l + fabricWireFrameHeadroom
               then Some (put_link w (l\<lparr> wl_counters := c\<lparr> ct_drop_oversize := ct_drop_oversize c + 1 \<rparr> \<rparr>))
               else let c = c\<lparr> ct_rx_frames := ct_rx_frames c + 1 \<rparr>;
                        c = (if we_inject env (wl_packet_fd l) frame then c
                             else c\<lparr> ct_drop_inject := ct_drop_inject c + 1 \<rparr>)
                    in Some (emit (put_link w (l\<lparr> wl_counters := c \<rparr>)) [Injected (wl_packet_fd l) frame])))"

definition handleData :: "wire_env \<Rightarrow> fabricWire \<Rightarrow> int \<Rightarrow> netip_addr \<Rightarrow> 64 word \<Rightarrow> fabricWireDataHeader
    \<Rightarrow> byte list \<Rightarrow> fabricWire option" where
  "handleData env w now source generation header payload =
     (case map_of (fw_links w) (wd_link_id header) of
        None \<Rightarrow> Some w
      | Some l \<Rightarrow>
          let c = wl_counters l in
          if wl_peer_addr l \<noteq> source
          then Some (put_link w (l\<lparr> wl_counters := c\<lparr> ct_drop_foreign_source := ct_drop_foreign_source c + 1 \<rparr> \<rparr>))
          else case refreshSessionLocked w now source generation of
            None \<Rightarrow>
              Some (put_link w (l\<lparr> wl_counters := c\<lparr> ct_drop_stale_generation := ct_drop_stale_generation c + 1 \<rparr> \<rparr>))
          | Some w1 \<Rightarrow>
              let w2 = applyPeerCarrierLocked env w1 source in
              (case map_of (fw_links w2) (wd_link_id header) of
                 None \<Rightarrow> Some w2
               | Some l2 \<Rightarrow> deliver_fragment env w2 now l2 header payload))"

definition adopt_remote_state :: "netip_addr \<Rightarrow> fabricWire \<Rightarrow> fabricWireLinkState \<Rightarrow> fabricWire" where
  "adopt_remote_state source w st =
     (case map_of (fw_links w) (wls_link_id st) of
        None \<Rightarrow> w
      | Some l \<Rightarrow> if wl_peer_addr l \<noteq> source then w
                  else put_link w (l\<lparr> wl_remote_oper_up := wls_oper_up st \<rparr>))"

definition handleLinkStates :: "wire_env \<Rightarrow> fabricWire \<Rightarrow> int \<Rightarrow> netip_addr \<Rightarrow> 64 word
    \<Rightarrow> fabricWireLinkState list \<Rightarrow> fabricWire" where
  "handleLinkStates env w now source generation states =
     (case refreshSessionLocked w now source generation of
        None \<Rightarrow> w
      | Some w1 \<Rightarrow> applyPeerCarrierLocked env (foldl (adopt_remote_state source) w1 states) source)"

definition handleDatagram :: "wire_env \<Rightarrow> fabricWire \<Rightarrow> int \<Rightarrow> netip_addr \<Rightarrow> byte list \<Rightarrow> fabricWire option" where
  "handleDatagram env w now source datagram =
     (case parseFabricWireHeader datagram of
        Inl e \<Rightarrow> Some w
      | Inr (header, body) \<Rightarrow>
          if wh_msg_type header = fabricWireMsgData
          then (case parseFabricWireDataHeader body of
                  Inl e \<Rightarrow> Some w
                | Inr (dataHeader, payload) \<Rightarrow>
                    handleData env w now source (wh_generation header) dataHeader payload)
          else if wh_msg_type header = fabricWireMsgLinkState
          then (case parseFabricWireLinkStates body of
                  Inl e \<Rightarrow> Some w
                | Inr states \<Rightarrow> Some (handleLinkStates env w now source (wh_generation header) states))
          else if wh_msg_type header = fabricWireMsgHeartbeat
          then (case refreshSessionLocked w now source (wh_generation header) of
                  None \<Rightarrow> Some w
                | Some w1 \<Rightarrow> Some (applyPeerCarrierLocked env w1 source))
          else Some w)"

definition advertiseLinkLocked :: "64 word \<Rightarrow> fabricWireLink \<Rightarrow> wire_event list" where
  "advertiseLinkLocked generation l =
     (if \<not> IsValid (wl_peer_addr l) then []
      else [Sent (wl_peer_addr l) [encodeFabricWireLinkStates generation
              [\<lparr> wls_link_id = wl_link_id l, wls_oper_up = wl_last_local_up l \<rparr>]]])"

definition observeLegStateLocked :: "wire_env \<Rightarrow> fabricWire \<Rightarrow> fabricWireLink \<Rightarrow> bool
    \<Rightarrow> fabricWireLink \<times> wire_event list" where
  "observeLegStateLocked env w l operUp =
     (if wl_forced_down l \<or> wl_last_local_up l = operUp then (l, [])
      else if \<not> operUp \<and> we_now env < wl_settle_until l then (l, [])
      else let (l, evs) = applyLinkCarrierLocked env (fw_sessions w) (l\<lparr> wl_last_local_up := operUp \<rparr>)
           in (l, evs @ advertiseLinkLocked (fw_generation w) l))"

text \<open>One netlink update of \<open>watchLinks\<close>: the interface index and its oper state.\<close>

definition watch_update :: "wire_env \<Rightarrow> fabricWire \<Rightarrow> int \<Rightarrow> bool \<Rightarrow> fabricWire" where
  "watch_update env w legIndex operUp =
     (case map_of (fw_by_leg w) legIndex of
        None \<Rightarrow> w
      | Some linkID \<Rightarrow>
          (case map_of (fw_links w) linkID of
             None \<Rightarrow> w
           | Some l \<Rightarrow> (case observeLegStateLocked env w l operUp of (l', evs) \<Rightarrow> emit (put_link w l') evs)))"

text \<open>The three passes of \<open>tick\<close> under the mutex.\<close>

definition sample_legs :: "wire_env \<Rightarrow> fabricWire \<Rightarrow> fabricWire" where
  "sample_legs env w =
     each_link (\<lambda>l. if wl_forced_down l then (l, [])
                    else case we_leg_oper_up env (wl_leg_index l) of
                           None \<Rightarrow> (l, [])
                         | Some operUp \<Rightarrow> observeLegStateLocked env w l operUp) w"

definition expire_session :: "wire_env \<Rightarrow> int \<Rightarrow> fabricWire \<Rightarrow> netip_addr \<Rightarrow> fabricWire" where
  "expire_session env now w addr =
     (case map_of (fw_sessions w) addr of
        None \<Rightarrow> w
      | Some s \<Rightarrow>
          if ss_up s \<and> now - ss_last_heard s > fabricWireSessionTimeout
          then applyPeerCarrierLocked env
                 (w\<lparr> fw_sessions := AList.update addr (s\<lparr> ss_up := False, ss_generation_known := False \<rparr>)
                        (fw_sessions w) \<rparr>) (ss_remote s)
          else w)"

definition expire_sessions :: "wire_env \<Rightarrow> int \<Rightarrow> fabricWire \<Rightarrow> fabricWire" where
  "expire_sessions env now w = foldl (expire_session env now) w (map fst (fw_sessions w))"

definition session_silent :: "fabricWire \<Rightarrow> fabricWireLink \<Rightarrow> bool" where
  "session_silent w l =
     (case map_of (fw_sessions w) (wl_peer_addr l) of None \<Rightarrow> True | Some s \<Rightarrow> \<not> ss_up s)"

definition needs_resolve :: "fabricWire \<Rightarrow> int \<Rightarrow> fabricWireLink \<Rightarrow> bool" where
  "needs_resolve w now l \<longleftrightarrow>
     (\<not> IsValid (wl_peer_addr l) \<or> session_silent w l) \<and> wl_peer_transport l \<noteq> '''' \<and>
     \<not> wl_resolve_in_flight l \<and> now - wl_last_resolve l \<ge> fabricWireResolveInterval"

definition tick_link :: "fabricWire \<Rightarrow> int \<Rightarrow> fabricWireLink \<Rightarrow> fabricWireLink" where
  "tick_link w now l =
     (let l = set_reassembler l (expire (wl_reassembler l) now) in
      if needs_resolve w now l then l\<lparr> wl_resolve_in_flight := True, wl_last_resolve := now \<rparr> else l)"

definition peer_states :: "fabricWire \<Rightarrow> (netip_addr, fabricWireLinkState list) gomap" where
  "peer_states w =
     foldl (\<lambda>states (_, l).
       if IsValid (wl_peer_addr l)
       then let old = (case map_of states (wl_peer_addr l) of None \<Rightarrow> [] | Some xs \<Rightarrow> xs) in
            AList.update (wl_peer_addr l)
              (old @ [\<lparr> wls_link_id = wl_link_id l, wls_oper_up = wl_last_local_up l \<rparr>]) states
       else states) [] (fw_links w)"

text \<open>\<open>tick\<close>: the endpoint afterwards and the links whose peers are to be resolved.\<close>

definition tick :: "wire_env \<Rightarrow> fabricWire \<Rightarrow> int \<Rightarrow> fabricWire \<times> 32 word list" where
  "tick env w now =
     (let w1 = expire_sessions env now (sample_legs env w);
          resolves = map fst (filter (\<lambda>(_, l). needs_resolve w1 now l) (fw_links w1));
          w2 = each_link (\<lambda>l. (tick_link w1 now l, [])) w1;
          sends = map (\<lambda>(peer, states). Sent peer [encodeFabricWireHeartbeat (fw_generation w2),
                         encodeFabricWireLinkStates (fw_generation w2) states]) (peer_states w2)
      in (emit w2 sends, resolves))"

definition adoptPeerAddress :: "wire_env \<Rightarrow> fabricWire \<Rightarrow> 32 word \<Rightarrow> netip_addr \<Rightarrow> fabricWire" where
  "adoptPeerAddress env w linkID address =
     (case map_of (fw_links w) linkID of
        None \<Rightarrow> w
      | Some l \<Rightarrow>
          if \<not> IsValid address \<or> wl_peer_addr l = address then w
          else (case applyLinkCarrierLocked env (fw_sessions w)
                       (l\<lparr> wl_peer_addr := address, wl_remote_oper_up := False \<rparr>) of
                  (l', evs) \<Rightarrow> emit (put_link w l') evs))"

text \<open>
  \<open>resolvePeer\<close>: the transport parsed as an address or looked up; \<open>None\<close> when neither gives one. The
  in-flight mark is cleared in either case.
\<close>

definition resolvePeer :: "wire_env \<Rightarrow> fabricWire \<Rightarrow> 32 word \<Rightarrow> netip_addr option \<Rightarrow> fabricWire" where
  "resolvePeer env w linkID resolved =
     (let w1 = (case resolved of None \<Rightarrow> w | Some a \<Rightarrow> adoptPeerAddress env w linkID (Unmap a)) in
      case map_of (fw_links w1) linkID of
        None \<Rightarrow> w1
      | Some l \<Rightarrow> put_link w1 (l\<lparr> wl_resolve_in_flight := False \<rparr>))"

definition drop_total :: "fabricWireLinkCounters \<Rightarrow> 64 word" where
  "drop_total c = ct_drop_expiry c + ct_drop_memory_cap c + ct_drop_geometry c + ct_drop_oversize c +
     ct_drop_stale_generation c + ct_drop_foreign_source c + ct_drop_unresolved_peer c +
     ct_drop_send_full c + ct_drop_inject c"

definition reportCounters :: "fabricWire \<Rightarrow> fabricWire" where
  "reportCounters w =
     each_link (\<lambda>l. (if drop_total (wl_counters l) - drop_total (wl_reported l) = 0 then l
                     else l\<lparr> wl_reported := wl_counters l \<rparr>, [])) w"

definition Is4 :: "netip_addr \<Rightarrow> bool" where
  "Is4 a = (case a of Addr4 _ \<Rightarrow> True | _ \<Rightarrow> False)"

text \<open>\<open>newFabricWire\<close>, given whether the socket could be opened and bound.\<close>

definition newFabricWire :: "bool \<Rightarrow> netip_addr \<Rightarrow> int \<Rightarrow> 64 word \<Rightarrow> fabricWire option" where
  "newFabricWire socketReady address payload generation =
     (if \<not> Is4 address \<or> payload < 1 \<or> \<not> socketReady then None
      else Some \<lparr> fw_local_address = address, fw_fragment_payload = payload,
        fw_generation = generation, fw_links = [], fw_by_leg = [], fw_sessions = [], fw_closed = False,
        fw_events = [] \<rparr>)"

section \<open>The step relation\<close>

text \<open>
  The goroutines of an endpoint interleave at the mutex: any of these steps may come next, with any
  answers of the kernel and any clock.
\<close>

inductive wire_step :: "fabricWire \<Rightarrow> fabricWire \<Rightarrow> bool" where
  ensure: "EnsureLink env w spec = EnsureDone w' \<Longrightarrow> wire_step w w'"
| ensure_failed: "EnsureLink env w spec = EnsureFailed e w' \<Longrightarrow> wire_step w w'"
| sweep: "SweepLinks env w prefix keep = Some w' \<Longrightarrow> wire_step w w'"
| close: "Close_wire w = Some w' \<Longrightarrow> wire_step w w'"
| transmit: "wire_step w (transmitFrame env w linkID frame)"
| receive: "handleDatagram env w now source datagram = Some w' \<Longrightarrow> wire_step w w'"
| watch: "wire_step w (watch_update env w legIndex operUp)"
| ticked: "tick env w now = (w', resolves) \<Longrightarrow> wire_step w w'"
| resolved: "wire_step w (resolvePeer env w linkID address)"
| report: "wire_step w (reportCounters w)"

end
