(* ===== verification/Fabric_Carrier.thy ===== *)
theory Fabric_Carrier
  imports Fabric_Wire
begin

text \<open>
  Invariants of the fabric wire endpoint: the carrier state machine holds a leg down exactly while
  the local side is up and the peer is not known to be up, in every reachable state.
\<close>

section \<open>The invariant\<close>

definition link_wf :: "32 word \<Rightarrow> fabricWireLink \<Rightarrow> bool" where
  "link_wf k l \<longleftrightarrow> wl_link_id l = k \<and> reassembler_wf (wl_reassembler l)"

definition carrier_ok :: "(netip_addr, fabricWireSession) gomap \<Rightarrow> fabricWireLink \<Rightarrow> bool" where
  "carrier_ok sessions l \<longleftrightarrow> wl_forced_down l = (wl_last_local_up l \<and> \<not> remote_up sessions l)"

definition wire_wf :: "fabricWire \<Rightarrow> bool" where
  "wire_wf w \<longleftrightarrow> distinct (map fst (fw_links w)) \<and> (\<forall>(k, l) \<in> set (fw_links w). link_wf k l) \<and>
     distinct (map fst (fw_sessions w)) \<and> (\<forall>(a, s) \<in> set (fw_sessions w). ss_remote s = a)"

text \<open>The carrier of every link is right, except possibly of those whose peer address is in \<open>A\<close>.\<close>

definition carriers_ok :: "netip_addr set \<Rightarrow> fabricWire \<Rightarrow> bool" where
  "carriers_ok A w \<longleftrightarrow> (\<forall>(k, l) \<in> set (fw_links w). wl_peer_addr l \<notin> A \<longrightarrow> carrier_ok (fw_sessions w) l)"

definition wire_inv :: "fabricWire \<Rightarrow> bool" where
  "wire_inv w \<longleftrightarrow> wire_wf w \<and> carriers_ok {} w"

lemma remote_up_iff:
  "remote_up ss l \<longleftrightarrow> wl_remote_oper_up l \<and> (\<exists>s. map_of ss (wl_peer_addr l) = Some s \<and> ss_up s)"
  by (auto simp: remote_up_def split: option.split)

lemma wire_inv_lookup:
  assumes "wire_inv w" "map_of (fw_links w) k = Some l"
  shows "link_wf k l" "carrier_ok (fw_sessions w) l" "wl_link_id l = k"
  using assms map_of_SomeD [OF assms(2)] by (auto simp: wire_inv_def wire_wf_def carriers_ok_def link_wf_def)

section \<open>Building blocks\<close>

lemma emit_simps [simp]:
  "fw_links (emit w evs) = fw_links w" "fw_sessions (emit w evs) = fw_sessions w"
  "fw_by_leg (emit w evs) = fw_by_leg w" "fw_generation (emit w evs) = fw_generation w"
  "fw_events (emit w evs) = fw_events w @ evs"
  by (simp_all add: emit_def)

lemma put_link_simps [simp]:
  "fw_links (put_link w l) = AList.update (wl_link_id l) l (fw_links w)"
  "fw_sessions (put_link w l) = fw_sessions w" "fw_generation (put_link w l) = fw_generation w"
  "fw_events (put_link w l) = fw_events w"
  by (simp_all add: put_link_def)

lemma each_link_simps [simp]:
  "fw_links (each_link f w) = map (\<lambda>(k, l). (k, fst (f l))) (fw_links w)"
  "fw_sessions (each_link f w) = fw_sessions w" "fw_generation (each_link f w) = fw_generation w"
  by (simp_all add: each_link_def)

lemma wire_wf_emit [simp]: "wire_wf (emit w evs) = wire_wf w"
  by (simp add: wire_wf_def)

lemma carriers_ok_emit [simp]: "carriers_ok A (emit w evs) = carriers_ok A w"
  by (simp add: carriers_ok_def)

lemma wire_inv_emit [simp]: "wire_inv (emit w evs) = wire_inv w"
  by (simp add: wire_inv_def)

lemma wire_wf_put_link:
  assumes "wire_wf w" "reassembler_wf (wl_reassembler l)"
  shows "wire_wf (put_link w l)"
  using assms set_alist_update [of "wl_link_id l" l "fw_links w"]
  by (auto simp: wire_wf_def link_wf_def distinct_update dest: subsetD)

lemma carriers_ok_put_link:
  assumes "carriers_ok A w" "wl_peer_addr l \<in> A \<or> carrier_ok (fw_sessions w) l"
  shows "carriers_ok A (put_link w l)"
  using assms set_alist_update [of "wl_link_id l" l "fw_links w"]
  by (fastforce simp: carriers_ok_def dest: subsetD)

lemma wire_inv_put_link:
  assumes "wire_inv w" "reassembler_wf (wl_reassembler l)" "carrier_ok (fw_sessions w) l"
  shows "wire_inv (put_link w l)"
  using assms by (simp add: wire_inv_def wire_wf_put_link carriers_ok_put_link)

lemma wire_wf_each_link:
  assumes "wire_wf w" "\<And>k l. (k, l) \<in> set (fw_links w) \<Longrightarrow> link_wf k l \<Longrightarrow> link_wf k (fst (f l))"
  shows "wire_wf (each_link f w)"
  using assms by (force simp: wire_wf_def comp_def case_prod_beta)

text \<open>Evaluating the carrier makes it right and touches nothing else but the settle window.\<close>

lemma apply_carrier_fields:
  assumes "applyLinkCarrierLocked env ss l = (l', evs)"
  shows "wl_link_id l' = wl_link_id l" "wl_peer_addr l' = wl_peer_addr l"
    "wl_reassembler l' = wl_reassembler l" "wl_remote_oper_up l' = wl_remote_oper_up l"
    "wl_last_local_up l' = wl_last_local_up l" "wl_counters l' = wl_counters l" "wl_mtu l' = wl_mtu l"
    "wl_packet_fd l' = wl_packet_fd l" "wl_frame_id l' = wl_frame_id l" "wl_stopped l' = wl_stopped l"
    "wl_leg_index l' = wl_leg_index l"
  using assms by (auto simp: applyLinkCarrierLocked_def Let_def split: if_splits)

lemma apply_carrier_ok:
  assumes "applyLinkCarrierLocked env ss l = (l', evs)"
  shows "carrier_ok ss l'"
proof -
  have "remote_up ss l' = remote_up ss l" using apply_carrier_fields [OF assms]
    by (simp add: remote_up_def split: option.split)
  moreover have "wl_forced_down l' = (wl_last_local_up l \<and> \<not> remote_up ss l)"
    using assms by (auto simp: applyLinkCarrierLocked_def Let_def split: if_splits)
  ultimately show ?thesis using apply_carrier_fields [OF assms] by (simp add: carrier_ok_def)
qed

lemma apply_carrier_fst:
  "carrier_ok ss (fst (applyLinkCarrierLocked env ss l))"
  "link_wf k (fst (applyLinkCarrierLocked env ss l)) = link_wf k l"
  "wl_peer_addr (fst (applyLinkCarrierLocked env ss l)) = wl_peer_addr l"
  using apply_carrier_ok [of env ss l] apply_carrier_fields [of env ss l]
  by (auto simp: link_wf_def split: prod.splits) (metis prod.collapse)+

lemma applyPeerCarrier_inv:
  assumes "wire_wf w" "carriers_ok {source} w"
  shows "wire_inv (applyPeerCarrierLocked env w source)"
  unfolding wire_inv_def
proof
  show "wire_wf (applyPeerCarrierLocked env w source)"
    unfolding applyPeerCarrierLocked_def
    by (rule wire_wf_each_link [OF assms(1)]) (simp add: apply_carrier_fst)
  show "carriers_ok {} (applyPeerCarrierLocked env w source)"
    using assms(2) by (auto simp: carriers_ok_def applyPeerCarrierLocked_def apply_carrier_fst)
qed

text \<open>A change of the session at one address leaves the carriers of all other links right.\<close>

lemma remote_up_other:
  "wl_peer_addr l \<noteq> a \<Longrightarrow> remote_up (AList.update a s ss) l = remote_up ss l"
  by (simp add: remote_up_def update_conv)

lemma session_update_wf:
  assumes "wire_wf w" "ss_remote s = a"
  shows "wire_wf (w\<lparr> fw_sessions := AList.update a s (fw_sessions w) \<rparr>)"
  using assms set_alist_update [of a s "fw_sessions w"]
  by (auto simp: wire_wf_def distinct_update dest: subsetD)

lemma session_update_carriers:
  assumes "carriers_ok {a} w"
  shows "carriers_ok {a} (w\<lparr> fw_sessions := AList.update a s (fw_sessions w) \<rparr>)"
  using assms by (auto simp: carriers_ok_def carrier_ok_def remote_up_other)

lemma carriers_ok_mono: "carriers_ok A w \<Longrightarrow> A \<subseteq> B \<Longrightarrow> carriers_ok B w"
  by (auto simp: carriers_ok_def)

lemma session_remote:
  "wire_wf w \<Longrightarrow> map_of (fw_sessions w) a = Some s \<Longrightarrow> ss_remote s = a"
  using map_of_SomeD by (fastforce simp: wire_wf_def)

lemma refreshSession_inv:
  assumes "wire_inv w" "refreshSessionLocked w now source generation = Some w'"
  shows "wire_wf w' \<and> carriers_ok {source} w'"
proof -
  have reset: "wire_wf (resetPeerLinksLocked w source)" "carriers_ok {source} (resetPeerLinksLocked w source)"
    using assms(1) unfolding wire_inv_def resetPeerLinksLocked_def
    by (auto intro!: wire_wf_each_link simp: link_wf_def newWireReassembler_wf carriers_ok_def)
  have keep: "wire_wf w" "carriers_ok {source} w"
    using assms(1) by (auto simp: wire_inv_def intro: carriers_ok_mono)
  from assms(2) obtain w1 s where w1: "w1 = w \<or> w1 = resetPeerLinksLocked w source" and
    w': "w' = w1\<lparr> fw_sessions := AList.update source s (fw_sessions w1) \<rparr>" and s: "ss_remote s = source"
    using session_remote [OF keep(1)]
    by (fastforce simp: refreshSessionLocked_def Let_def split: option.splits if_splits)
  show ?thesis
    using w1 session_update_wf [OF _ s] session_update_carriers reset keep unfolding w' by blast
qed
section \<open>Every step keeps the invariant\<close>

text \<open>Changes of a link that neither reassembly nor the carrier looks at.\<close>

lemma carrier_ok_cong:
  assumes "wl_forced_down l' = wl_forced_down l" "wl_last_local_up l' = wl_last_local_up l"
    "wl_peer_addr l' = wl_peer_addr l" "wl_remote_oper_up l' = wl_remote_oper_up l"
  shows "carrier_ok ss l' = carrier_ok ss l"
  using assms by (simp add: carrier_ok_def remote_up_def split: option.split)

lemma wire_inv_touch:
  assumes "wire_inv w" "map_of (fw_links w) k = Some l"
    and "wl_link_id l' = wl_link_id l" "reassembler_wf (wl_reassembler l')"
    and "wl_forced_down l' = wl_forced_down l" "wl_last_local_up l' = wl_last_local_up l"
    "wl_peer_addr l' = wl_peer_addr l" "wl_remote_oper_up l' = wl_remote_oper_up l"
  shows "wire_inv (put_link w l')"
  using assms(4) wire_inv_lookup [OF assms(1,2)] carrier_ok_cong [OF assms(5-8)]
  by (intro wire_inv_put_link [OF assms(1)]) simp_all

lemma apply_put_inv:
  assumes "wire_inv w" "reassembler_wf (wl_reassembler l)"
    and "applyLinkCarrierLocked env (fw_sessions w) l = (l', evs)"
  shows "wire_inv (emit (put_link w l') evs)"
  using assms(2) apply_carrier_fields(3) [OF assms(3)] apply_carrier_ok [OF assms(3)]
  by (simp add: wire_inv_put_link [OF assms(1)])

lemma register_link_inv:
  assumes "wire_inv w" "reassembler_wf (wl_reassembler l)"
  shows "wire_inv (register_link env w spec l)"
proof -
  have "reassembler_wf (wl_reassembler (take_registration spec l))"
    using assms(2) by (simp add: take_registration_def Let_def)
  then show ?thesis
    by (auto simp: register_link_def simp del: wire_inv_emit split: prod.split intro: apply_put_inv [OF assms(1)])
qed

lemma wire_inv_by_leg [simp]: "wire_inv (w\<lparr> fw_by_leg := m \<rparr>) = wire_inv w"
  by (simp add: wire_inv_def wire_wf_def carriers_ok_def)

lemma reassembler_of_lookup:
  "wire_inv w \<Longrightarrow> map_of (fw_links w) k = Some l \<Longrightarrow> reassembler_wf (wl_reassembler l)"
  using wire_inv_lookup by (fastforce simp: link_wf_def)

lemma EnsureLink_inv:
  assumes "wire_inv w"
  shows "EnsureLink env w spec = EnsureDone w' \<Longrightarrow> wire_inv w'"
    and "EnsureLink env w spec = EnsureFailed e w' \<Longrightarrow> wire_inv w'"
proof -
  note lookup = reassembler_of_lookup [OF assms]
  have stop: "wire_inv (put_link (w\<lparr> fw_by_leg := m \<rparr>) (l\<lparr> wl_stopped := True \<rparr>))"
    if "map_of (fw_links w) k = Some l" for m k l
    using assms that lookup [OF that] by (intro wire_inv_touch [of _ k l]) simp_all
  show "wire_inv w'" if "EnsureLink env w spec = EnsureDone w'"
    using that assms lookup unfolding EnsureLink_def
    by (auto simp: Let_def new_wire_link_def newWireReassembler_wf
        split: if_splits option.splits intro!: register_link_inv)
  show "wire_inv w'" if "EnsureLink env w spec = EnsureFailed e w'"
    using that assms stop unfolding EnsureLink_def
    by (auto simp: Let_def split: if_splits option.splits)
qed

lemma SweepLinks_inv:
  assumes "wire_inv w" "SweepLinks env w prefix keep = Some w'"
  shows "wire_inv w'"
proof -
  let ?keep = "\<lambda>(k, l). sweep_keeps prefix keep l"
  define w1 where "w1 = w\<lparr> fw_links := filter ?keep (fw_links w), fw_by_leg := fw_by_leg w' \<rparr>"
  define P where "P = (\<lambda>(remote, s :: fabricWireSession). sessionReferencedLocked w1 remote \<or>
    \<not> we_now env - ss_last_heard s > fabricWireSessionTimeout)"
  have w': "fw_links w' = filter ?keep (fw_links w)" "fw_sessions w' = filter P (fw_sessions w)"
    using assms(2) by (auto simp: SweepLinks_def Let_def P_def w1_def sessionReferencedLocked_def split: if_splits)
  have dist: "distinct (map fst (fw_sessions w))" "distinct (map fst (fw_links w))"
    using assms(1) by (simp_all add: wire_inv_def wire_wf_def)
  have same: "remote_up (fw_sessions w') l = remote_up (fw_sessions w) l" if "(k, l) \<in> set (fw_links w')" for k l
  proof -
    have "sessionReferencedLocked w1 (wl_peer_addr l)"
      using that w' by (auto simp: sessionReferencedLocked_def w1_def)
    then show ?thesis by (simp add: remote_up_def w' kept_entry [OF dist(1)] P_def split: option.split)
  qed
  have "wire_wf w'"
    using assms(1) dist unfolding wire_inv_def wire_wf_def w'
    by (auto simp: distinct_map intro: inj_on_subset)
  moreover have "carriers_ok {} w'"
    using assms(1) same w' unfolding wire_inv_def carriers_ok_def carrier_ok_def by fastforce
  ultimately show ?thesis by (simp add: wire_inv_def)
qed

lemma wire_inv_map_links:
  assumes "wire_inv w" "fw_links w' = map (\<lambda>(k, l). (k, f l)) (fw_links w)" "fw_sessions w' = fw_sessions w"
    and "\<And>k l. link_wf k l \<Longrightarrow> carrier_ok (fw_sessions w) l \<Longrightarrow> link_wf k (f l) \<and> carrier_ok (fw_sessions w) (f l)"
  shows "wire_inv w'"
proof -
  have "link_wf k (f l) \<and> carrier_ok (fw_sessions w) (f l)" if "(k, l) \<in> set (fw_links w)" for k l
    using assms(1) that by (intro assms(4)) (auto simp: wire_inv_def wire_wf_def carriers_ok_def)
  then show ?thesis
    using assms(1-3) unfolding wire_inv_def wire_wf_def carriers_ok_def
    by (auto simp: comp_def case_prod_beta)
qed

lemma wire_inv_each_link:
  assumes "wire_inv w"
    and "\<And>k l. link_wf k l \<Longrightarrow> carrier_ok (fw_sessions w) l \<Longrightarrow>
      link_wf k (fst (f l)) \<and> carrier_ok (fw_sessions w) (fst (f l))"
  shows "wire_inv (each_link f w)"
  using assms(2) by (intro wire_inv_map_links [OF assms(1), of _ "\<lambda>l. fst (f l)"]) simp_all

lemma Close_wire_inv:
  assumes "wire_inv w" "Close_wire w = Some w'"
  shows "wire_inv w'"
proof (cases "w' = w")
  case False
  with assms(2) show ?thesis
    by (intro wire_inv_map_links [OF assms(1), of w' "\<lambda>l. l\<lparr> wl_stopped := True \<rparr>"])
      (auto simp: Close_wire_def link_wf_def carrier_ok_def remote_up_iff split: if_splits)
qed (use assms in simp)

lemma transmit_on_inv:
  assumes "wire_inv w" "map_of (fw_links w) k = Some l"
  shows "wire_inv (transmit_on env w l frame)"
  using reassembler_of_lookup [OF assms]
  by (auto simp: transmit_on_def Let_def split: sum.splits prod.splits intro!: wire_inv_touch [OF assms])

lemma transmitFrame_inv: "wire_inv w \<Longrightarrow> wire_inv (transmitFrame env w linkID frame)"
  by (auto simp: transmitFrame_def transmit_on_inv split: option.split)

lemma set_reassembler_simps [simp]:
  "wl_reassembler (set_reassembler l r) = r\<lparr> ra_drops := [] \<rparr>" "wl_link_id (set_reassembler l r) = wl_link_id l"
  "wl_forced_down (set_reassembler l r) = wl_forced_down l" "wl_peer_addr (set_reassembler l r) = wl_peer_addr l"
  "wl_last_local_up (set_reassembler l r) = wl_last_local_up l" "wl_mtu (set_reassembler l r) = wl_mtu l"
  "wl_remote_oper_up (set_reassembler l r) = wl_remote_oper_up l" "wl_packet_fd (set_reassembler l r) = wl_packet_fd l"
  by (simp_all add: set_reassembler_def)

lemma deliver_fragment_inv:
  assumes "wire_inv w" "map_of (fw_links w) k = Some l"
    and "deliver_fragment env w now l h payload = Some w'"
    and "unat (wd_frag_index h) < unat (wd_frag_count h)" "payload \<noteq> []"
  shows "wire_inv w'"
proof -
  obtain r out where r: "absorb (wl_reassembler l) now h payload = Some (r, out)" "reassembler_wf r"
    using absorb_wf [OF reassembler_of_lookup [OF assms(1,2)] assms(4,5), of now] by blast
  then show ?thesis using assms(3) unfolding deliver_fragment_def
    by (auto simp: Let_def split: option.splits if_splits intro!: wire_inv_touch [OF assms(1,2)])
qed

lemma deliver_fragment_total:
  assumes "reassembler_wf (wl_reassembler l)" "unat (wd_frag_index h) < unat (wd_frag_count h)" "payload \<noteq> []"
  shows "deliver_fragment env w now l h payload \<noteq> None"
proof -
  obtain r out where "absorb (wl_reassembler l) now h payload = Some (r, out)"
    using absorb_wf [OF assms, of now] by blast
  then show ?thesis by (simp add: deliver_fragment_def Let_def split: option.split)
qed

lemma accepted_fragment:
  assumes "parseFabricWireDataHeader body = Inr (h, payload)"
  shows "unat (wd_frag_index h) < unat (wd_frag_count h)" "payload \<noteq> []"
  using assms by (auto simp: parseFabricWireDataHeader_def Let_def not_le word_less_nat_alt split: if_splits)

lemma refresh_apply_inv:
  assumes "wire_inv w" "refreshSessionLocked w now source generation = Some w1"
  shows "wire_inv (applyPeerCarrierLocked env w1 source)"
  using refreshSession_inv [OF assms] applyPeerCarrier_inv by blast

lemma handleData_inv:
  assumes "wire_inv w" "unat (wd_frag_index h) < unat (wd_frag_count h)" "payload \<noteq> []"
  shows "\<exists>w'. handleData env w now source generation h payload = Some w' \<and> wire_inv w'"
proof (cases "map_of (fw_links w) (wd_link_id h)")
  case (Some l)
  note touch = wire_inv_touch [OF assms(1) Some] and lookup = reassembler_of_lookup [OF assms(1) Some]
  show ?thesis
  proof (cases "wl_peer_addr l = source")
    case False
    with Some lookup show ?thesis by (auto simp: handleData_def Let_def intro!: touch)
  next
    case True
    show ?thesis
    proof (cases "refreshSessionLocked w now source generation")
      case None
      with Some True lookup show ?thesis by (auto simp: handleData_def Let_def intro!: touch)
    next
      case (Some w1)
      define w2 where "w2 = applyPeerCarrierLocked env w1 source"
      have inv2: "wire_inv w2" unfolding w2_def by (rule refresh_apply_inv [OF assms(1) Some])
      have run: "handleData env w now source generation h payload =
        (case map_of (fw_links w2) (wd_link_id h) of None \<Rightarrow> Some w2
         | Some l2 \<Rightarrow> deliver_fragment env w2 now l2 h payload)"
        unfolding handleData_def w2_def Let_def
        using \<open>map_of (fw_links w) (wd_link_id h) = Some l\<close> True Some by simp
      show ?thesis
      proof (cases "map_of (fw_links w2) (wd_link_id h)")
        case (Some l2)
        obtain w' where "deliver_fragment env w2 now l2 h payload = Some w'"
          using deliver_fragment_total [OF reassembler_of_lookup [OF inv2 Some] assms(2,3)] by blast
        with deliver_fragment_inv [OF inv2 Some this assms(2,3)] run Some show ?thesis by simp
      qed (use run inv2 in simp)
    qed
  qed
qed (use assms in \<open>simp add: handleData_def\<close>)

lemma adopt_remote_state_inv:
  assumes "wire_wf w \<and> carriers_ok {source} w"
  shows "wire_wf (adopt_remote_state source w st) \<and> carriers_ok {source} (adopt_remote_state source w st)"
proof (cases "map_of (fw_links w) (wls_link_id st)")
  case (Some l)
  then have "reassembler_wf (wl_reassembler l)"
    using assms map_of_SomeD [OF Some] by (auto simp: wire_wf_def link_wf_def)
  with Some assms show ?thesis
    by (auto simp: adopt_remote_state_def intro!: wire_wf_put_link carriers_ok_put_link)
qed (use assms in \<open>simp add: adopt_remote_state_def\<close>)

lemma handleLinkStates_inv:
  assumes "wire_inv w"
  shows "wire_inv (handleLinkStates env w now source generation states)"
proof (cases "refreshSessionLocked w now source generation")
  case (Some w1)
  have fold: "wire_wf v \<and> carriers_ok {source} v \<Longrightarrow>
    wire_wf (foldl (adopt_remote_state source) v sts) \<and> carriers_ok {source} (foldl (adopt_remote_state source) v sts)"
    for v sts by (induction sts arbitrary: v) (simp_all add: adopt_remote_state_inv)
  from fold [OF refreshSession_inv [OF assms Some]] Some show ?thesis
    by (simp add: handleLinkStates_def applyPeerCarrier_inv)
qed (use assms in \<open>simp add: handleLinkStates_def\<close>)

lemma handleDatagram_inv:
  assumes "wire_inv w"
  shows "\<exists>w'. handleDatagram env w now source datagram = Some w' \<and> wire_inv w'"
proof (cases "parseFabricWireHeader datagram")
  case (Inr hb)
  obtain header body where hb: "hb = (header, body)" by force
  show ?thesis
  proof (cases "wh_msg_type header = fabricWireMsgData")
    case data: True
    show ?thesis
    proof (cases "parseFabricWireDataHeader body")
      case r: (Inr hp)
      then obtain h payload where hp: "hp = (h, payload)" by force
      note ok = accepted_fragment [OF r [unfolded hp]]
      from handleData_inv [OF assms ok] r hp data Inr hb show ?thesis by (simp add: handleDatagram_def)
    qed (use Inr hb data assms in \<open>simp add: handleDatagram_def\<close>)
  next
    case False
    with Inr hb assms show ?thesis
      by (auto simp: handleDatagram_def handleLinkStates_inv split: sum.split option.split
          intro: refresh_apply_inv)
  qed
qed (use assms in \<open>simp add: handleDatagram_def\<close>)

lemma observe_link:
  assumes "link_wf k l" "carrier_ok (fw_sessions w) l" "observeLegStateLocked env w l operUp = (l', evs)"
  shows "link_wf k l'" "carrier_ok (fw_sessions w) l'"
proof (atomize (full), cases "l' = l")
  case False
  then obtain evs' where "applyLinkCarrierLocked env (fw_sessions w) (l\<lparr> wl_last_local_up := operUp \<rparr>) = (l', evs')"
    using assms(3) by (auto simp: observeLegStateLocked_def split: if_splits prod.splits)
  from apply_carrier_ok [OF this] apply_carrier_fields [OF this] assms(1)
  show "link_wf k l' \<and> carrier_ok (fw_sessions w) l'" by (simp add: link_wf_def)
qed (use assms in simp)

lemma watch_update_inv:
  assumes "wire_inv w"
  shows "wire_inv (watch_update env w legIndex operUp)"
proof -
  have "wire_inv (put_link w l')" if "map_of (fw_links w) k = Some l" "observeLegStateLocked env w l operUp = (l', evs)"
    for k l l' evs
    using observe_link [OF wire_inv_lookup(1,2) [OF assms that(1)] that(2)]
    by (intro wire_inv_put_link [OF assms]) (auto simp: link_wf_def)
  then show ?thesis using assms by (auto simp: watch_update_def split: option.split prod.split)
qed

lemma sample_legs_inv:
  assumes "wire_inv w"
  shows "wire_inv (sample_legs env w)"
proof -
  define f where "f = (\<lambda>l. if wl_forced_down l then (l, [])
    else case we_leg_oper_up env (wl_leg_index l) of None \<Rightarrow> (l, [])
         | Some operUp \<Rightarrow> observeLegStateLocked env w l operUp)"
  have f: "link_wf k (fst (f l)) \<and> carrier_ok (fw_sessions w) (fst (f l))"
    if "link_wf k l" "carrier_ok (fw_sessions w) l" for k l
    using that observe_link [OF that, of env] by (auto simp: f_def split: option.split) (metis prod.collapse)+
  show ?thesis
    unfolding sample_legs_def f_def [symmetric] by (rule wire_inv_each_link [OF assms f])
qed

lemma expire_session_inv:
  assumes "wire_inv w"
  shows "wire_inv (expire_session env now w addr)"
proof (cases "map_of (fw_sessions w) addr")
  case (Some s)
  have wf: "wire_wf w" "carriers_ok {addr} w" using assms by (auto simp: wire_inv_def intro: carriers_ok_mono)
  note remote = session_remote [OF wf(1) Some]
  have "wire_inv (applyPeerCarrierLocked env (w\<lparr> fw_sessions := AList.update addr
      (s\<lparr> ss_up := False, ss_generation_known := False \<rparr>) (fw_sessions w) \<rparr>) addr)"
    using remote by (intro applyPeerCarrier_inv session_update_wf session_update_carriers wf) simp
  with assms Some remote show ?thesis by (simp add: expire_session_def)
qed (use assms in \<open>simp add: expire_session_def\<close>)

lemma expire_sessions_inv: "wire_inv w \<Longrightarrow> wire_inv (expire_sessions env now w)"
proof -
  have "wire_inv v \<Longrightarrow> wire_inv (foldl (expire_session env now) v as)" for v as
    by (induction as arbitrary: v) (auto intro: expire_session_inv)
  then show "wire_inv w \<Longrightarrow> ?thesis" by (simp add: expire_sessions_def)
qed

lemma tick_link_ok:
  assumes "link_wf k l"
  shows "link_wf k (tick_link w now l)" "carrier_ok ss (tick_link w now l) = carrier_ok ss l"
  using assms expire_wf [of "wl_reassembler l" now]
  by (auto simp: tick_link_def link_wf_def Let_def carrier_ok_def remote_up_iff)

lemma tick_inv:
  assumes "wire_inv w" "tick env w now = (w', resolves)"
  shows "wire_inv w'"
proof -
  define w1 where "w1 = expire_sessions env now (sample_legs env w)"
  have inv1: "wire_inv w1" unfolding w1_def by (intro expire_sessions_inv sample_legs_inv assms(1))
  have "wire_inv (each_link (\<lambda>l. (tick_link w1 now l, [])) w1)"
    by (rule wire_inv_each_link [OF inv1]) (simp add: tick_link_ok)
  then show ?thesis using assms(2) by (auto simp: tick_def Let_def w1_def)
qed

lemma resolvePeer_inv:
  assumes "wire_inv w"
  shows "wire_inv (resolvePeer env w linkID resolved)"
proof -
  have adopt: "wire_inv (adoptPeerAddress env w linkID a)" for a
  proof (cases "map_of (fw_links w) linkID")
    case (Some l)
    let ?l = "l\<lparr> wl_peer_addr := a, wl_remote_oper_up := False \<rparr>"
    obtain l' evs where run: "applyLinkCarrierLocked env (fw_sessions w) ?l = (l', evs)" by force
    have "wire_inv (emit (put_link w l') evs)"
      using reassembler_of_lookup [OF assms Some] by (intro apply_put_inv [OF assms _ run]) simp
    with Some run assms show ?thesis by (simp add: adoptPeerAddress_def)
  qed (use assms in \<open>simp add: adoptPeerAddress_def\<close>)
  have clear: "wire_inv (put_link v (l\<lparr> wl_resolve_in_flight := False \<rparr>))"
    if "wire_inv v" "map_of (fw_links v) linkID = Some l" for v l
    using that reassembler_of_lookup [OF that] by (intro wire_inv_touch [OF that]) simp_all
  show ?thesis using assms adopt clear by (auto simp: resolvePeer_def Let_def split: option.split)
qed

lemma reportCounters_inv: "wire_inv w \<Longrightarrow> wire_inv (reportCounters w)"
  unfolding reportCounters_def
  by (rule wire_inv_each_link) (auto simp: link_wf_def carrier_ok_def remote_up_iff)

lemma wire_step_inv: "wire_step w w' \<Longrightarrow> wire_inv w \<Longrightarrow> wire_inv w'"
proof (induction rule: wire_step.induct)
  case (receive env w now source datagram w')
  with handleDatagram_inv [OF receive.prems, of env now source datagram] show ?case by auto
qed (auto intro: EnsureLink_inv SweepLinks_inv Close_wire_inv transmitFrame_inv watch_update_inv tick_inv
    resolvePeer_inv reportCounters_inv)

section \<open>Properties\<close>

lemma newFabricWire_inv: "newFabricWire ready address payload generation = Some w \<Longrightarrow> wire_inv w"
  by (auto simp: newFabricWire_def wire_inv_def wire_wf_def carriers_ok_def split: if_splits)

lemma reachable_inv:
  assumes "newFabricWire ready address payload generation = Some w0" "wire_step\<^sup>*\<^sup>* w0 w"
  shows "wire_inv w"
  using assms(2) newFabricWire_inv [OF assms(1)]
  by (induction rule: rtranclp_induct) (auto intro: wire_step_inv)


definition sample_env :: wire_env where
  "sample_env = \<lparr> we_leg_by_name = (\<lambda>_. Some (4, True)), we_open_capture = (\<lambda>_. Some 9),
     we_leg_exists = (\<lambda>_. True), we_set_down = (\<lambda>_. True), we_set_up = (\<lambda>_. True),
     we_leg_oper_up = (\<lambda>_. Some True), we_send = (\<lambda>_ ds. (length ds, False)), we_inject = (\<lambda>_ _. True),
     we_now = 0 \<rparr>"

definition sample_peer :: netip_addr where "sample_peer = Addr4 0x0A000002"

definition sample_spec :: fabricWireLinkSpec where
  "sample_spec = \<lparr> sp_link_id = 7, sp_owner = ''pod/l1'', sp_leg_name = ''leg'', sp_peer_transport = ''peer'',
     sp_peer_address = sample_peer, sp_mtu = 1500 \<rparr>"

definition sample_wire :: fabricWire where
  "sample_wire = \<lparr> fw_local_address = Addr4 0x0A000001, fw_fragment_payload = 2, fw_generation = 5,
     fw_links = [], fw_by_leg = [], fw_sessions = [], fw_closed = False, fw_events = [] \<rparr>"

definition sample_registered :: fabricWire where
  "sample_registered = (case EnsureLink sample_env sample_wire sample_spec of EnsureDone w \<Rightarrow> w | _ \<Rightarrow> sample_wire)"

lemma sample_wire_new: "newFabricWire True (Addr4 0x0A000001) 2 5 = Some sample_wire"
  by (simp add: newFabricWire_def Is4_def sample_wire_def)

lemma sample_ensure: "EnsureLink sample_env sample_wire sample_spec = EnsureDone sample_registered"
  by (simp add: sample_registered_def EnsureLink_def sample_env_def sample_spec_def sample_wire_def Let_def)

lemma sample_registered_step: "wire_step\<^sup>*\<^sup>* sample_wire sample_registered"
  using wire_step.ensure [OF sample_ensure] by blast

lemmas sample_wire_defs = sample_registered_def EnsureLink_def sample_env_def sample_spec_def sample_wire_def
  Let_def new_wire_link_def register_link_def take_registration_def applyLinkCarrierLocked_def
  put_link_def emit_def remote_up_def

lemma sample_registered_link:
  "\<exists>l. map_of (fw_links sample_registered) 7 = Some l \<and> wl_last_local_up l \<and> \<not> wl_remote_oper_up l"
  by (simp add: sample_wire_defs)




text \<open>What a stale or foreign datagram may touch: the counters of one link.\<close>

definition links_agree :: "fabricWire \<Rightarrow> fabricWire \<Rightarrow> bool" where
  "links_agree w w' \<longleftrightarrow> (\<forall>k. map_option (\<lambda>l. l\<lparr> wl_counters := zero_counters \<rparr>) (map_of (fw_links w') k) =
     map_option (\<lambda>l. l\<lparr> wl_counters := zero_counters \<rparr>) (map_of (fw_links w) k))"

lemma links_agree_counters:
  assumes "wire_wf w" "map_of (fw_links w) k = Some l"
  shows "links_agree w (put_link w (l\<lparr> wl_counters := c \<rparr>))"
proof -
  have "wl_link_id l = k" using assms map_of_SomeD [OF assms(2)] by (auto simp: wire_wf_def link_wf_def)
  with assms(2) show ?thesis by (simp add: links_agree_def update_conv)
qed

lemma refresh_stale:
  assumes "map_of (fw_sessions w) source = Some s" "ss_generation_known s" "generation < ss_generation s"
    and "now - ss_last_heard s \<le> fabricWireSessionTimeout"
  shows "refreshSessionLocked w now source generation = None"
  using assms by (auto simp: refreshSessionLocked_def Let_def)

text \<open>
  A datagram of an older generation than the peer's current one, while the peer was heard within
  the session timeout, changes no session, no carrier, no reassembly and emits nothing: at most a
  drop counter of one link moves.
\<close>

theorem stale_generation_ignored:
  assumes "wire_wf w" "map_of (fw_sessions w) source = Some s" "ss_generation_known s"
    and "now - ss_last_heard s \<le> fabricWireSessionTimeout"
    and "parseFabricWireHeader datagram = Inr (header, body)" "wh_generation header < ss_generation s"
  shows "\<exists>w'. handleDatagram env w now source datagram = Some w' \<and>
    fw_sessions w' = fw_sessions w \<and> fw_events w' = fw_events w \<and> links_agree w w'"
proof -
  have same: "links_agree w w" by (simp add: links_agree_def)
  note stale = refresh_stale [OF assms(2,3,6,4)]
  have data: "\<exists>w'. handleData env w now source (wh_generation header) h payload = Some w' \<and>
      fw_sessions w' = fw_sessions w \<and> fw_events w' = fw_events w \<and> links_agree w w'" for h payload
    using stale same links_agree_counters [OF assms(1)] by (auto simp: handleData_def Let_def split: option.split)
  show ?thesis
    using assms(5) stale same data
    by (auto simp: handleDatagram_def handleLinkStates_def split: sum.split)
qed

definition sample_live :: fabricWire where
  "sample_live = sample_registered\<lparr> fw_sessions := [(sample_peer, \<lparr> ss_remote = sample_peer, ss_generation = 5,
     ss_generation_known = True, ss_last_heard = 0, ss_up = True \<rparr>)] \<rparr>"

lemma sample_live_wf: "wire_wf sample_live"
proof -
  have "wire_wf sample_registered"
    using reachable_inv [OF sample_wire_new sample_registered_step] by (simp add: wire_inv_def)
  then show ?thesis by (simp add: wire_wf_def sample_live_def)
qed

theorem stale_generation_ignored_witness:
  "\<exists>w'. handleDatagram sample_env sample_live 10 sample_peer (encodeFabricWireHeartbeat 4) = Some w' \<and>
     fw_sessions w' = fw_sessions sample_live"
proof -
  have "parseFabricWireHeader (encodeFabricWireHeartbeat 4) = Inr (\<lparr> wh_version = fabricWireVersion,
      wh_msg_type = fabricWireMsgHeartbeat, wh_generation = 4 \<rparr>, [])"
    using parse_putFabricWireHeader [of fabricWireMsgHeartbeat 4 "[]"] by (simp add: encodeFabricWireHeartbeat_def)
  from stale_generation_ignored [OF sample_live_wf _ _ _ this, of sample_peer _ 10 sample_env] show ?thesis
    by (auto simp: sample_live_def fabricWireSessionTimeout_def)
qed

text \<open>
  When a datagram of a different generation is accepted into a session whose generation was
  known, every link homed on that peer starts afresh: nothing is pending in reassembly and the
  remote side counts as down until the new generation advertises it.
\<close>

theorem new_generation_resets_links:
  assumes "map_of (fw_sessions w) source = Some s" "ss_generation_known s" "ss_generation s \<noteq> generation"
    and "refreshSessionLocked w now source generation = Some w'"
    and "map_of (fw_links w') k = Some l" "wl_peer_addr l = source"
  shows "ra_pending (wl_reassembler l) = [] \<and> \<not> wl_remote_oper_up l \<and>
    (\<exists>s'. map_of (fw_sessions w') source = Some s' \<and> ss_generation s' = generation \<and> ss_up s')"
proof -
  have w': "fw_links w' = fw_links (resetPeerLinksLocked w source)"
    "\<exists>s'. map_of (fw_sessions w') source = Some s' \<and> ss_generation s' = generation \<and> ss_up s'"
    using assms(1-4) by (auto simp: refreshSessionLocked_def Let_def update_conv split: if_splits)
  from assms(5) w'(1) obtain l0 where "l = (if wl_peer_addr l0 = source
      then l0\<lparr> wl_reassembler := newWireReassembler, wl_remote_oper_up := False \<rparr> else l0)"
    by (auto simp: resetPeerLinksLocked_def map_of_mapped_values)
  with assms(6) w'(2) show ?thesis by (auto simp: newWireReassembler_def split: if_splits)
qed

theorem new_generation_resets_links_witness:
  "\<exists>w' l. refreshSessionLocked sample_live 10 sample_peer 6 = Some w' \<and>
     map_of (fw_links w') 7 = Some l \<and> ra_pending (wl_reassembler l) = []"
proof -
  let ?s = "\<lparr> ss_remote = sample_peer, ss_generation = 5, ss_generation_known = True, ss_last_heard = 0, ss_up = True \<rparr>"
  have s: "map_of (fw_sessions sample_live) sample_peer = Some ?s" by (simp add: sample_live_def)
  then obtain w' where w': "refreshSessionLocked sample_live 10 sample_peer 6 = Some w'"
    "fw_links w' = fw_links (resetPeerLinksLocked sample_live sample_peer)"
    by (simp add: refreshSessionLocked_def Let_def)
  have "\<exists>l. map_of (fw_links w') 7 = Some l \<and> wl_peer_addr l = sample_peer"
    unfolding w'(2) by (simp add: resetPeerLinksLocked_def sample_live_def sample_wire_defs sample_peer_def)
  then obtain l where l: "map_of (fw_links w') 7 = Some l" "wl_peer_addr l = sample_peer" by blast
  from new_generation_resets_links [OF s _ _ w'(1) l] w'(1) l show ?thesis by simp
qed

end
