(* ===== verification/Fabric_Delivery.thy ===== *)
theory Fabric_Delivery
  imports Fabric_Carrier
begin

text \<open>
  Delivery over the fabric wire: what one endpoint transmits, the peer endpoint injects, and the
  carrier behaviour around lost peers and moved legs.
\<close>

section \<open>Receiving the fragments of a frame\<close>

fun receive_all :: "wire_env \<Rightarrow> fabricWire \<Rightarrow> netip_addr \<Rightarrow> (int \<times> byte list) list \<Rightarrow> fabricWire option" where
  "receive_all env w source [] = Some w"
| "receive_all env w source ((now, datagram) # rest) =
     (case handleDatagram env w now source datagram of
        None \<Rightarrow> None
      | Some w' \<Rightarrow> receive_all env w' source rest)"

text \<open>
  An endpoint whose link \<open>k\<close> is homed on \<open>source\<close> and whose session with that peer is up at the given
  generation.
\<close>

definition steady :: "fabricWire \<Rightarrow> netip_addr \<Rightarrow> 64 word \<Rightarrow> 32 word \<Rightarrow> fabricWireLink \<Rightarrow> bool" where
  "steady w source generation k l \<longleftrightarrow>
     wire_inv w \<and> map_of (fw_links w) k = Some l \<and> wl_peer_addr l = source \<and>
     (\<exists>s. map_of (fw_sessions w) source = Some s \<and> ss_generation_known s \<and>
        ss_generation s = generation \<and> ss_up s)"

text \<open>A datagram of the current generation leaves the carriers of a steady endpoint alone.\<close>

lemma apply_carrier_idle: "carrier_ok ss l \<Longrightarrow> applyLinkCarrierLocked env ss l = (l, [])"
  by (simp add: applyLinkCarrierLocked_def carrier_ok_def Let_def)

lemma each_link_idle:
  assumes "\<forall>(k, l) \<in> set (fw_links w). f l = (l, [])"
  shows "each_link f w = w"
proof -
  have "map (\<lambda>(k, l). (k, fst (f l))) (fw_links w) = fw_links w"
    using assms by (intro map_idI) auto
  moreover have "concat (map (\<lambda>(k, l). snd (f l)) (fw_links w)) = []" using assms by auto
  ultimately show ?thesis by (simp add: each_link_def)
qed

lemma steady_refresh:
  assumes "steady w source generation k l"
  obtains w1 where "refreshSessionLocked w now source generation = Some w1"
    "applyPeerCarrierLocked env w1 source = w1" "fw_links w1 = fw_links w" "fw_events w1 = fw_events w"
    "steady w1 source generation k l"
proof -
  from assms obtain s where s: "map_of (fw_sessions w) source = Some s" "ss_generation_known s"
    "ss_generation s = generation" "ss_up s" and inv: "wire_inv w" by (auto simp: steady_def)
  define w1 where "w1 = w\<lparr> fw_sessions := AList.update source (s\<lparr> ss_generation := generation,
    ss_generation_known := True, ss_last_heard := now, ss_up := True \<rparr>) (fw_sessions w) \<rparr>"
  have refresh: "refreshSessionLocked w now source generation = Some w1"
    using s by (simp add: refreshSessionLocked_def w1_def Let_def)
  have ok: "carrier_ok (fw_sessions w1) l'" if "carrier_ok (fw_sessions w) l'" for l'
    using that s by (auto simp: carrier_ok_def remote_up_iff w1_def update_conv)
  have carriers: "carriers_ok {} w1" "wire_wf w1"
    using inv ok refreshSession_inv [OF inv refresh] unfolding wire_inv_def carriers_ok_def
    by (auto simp: w1_def)
  have "applyPeerCarrierLocked env w1 source = w1"
    unfolding applyPeerCarrierLocked_def
    using carriers(1) by (intro each_link_idle) (auto simp: carriers_ok_def apply_carrier_idle)
  moreover have "steady w1 source generation k l"
    using assms carriers s by (simp add: steady_def wire_inv_def w1_def update_conv)
  ultimately show thesis using that refresh by (simp add: w1_def)
qed

text \<open>What a link's later handling depends on.\<close>

definition link_route :: "fabricWireLink \<Rightarrow> int \<times> int" where
  "link_route l = (wl_packet_fd l, wl_mtu l)"

lemma deliver_fragment_steady:
  assumes "steady w source generation k l"
    and "absorb (wl_reassembler l) now h payload = Some (r, out)" "reassembler_wf r"
  obtains w' l' where "deliver_fragment env w now l h payload = Some w'"
    "steady w' source generation k l'" "wl_reassembler l' = r\<lparr> ra_drops := [] \<rparr>" "link_route l' = link_route l"
    "fw_events w' = fw_events w @ (case out of None \<Rightarrow> []
       | Some frame \<Rightarrow> if int (length frame) > wl_mtu l + fabricWireFrameHeadroom then []
                       else [Injected (wl_packet_fd l) frame])"
proof -
  have inv: "wire_inv w" and look: "map_of (fw_links w) k = Some l" and peer: "wl_peer_addr l = source"
    using assms(1) by (auto simp: steady_def)
  note id = wire_inv_lookup(3) [OF inv look]
  have keep: "steady (put_link w m) source generation k m"
    if "wl_link_id m = wl_link_id l" "wl_peer_addr m = wl_peer_addr l" "wl_forced_down m = wl_forced_down l"
      "wl_last_local_up m = wl_last_local_up l" "wl_remote_oper_up m = wl_remote_oper_up l"
      "reassembler_wf (wl_reassembler m)" for m
    using assms(1) id that wire_inv_touch [OF inv look that(1,6,3,4,2,5)] by (simp add: steady_def update_conv)
  have emitted: "steady (emit v evs) source generation k m = steady v source generation k m" for v evs m
    by (simp add: steady_def)
  show thesis
  proof (cases out)
    case None
    let ?l = "set_reassembler (l\<lparr> wl_counters := (wl_counters l)\<lparr> ct_rx_fragments := ct_rx_fragments (wl_counters l) + 1 \<rparr> \<rparr>) r"
    show thesis using assms(2,3) None
      by (intro that [of "put_link w ?l" ?l]) (auto simp: deliver_fragment_def Let_def link_route_def intro!: keep)
  next
    case (Some frame)
    let ?l = "set_reassembler (l\<lparr> wl_counters := (wl_counters l)\<lparr> ct_rx_fragments := ct_rx_fragments (wl_counters l) + 1 \<rparr> \<rparr>) r"
    define c where "c = (let c = wl_counters ?l in
      if int (length frame) > wl_mtu l + fabricWireFrameHeadroom then c\<lparr> ct_drop_oversize := ct_drop_oversize c + 1 \<rparr>
      else let c = c\<lparr> ct_rx_frames := ct_rx_frames c + 1 \<rparr> in
           if we_inject env (wl_packet_fd l) frame then c else c\<lparr> ct_drop_inject := ct_drop_inject c + 1 \<rparr>)"
    let ?m = "?l\<lparr> wl_counters := c \<rparr>"
    let ?evs = "if int (length frame) > wl_mtu l + fabricWireFrameHeadroom then []
                else [Injected (wl_packet_fd l) frame]"
    have run: "deliver_fragment env w now l h payload = Some (emit (put_link w ?m) ?evs)"
      using assms(2) Some by (simp add: deliver_fragment_def Let_def c_def emit_def)
    show thesis using run Some assms(3)
      by (intro that [of "emit (put_link w ?m) ?evs" ?m])
        (auto simp: link_route_def emitted intro!: keep)
  qed
qed

lemma handleDatagram_steady:
  assumes "steady w source generation k l" "data_header_ok h payload" "wd_link_id h = k"
    and "absorb (wl_reassembler l) now h payload = Some (r, out)" "reassembler_wf r"
  obtains w' l' where
    "handleDatagram env w now source (encodeFabricWireFragment generation h payload) = Some w'"
    "steady w' source generation k l'" "wl_reassembler l' = r\<lparr> ra_drops := [] \<rparr>" "link_route l' = link_route l"
    "fw_events w' = fw_events w @ (case out of None \<Rightarrow> []
       | Some frame \<Rightarrow> if int (length frame) > wl_mtu l + fabricWireFrameHeadroom then []
                       else [Injected (wl_packet_fd l) frame])"
proof -
  obtain w1 where w1: "refreshSessionLocked w now source generation = Some w1"
    "applyPeerCarrierLocked env w1 source = w1" "fw_links w1 = fw_links w" "fw_events w1 = fw_events w"
    "steady w1 source generation k l"
    by (rule steady_refresh [OF assms(1)])
  have "map_of (fw_links w) k = Some l" "wl_peer_addr l = source" using assms(1) by (simp_all add: steady_def)
  then have "handleData env w now source generation h payload = deliver_fragment env w1 now l h payload"
    using w1 assms(3) by (simp add: handleData_def Let_def)
  moreover have "handleDatagram env w now source (encodeFabricWireFragment generation h payload) =
      handleData env w now source generation h payload"
    using assms(2)
    by (simp add: handleDatagram_def encodeFabricWireFragment_def parse_putFabricWireHeader parse_put_data_header)
  moreover obtain w' l' where "deliver_fragment env w1 now l h payload = Some w'"
    "steady w' source generation k l'" "wl_reassembler l' = r\<lparr> ra_drops := [] \<rparr>" "link_route l' = link_route l"
    "fw_events w' = fw_events w1 @ (case out of None \<Rightarrow> []
       | Some frame \<Rightarrow> if int (length frame) > wl_mtu l + fabricWireFrameHeadroom then []
                       else [Injected (wl_packet_fd l) frame])"
    by (rule deliver_fragment_steady [OF w1(5) assms(4,5)])
  ultimately show thesis using that [of w' l'] w1(4) by simp
qed

lemma in_flight_drops [simp]: "in_flight (r\<lparr> ra_drops := ds \<rparr>) k t fs I = in_flight r k t fs I"
  by (simp add: in_flight_def)

lemma in_flight_wf: "in_flight r k t fs I \<Longrightarrow> reassembler_wf r"
  by (simp add: in_flight_def)

lemma fragment_header_ok:
  assumes "frame_fits fs" "i < length fs"
  shows "data_header_ok (fragment_header l k fs i) (fs ! i)"
proof -
  have "length (fs ! i) \<le> length (concat fs)"
    using assms(2) member_le_sum_list [of "length (fs ! i)" "map length fs"] by (simp add: length_concat)
  then show ?thesis
    using fragment_header_fields(1-4) [OF assms, of l k] fragment_header_fields(5) [OF assms] assms(2)
    by (simp add: data_header_ok_def word_less_nat_alt)
qed

lemma receive_all_in_flight:
  assumes fits: "frame_fits fs" and small: "int (length (concat fs)) \<le> snd route + fabricWireFrameHeadroom"
  shows "steady w source generation k l \<Longrightarrow> link_route l = route \<Longrightarrow>
    in_flight (wl_reassembler l) frameID t fs I \<Longrightarrow> I \<subseteq> {0..<length fs} \<Longrightarrow> I \<noteq> {0..<length fs} \<Longrightarrow>
    distinct (map snd order) \<Longrightarrow> snd ` set order = {0..<length fs} - I \<Longrightarrow>
    \<forall>(now, i) \<in> set order. now - t \<le> fabricWireReassemblyExpiry \<Longrightarrow>
    (I = {} \<Longrightarrow> fst (hd order) = t) \<Longrightarrow>
    \<exists>w'. receive_all env w source
        (map (\<lambda>(now, i). (now, encodeFabricWireFragment generation (fragment_header k frameID fs i) (fs ! i))) order) = Some w'
      \<and> fw_events w' = fw_events w @ [Injected (fst route) (concat fs)]"
proof (induction order arbitrary: w l I)
  case Nil
  then show ?case by auto
next
  case (Cons e order)
  obtain now i where e: "e = (now, i)" by force
  have i: "i < length fs" "i \<notin> I" using Cons.prems(7) e by auto
  have time: "now - t \<le> fabricWireReassemblyExpiry" "I = {} \<longrightarrow> now = t" using Cons.prems(8,9) e by auto
  let ?h = "fragment_header k frameID fs i" and ?full = "insert i I = {0..<length fs}"
  from absorb_in_flight [OF fits i Cons.prems(4,3) time, of k] obtain r where
    r: "absorb (wl_reassembler l) now ?h (fs ! i) = Some (r, if ?full then Some (concat fs) else None)" and
    flight: "in_flight r frameID t fs (if ?full then {} else insert i I)" by blast
  have link: "wd_link_id ?h = k" by (simp add: fragment_header_def)
  obtain w1 l1 where
    step: "handleDatagram env w now source (encodeFabricWireFragment generation ?h (fs ! i)) = Some w1" and
    steady1: "steady w1 source generation k l1" and l1: "wl_reassembler l1 = r\<lparr> ra_drops := [] \<rparr>"
    "link_route l1 = link_route l" and
    events: "fw_events w1 = fw_events w @ (case (if ?full then Some (concat fs) else None) of None \<Rightarrow> []
       | Some frame \<Rightarrow> if int (length frame) > wl_mtu l + fabricWireFrameHeadroom then []
                       else [Injected (wl_packet_fd l) frame])"
    by (rule handleDatagram_steady [OF Cons.prems(1) fragment_header_ok [OF fits i(1)] link r in_flight_wf [OF flight]])
  have route: "wl_mtu l = snd route" "wl_packet_fd l = fst route" using Cons.prems(2) by (auto simp: link_route_def)
  have rest: "snd ` set order = {0..<length fs} - insert i I" using Cons.prems(6,7) e by auto
  show ?case
  proof (cases ?full)
    case True
    with rest have "order = []" by auto
    with True step events route small e show ?thesis by (simp add: not_less)
  next
    case False
    with events have "fw_events w1 = fw_events w" by simp
    with Cons.IH [OF steady1, of "insert i I"] False flight l1 Cons.prems rest i e step show ?thesis by auto
  qed
qed

text \<open>The datagrams that \<open>transmitFrame\<close> sends, fragment by fragment.\<close>

lemma frame_datagrams_nth:
  assumes "concat fs = frame"
  shows "frame_datagrams generation k frameID frame fs =
    map (\<lambda>i. encodeFabricWireFragment generation (fragment_header k frameID fs i) (fs ! i)) [0..<length fs]"
  using assms by (simp add: frame_datagrams_def fragment_header_def)

section \<open>Properties\<close>

text \<open>
  C3: The wire delivers frames: the datagrams that one endpoint sends for a frame, received by the
  peer endpoint in any order within the reassembly expiry while its session with the sender is up,
  make the peer inject exactly that frame, once, into the device leg of the same link, provided the
  frame respects the link's MTU bound.
\<close>

theorem wire_delivers_frame:
  assumes split: "splitFabricWireFrame frame payloadSize = Inr fragments"
    and sent: "datagrams = frame_datagrams generation linkID frameID frame fragments"
    and receiver: "steady w source generation linkID l" "map_of (ra_pending (wl_reassembler l)) frameID = None"
    and bound: "int (length frame) \<le> wl_mtu l + fabricWireFrameHeadroom"
    and order: "distinct (map snd arrivals)" "snd ` set arrivals = {0..<length datagrams}"
      "\<forall>(now, i) \<in> set arrivals. now - fst (hd arrivals) \<le> fabricWireReassemblyExpiry"
  shows "\<exists>w'. receive_all env w source (map (\<lambda>(now, i). (now, datagrams ! i)) arrivals) = Some w' \<and>
    fw_events w' = fw_events w @ [Injected (wl_packet_fd l) frame]"
proof -
  note fits = splitFabricWireFrame_fits [OF split]
  have dgrams: "datagrams = map (\<lambda>i. encodeFabricWireFragment generation
      (fragment_header linkID frameID fragments i) (fragments ! i)) [0..<length fragments]"
    unfolding sent by (rule frame_datagrams_nth [OF fits(2)])
  then have len: "length datagrams = length fragments" by simp
  have same: "map (\<lambda>(now, i). (now, datagrams ! i)) arrivals = map (\<lambda>(now, i). (now,
      encodeFabricWireFragment generation (fragment_header linkID frameID fragments i) (fragments ! i))) arrivals"
  proof (rule map_cong [OF refl])
    fix e
    assume e: "e \<in> set arrivals"
    then have "snd e \<in> {0..<length datagrams}" unfolding order(2) [symmetric] by (rule imageI)
    then have "datagrams ! snd e = encodeFabricWireFragment generation
        (fragment_header linkID frameID fragments (snd e)) (fragments ! snd e)"
      unfolding len by (simp add: dgrams)
    then show "(case e of (now, i) \<Rightarrow> (now, datagrams ! i)) = (case e of (now, i) \<Rightarrow> (now,
        encodeFabricWireFragment generation (fragment_header linkID frameID fragments i) (fragments ! i)))"
      by (simp add: case_prod_beta)
  qed
  have flight: "in_flight (wl_reassembler l) frameID (fst (hd arrivals)) fragments {}"
    using receiver reassembler_of_lookup by (auto simp: in_flight_def steady_def)
  from receive_all_in_flight [OF fits(1) _ receiver(1) refl flight] bound order fits(2,3) len
  show ?thesis unfolding same by (auto simp: link_route_def)
qed
lemma sample_live_steady:
  obtains l where "steady sample_live sample_peer 5 7 l" "ra_pending (wl_reassembler l) = []"
    "wl_mtu l = 1500" "wl_packet_fd l = 9"
proof -
  have inv: "wire_inv sample_registered" by (rule reachable_inv [OF sample_wire_new sample_registered_step])
  have links: "\<exists>l. fw_links sample_registered = [(7, l)] \<and> wl_peer_addr l = sample_peer \<and> \<not> wl_remote_oper_up l \<and>
      ra_pending (wl_reassembler l) = [] \<and> wl_mtu l = 1500 \<and> wl_packet_fd l = 9"
    by (simp add: sample_wire_defs sample_peer_def newWireReassembler_def)
  then obtain l where l: "fw_links sample_registered = [(7, l)]" "wl_peer_addr l = sample_peer"
    "\<not> wl_remote_oper_up l" "ra_pending (wl_reassembler l) = []" "wl_mtu l = 1500" "wl_packet_fd l = 9" by blast
  then have "carriers_ok {} sample_live"
    using inv by (simp add: wire_inv_def carriers_ok_def carrier_ok_def remote_up_iff sample_live_def)
  with sample_live_wf l have "steady sample_live sample_peer 5 7 l"
    by (simp add: steady_def wire_inv_def sample_live_def)
  with l that show thesis by blast
qed

theorem wire_delivers_frame_witness:
  "\<exists>w'. receive_all sample_env sample_live sample_peer
     (map (\<lambda>(now, i). (now, frame_datagrams 5 7 1 [1, 2, 3, 4, 5] sample_split ! i)) [(0, 2), (5, 0), (9, 1)]) = Some w' \<and>
     fw_events w' = fw_events sample_live @ [Injected 9 [1, 2, 3, 4, 5]]"
proof -
  obtain l where l: "steady sample_live sample_peer 5 7 l" "ra_pending (wl_reassembler l) = []"
    "wl_mtu l = 1500" "wl_packet_fd l = 9" by (rule sample_live_steady)
  let ?d = "frame_datagrams 5 7 1 [1, 2, 3, 4, 5] sample_split"
  have len: "length ?d = 3" by (simp add: frame_datagrams_def sample_split_def)
  have "snd ` set [(0::int, 2), (5, 0), (9, 1)] = {0..<length ?d}" unfolding len by auto
  moreover have "map_of (ra_pending (wl_reassembler l)) 1 = None" using l by simp
  ultimately show ?thesis
    using wire_delivers_frame [OF sample_split_ok refl l(1), of 1 "[(0, 2), (5, 0), (9, 1)]" sample_env] l(3,4)
    by (simp add: fabricWireFrameHeadroom_def fabricWireReassemblyExpiry_def)
qed

text \<open>
  C39: A capture socket that cannot be reopened after a leg moved leaves the link with a closed stop
  channel: registering the link again, or closing the endpoint, closes the channel a second time
  and panics.
\<close>

theorem failed_rebind_panics_on_retry:
  assumes "map_of (fw_links w) (sp_link_id spec) = Some l" "wl_link_id l = sp_link_id spec"
    and "we_leg_by_name env (sp_leg_name spec) = Some (legIndex, up)" "legIndex \<noteq> wl_leg_index l"
    and "we_open_capture env legIndex = None" "\<not> wl_stopped l" "\<not> fw_closed w"
    and "sp_link_id spec \<noteq> 0" "sp_leg_name spec \<noteq> ''''" "sp_owner spec \<noteq> ''''" "1 \<le> sp_mtu spec"
  shows "\<exists>w'. EnsureLink env w spec = EnsureFailed (CaptureFailed legIndex) w' \<and>
    EnsureLink env w' spec = EnsurePanic \<and> Close_wire w' = None"
proof -
  define w' where "w' = put_link (w\<lparr> fw_by_leg := AList.delete (wl_leg_index l) (fw_by_leg w) \<rparr>) (l\<lparr> wl_stopped := True \<rparr>)"
  have "EnsureLink env w spec = EnsureFailed (CaptureFailed legIndex) w'"
    using assms by (simp add: EnsureLink_def w'_def)
  moreover have look: "map_of (fw_links w') (sp_link_id spec) = Some (l\<lparr> wl_stopped := True \<rparr>)" "\<not> fw_closed w'"
    using assms(2,7) by (simp_all add: w'_def put_link_def update_conv)
  then have "EnsureLink env w' spec = EnsurePanic" using assms by (simp add: EnsureLink_def)
  moreover have "\<exists>(k, m) \<in> set (fw_links w'). wl_stopped m"
    using map_of_SomeD [OF look(1)] by force
  then have "Close_wire w' = None" using look(2) by (simp add: Close_wire_def)
  ultimately show ?thesis by blast
qed

theorem failed_rebind_panics_on_retry_witness:
  "\<exists>w'. EnsureLink (sample_env\<lparr> we_leg_by_name := \<lambda>_. Some (5, True), we_open_capture := \<lambda>_. None \<rparr>)
      sample_registered sample_spec = EnsureFailed (CaptureFailed 5) w' \<and> Close_wire w' = None"
proof -
  have "\<exists>l. map_of (fw_links sample_registered) 7 = Some l \<and> wl_link_id l = 7 \<and> wl_leg_index l = 4 \<and>
      \<not> wl_stopped l \<and> \<not> fw_closed sample_registered"
    by (simp add: sample_wire_defs)
  then obtain l where "map_of (fw_links sample_registered) 7 = Some l" "wl_link_id l = 7" "wl_leg_index l = 4"
    "\<not> wl_stopped l" "\<not> fw_closed sample_registered" by blast
  with failed_rebind_panics_on_retry [of sample_registered sample_spec l
      "sample_env\<lparr> we_leg_by_name := \<lambda>_. Some (5, True), we_open_capture := \<lambda>_. None \<rparr>" 5 True]
  show ?thesis by (auto simp: sample_spec_def)
qed

text \<open>
  C40: A peer that restarts after its session timed out inherits the carrier its predecessor
  advertised: the first heartbeat of the new generation raises every leg of that peer whose remote
  side was last advertised as up, before the new generation advertised any link.
\<close>

theorem heartbeat_revives_stale_carrier:
  assumes "wire_inv w" "map_of (fw_sessions w) source = Some s" "ss_up s"
    and "now - ss_last_heard s > fabricWireSessionTimeout"
    and "map_of (fw_links w) k = Some l" "wl_peer_addr l = source" "wl_remote_oper_up l"
  shows "\<exists>w' l'. handleDatagram env (expire_session env now w source) later source
      (encodeFabricWireHeartbeat generation) = Some w' \<and>
    map_of (fw_links w') k = Some l' \<and> wl_remote_oper_up l' \<and> \<not> wl_forced_down l'"
proof -
  define w1 where "w1 = expire_session env now w source"
  have inv1: "wire_inv w1" unfolding w1_def by (rule expire_session_inv [OF assms(1)])
  let ?s = "s\<lparr> ss_up := False, ss_generation_known := False \<rparr>"
  have remote: "ss_remote s = source" using assms(1,2) session_remote by (auto simp: wire_inv_def)
  have w1: "w1 = applyPeerCarrierLocked env (w\<lparr> fw_sessions := AList.update source ?s (fw_sessions w) \<rparr>) source"
    using assms(2-4) remote by (simp add: w1_def expire_session_def)
  have keep: "\<exists>l'. map_of (fw_links (applyPeerCarrierLocked env v source)) k = Some l' \<and>
      wl_remote_oper_up l' = wl_remote_oper_up m \<and> wl_peer_addr l' = wl_peer_addr m \<and>
      wl_last_local_up l' = wl_last_local_up m"
    if "map_of (fw_links v) k = Some m" for v m
    using that apply_carrier_fields [OF prod.collapse [symmetric], of env "fw_sessions v" m]
    by (simp add: applyPeerCarrierLocked_def map_of_mapped_values)
  obtain l1 where l1: "map_of (fw_links w1) k = Some l1" "wl_remote_oper_up l1" "wl_peer_addr l1 = source"
    using keep [of "w\<lparr> fw_sessions := AList.update source ?s (fw_sessions w) \<rparr>" l] assms(5-7) w1 by auto
  have s1: "map_of (fw_sessions w1) source = Some ?s"
    by (simp add: w1 applyPeerCarrierLocked_def update_conv)
  obtain w2 where w2: "refreshSessionLocked w1 later source generation = Some w2" "fw_links w2 = fw_links w1"
    "\<exists>s2. map_of (fw_sessions w2) source = Some s2 \<and> ss_up s2"
    using s1 by (auto simp: refreshSessionLocked_def Let_def update_conv)
  define w3 where "w3 = applyPeerCarrierLocked env w2 source"
  have inv3: "wire_inv w3" unfolding w3_def by (rule refresh_apply_inv [OF inv1 w2(1)])
  obtain l3 where l3: "map_of (fw_links w3) k = Some l3" "wl_remote_oper_up l3" "wl_peer_addr l3 = source"
    using keep [of w2 l1] l1 w2(2) by (auto simp: w3_def)
  have "fw_sessions w3 = fw_sessions w2" by (simp add: w3_def applyPeerCarrierLocked_def)
  with wire_inv_lookup(2) [OF inv3 l3(1)] l3 w2(3) have "\<not> wl_forced_down l3"
    by (simp add: carrier_ok_def remote_up_iff)
  moreover have "handleDatagram env w1 later source (encodeFabricWireHeartbeat generation) = Some w3"
    using w2(1) parse_putFabricWireHeader [of fabricWireMsgHeartbeat generation "[]"]
    by (simp add: handleDatagram_def encodeFabricWireHeartbeat_def w3_def fabricWireMsgHeartbeat_def
        fabricWireMsgData_def fabricWireMsgLinkState_def)
  ultimately show ?thesis using l3 w1_def by blast
qed

definition sample_advertised :: fabricWire where
  "sample_advertised = handleLinkStates sample_env sample_registered 0 sample_peer 5
     [\<lparr> wls_link_id = 7, wls_oper_up = True \<rparr>]"

theorem heartbeat_revives_stale_carrier_witness:
  "\<exists>w' l'. handleDatagram sample_env (expire_session sample_env 4000000000 sample_advertised sample_peer)
      5000000000 sample_peer (encodeFabricWireHeartbeat 6) = Some w' \<and>
    map_of (fw_links w') 7 = Some l' \<and> \<not> wl_forced_down l'"
proof -
  have inv: "wire_inv sample_advertised" unfolding sample_advertised_def
    by (rule handleLinkStates_inv [OF reachable_inv [OF sample_wire_new sample_registered_step]])
  have "\<exists>s l. map_of (fw_sessions sample_advertised) sample_peer = Some s \<and> ss_up s \<and> ss_last_heard s = 0 \<and>
      map_of (fw_links sample_advertised) 7 = Some l \<and> wl_peer_addr l = sample_peer \<and> wl_remote_oper_up l"
    by (simp add: sample_advertised_def handleLinkStates_def refreshSessionLocked_def sessionReferencedLocked_def
        sample_wire_defs sample_peer_def adopt_remote_state_def applyPeerCarrierLocked_def each_link_def update_conv)
  then obtain s l where s: "map_of (fw_sessions sample_advertised) sample_peer = Some s" "ss_up s" "ss_last_heard s = 0"
    and l: "map_of (fw_links sample_advertised) 7 = Some l" "wl_peer_addr l = sample_peer" "wl_remote_oper_up l" by blast
  have "4000000000 - ss_last_heard s > fabricWireSessionTimeout" by (simp add: s(3) fabricWireSessionTimeout_def)
  from heartbeat_revives_stale_carrier [OF inv s(1,2) this l, of sample_env 5000000000 6] show ?thesis by blast
qed

end
