(* ===== verification/Topology_Types.thy ===== *)
theory Topology_Types
  imports Grouping
begin

text \<open>
  The Topology resource (\<open>src/apis/v1alpha1/topology.go\<close>), the fields of Pods the startup controllers
  read, and the ownership tests of \<open>src/controllers/topology/reconcile.go\<close> that every topology pass
  shares.
\<close>

section \<open>Definitions\<close>

definition AnnotationStartupHold :: string where
  "AnnotationStartupHold = ''c9s.run/startup-hold''"
definition AnnotationStartupAdmitted :: string where
  "AnnotationStartupAdmitted = ''c9s.run/startup-admitted''"
definition StartupAdmittedAnnotation :: string where
  "StartupAdmittedAnnotation = ''c9s.run/startup-host-admitted''"
definition StartupGateContainerName :: string where
  "StartupGateContainerName = ''startup-gate''"
definition NodeUIDAnnotation :: string where
  "NodeUIDAnnotation = ''c9s.run/direct-node-uid''"
definition RestartRequestedAnnotation :: string where
  "RestartRequestedAnnotation = ''c9s.run/restart-requested''"
definition DeviceStateResetAnnotation :: string where
  "DeviceStateResetAnnotation = ''c9s.run/device-state-reset''"
definition KubectlDefaultContainerAnnotation :: string where
  "KubectlDefaultContainerAnnotation = ''kubectl.kubernetes.io/default-container''"
definition LabelApp :: string where "LabelApp = ''c9s.run/app''"
definition LabelTopologyOwner :: string where "LabelTopologyOwner = ''c9s.run/topologyOwner''"
definition Clabernetes :: string where "Clabernetes = ''clabernetes''"

text \<open>Topologies; the parts of the spec only the compiler reads are one opaque field.\<close>

record topology_rollout =
  ro_batch_size :: int
  ro_max_concurrent_per_host :: int

record topology_spec =
  ts_definition :: string
  ts_rollout :: "topology_rollout option"

datatype topology_state =
  TopologyStateUnset | TopologyStateDeploying | TopologyStateRunning | TopologyStateDegraded | TopologyStateDeployFailed

record topology_status =
  tst_kind :: string
  tst_observed_generation :: int
  tst_node_count :: int
  tst_ready_node_count :: int
  tst_link_count :: int
  tst_ready :: bool
  tst_state :: topology_state
  tst_error :: string
  tst_conditions :: "string condition list"

record topology =
  tp_meta :: object_meta
  tp_spec :: topology_spec
  tp_status :: topology_status

abbreviation tp_name :: "topology \<Rightarrow> string" where "tp_name t \<equiv> meta_name (tp_meta t)"
abbreviation tp_namespace :: "topology \<Rightarrow> string" where "tp_namespace t \<equiv> meta_namespace (tp_meta t)"
abbreviation tp_uid :: "topology \<Rightarrow> string" where "tp_uid t \<equiv> meta_uid (tp_meta t)"

text \<open>The compiler's result; the passes only count it and look names up.\<close>

record CompiledTopology =
  ct_kind :: string
  ct_nodes :: "(string, string) gomap"
  ct_links :: "string list"

record pod =
  pd_meta :: object_meta
  pd_node_name :: string
  pd_init_containers :: "string list"
  pd_phase :: string
  pd_conditions :: "(string \<times> string) list"
  pd_container_statuses :: "(string \<times> bool option) list"
  pd_pod_ip :: string

abbreviation pd_uid :: "pod \<Rightarrow> string" where "pd_uid p \<equiv> meta_uid (pd_meta p)"
abbreviation pd_node_uid :: "pod \<Rightarrow> string" where
  "pd_node_uid p \<equiv> gm_str (meta_annotations (pd_meta p)) NodeUIDAnnotation"

text \<open>\<open>annotate\<close> and \<open>unannotate\<close>: the assignment to and the \<open>delete\<close> from \<open>node.Annotations\<close>.\<close>

definition annotate :: "string \<Rightarrow> string \<Rightarrow> object_meta \<Rightarrow> object_meta" where
  "annotate key value m = m\<lparr> meta_annotations := AList.update key value (meta_annotations m) \<rparr>"

definition unannotate :: "string \<Rightarrow> object_meta \<Rightarrow> object_meta" where
  "unannotate key m = m\<lparr> meta_annotations := AList.delete key (meta_annotations m) \<rparr>"

definition ownedBy :: "object_meta \<Rightarrow> topology \<Rightarrow> bool" where
  "ownedBy obj topology \<longleftrightarrow> (\<exists>r \<in> set (meta_owners obj). ref_uid r = tp_uid topology)"

definition generatedForTopology :: "object_meta \<Rightarrow> topology \<Rightarrow> bool" where
  "generatedForTopology obj topology \<longleftrightarrow>
     ownedBy obj topology \<or>
     gm_str (meta_labels obj) LabelApp = Clabernetes \<and> gm_str (meta_labels obj) LabelTopologyOwner = tp_name topology"

definition startupBatchSize :: "topology \<Rightarrow> int" where
  "startupBatchSize topology =
     (case ts_rollout (tp_spec topology) of None \<Rightarrow> 0 | Some r \<Rightarrow> ro_batch_size r)"

definition startupSandboxReady :: "pod \<Rightarrow> bool" where
  "startupSandboxReady p \<longleftrightarrow>
     (\<exists>(type, status) \<in> set (pd_conditions p). type = ''PodReadyToStartContainers'' \<and> status = ''True'')"

text \<open>
  The newest live Pod per Node UID, by creation timestamp; among equals the first listed stays.
\<close>

fun newest_pods :: "pod list \<Rightarrow> (string, pod) gomap \<Rightarrow> (string, pod) gomap" where
  "newest_pods [] newest = newest"
| "newest_pods (p # pods) newest =
     (if meta_deletion (pd_meta p) \<noteq> None then newest_pods pods newest
      else newest_pods pods
        (case map_of newest (pd_node_uid p) of
           None \<Rightarrow> AList.update (pd_node_uid p) p newest
         | Some prior \<Rightarrow>
             if meta_creation (pd_meta p) > meta_creation (pd_meta prior)
             then AList.update (pd_node_uid p) p newest else newest))"

definition startupAdmissionPods :: "pod list \<Rightarrow> (string, pod) gomap" where
  "startupAdmissionPods pods = newest_pods pods []"

section \<open>Annotations\<close>

lemma annotate_simps [simp]:
  "meta_annotations (annotate k v m) = AList.update k v (meta_annotations m)"
  "meta_name (annotate k v m) = meta_name m" "meta_uid (annotate k v m) = meta_uid m"
  "meta_namespace (annotate k v m) = meta_namespace m" "meta_labels (annotate k v m) = meta_labels m"
  "meta_owners (annotate k v m) = meta_owners m" "meta_deletion (annotate k v m) = meta_deletion m"
  "meta_creation (annotate k v m) = meta_creation m"
  by (simp_all add: annotate_def)

lemma unannotate_simps [simp]:
  "meta_annotations (unannotate k m) = AList.delete k (meta_annotations m)"
  "meta_name (unannotate k m) = meta_name m" "meta_uid (unannotate k m) = meta_uid m"
  "meta_namespace (unannotate k m) = meta_namespace m" "meta_labels (unannotate k m) = meta_labels m"
  "meta_owners (unannotate k m) = meta_owners m" "meta_deletion (unannotate k m) = meta_deletion m"
  "meta_creation (unannotate k m) = meta_creation m"
  by (simp_all add: unannotate_def)

section \<open>Newest Pods\<close>

text \<open>The entry of a UID is a live Pod of that UID that no other live Pod of it is newer than.\<close>

definition live_pods :: "pod list \<Rightarrow> string \<Rightarrow> pod list" where
  "live_pods pods uid = filter (\<lambda>p. meta_deletion (pd_meta p) = None \<and> pd_node_uid p = uid) pods"

lemma newest_pods_lookup:
  "map_of (newest_pods pods newest) uid = Some p \<Longrightarrow>
     (map_of newest uid = Some p \<or> p \<in> set (live_pods pods uid)) \<and>
     (\<forall>q \<in> set (live_pods pods uid). meta_creation (pd_meta q) \<le> meta_creation (pd_meta p)) \<and>
     (\<forall>q. map_of newest uid = Some q \<longrightarrow> meta_creation (pd_meta q) \<le> meta_creation (pd_meta p))"
proof (induction pods newest rule: newest_pods.induct)
  case (1 newest)
  then show ?case by (simp add: live_pods_def)
next
  case (2 x pods newest)
  show ?case
  proof (cases "meta_deletion (pd_meta x) = None")
    case False
    with 2 show ?thesis by (auto simp: live_pods_def)
  next
    case True
    define newest' where "newest' = (case map_of newest (pd_node_uid x) of
           None \<Rightarrow> AList.update (pd_node_uid x) x newest
         | Some prior \<Rightarrow>
             if meta_creation (pd_meta x) > meta_creation (pd_meta prior)
             then AList.update (pd_node_uid x) x newest else newest)"
    have IH: "(map_of newest' uid = Some p \<or> p \<in> set (live_pods pods uid)) \<and>
       (\<forall>q \<in> set (live_pods pods uid). meta_creation (pd_meta q) \<le> meta_creation (pd_meta p)) \<and>
       (\<forall>q. map_of newest' uid = Some q \<longrightarrow> meta_creation (pd_meta q) \<le> meta_creation (pd_meta p))"
      using 2 True by (simp add: newest'_def)
    show ?thesis
    proof (cases "pd_node_uid x = uid")
      case False
      then have "map_of newest' uid = map_of newest uid"
        by (simp add: newest'_def split: option.split)
      with IH False show ?thesis by (simp add: live_pods_def)
    next
      case mine: True
      have live: "live_pods (x # pods) uid = x # live_pods pods uid" using True mine by (simp add: live_pods_def)
      show ?thesis
      proof (cases "map_of newest uid")
        case None
        then have "map_of newest' uid = Some x" using mine by (simp add: newest'_def)
        with IH None show ?thesis by (auto simp: live)
      next
        case (Some prior)
        show ?thesis
        proof (cases "meta_creation (pd_meta x) > meta_creation (pd_meta prior)")
          case True
          then have "map_of newest' uid = Some x" using mine Some by (simp add: newest'_def)
          with IH Some True show ?thesis by (auto simp: live)
        next
          case False
          then have "map_of newest' uid = Some prior" using mine Some by (simp add: newest'_def)
          with IH Some False show ?thesis by (auto simp: live)
        qed
      qed
    qed
  qed
qed

lemma newest_pod:
  assumes "map_of (startupAdmissionPods pods) uid = Some p"
  shows "p \<in> set (live_pods pods uid)"
    and "q \<in> set (live_pods pods uid) \<Longrightarrow> meta_creation (pd_meta q) \<le> meta_creation (pd_meta p)"
  using newest_pods_lookup [of pods "[]" uid p] assms by (auto simp: startupAdmissionPods_def)


section \<open>Objects for concrete instances\<close>

definition sample_topology :: topology where
  "sample_topology = \<lparr> tp_meta = sample_meta ''topo'',
     tp_spec = \<lparr> ts_definition = '''', ts_rollout = Some \<lparr> ro_batch_size = 1, ro_max_concurrent_per_host = 0 \<rparr> \<rparr>,
     tp_status = \<lparr> tst_kind = ''containerlab'', tst_observed_generation = 0, tst_node_count = 0, tst_ready_node_count = 0,
       tst_link_count = 0, tst_ready = False, tst_state = TopologyStateUnset, tst_error = '''', tst_conditions = [] \<rparr> \<rparr>"

definition sample_owned :: "string \<Rightarrow> (string, string) gomap \<Rightarrow> node" where
  "sample_owned name annotations = (sample_node name '''')\<lparr> nd_meta := (sample_meta name)\<lparr>
     meta_annotations := annotations,
     meta_owners := [\<lparr> ref_api_version = ''c9s.run/v1alpha1'', ref_kind = ''Topology'', ref_name = ''topo'',
       ref_uid = ''uid-topo'', ref_controller = Some True \<rparr>] \<rparr> \<rparr>"

definition sample_pod :: "string \<Rightarrow> string \<Rightarrow> bool \<Rightarrow> pod" where
  "sample_pod name host ready = \<lparr> pd_meta = (sample_meta (''pod-'' @ name))\<lparr>
       meta_annotations := [(NodeUIDAnnotation, ''uid-'' @ name)] \<rparr>,
     pd_node_name = host, pd_init_containers = [], pd_phase = ''Pending'',
     pd_conditions = [(''PodReadyToStartContainers'', if ready then ''True'' else ''False'')],
     pd_container_statuses = [], pd_pod_ip = '''' \<rparr>"

end
