(* ===== verification/Startup_Host.thy ===== *)
theory Startup_Host
  imports Topology_Types "HOL-Library.Product_Lexorder"
begin

text \<open>
  Host admission (\<open>src/controllers/node/startuphost.go\<close>): Pods with a startup gate are granted a slot on
  their Kubernetes host while the number of booting primaries there is below the installation's and
  the Topology's limit. A grant is an annotation with the Pod's own UID; a local set bridges the time
  until the cache shows it.
\<close>

section \<open>Definitions\<close>

definition hasStartupHostGate :: "pod \<Rightarrow> bool" where
  "hasStartupHostGate p \<longleftrightarrow> StartupGateContainerName \<in> set (pd_init_containers p)"

definition startupPrimaryStarted :: "pod \<Rightarrow> bool" where
  "startupPrimaryStarted p =
     (case map_of (pd_container_statuses p)
             (gm_str (meta_annotations (pd_meta p)) KubectlDefaultContainerAnnotation) of
        None \<Rightarrow> False
      | Some started \<Rightarrow> started = Some True)"

text \<open>\<open>metav1.GetControllerOf\<close>: the first owner reference marked as the controller.\<close>

definition GetControllerOf :: "object_meta \<Rightarrow> owner_reference option" where
  "GetControllerOf m = List.find (\<lambda>r. ref_controller r = Some True) (meta_owners m)"

definition topology_reference :: "owner_reference \<Rightarrow> bool" where
  "topology_reference r \<longleftrightarrow> ref_kind r = ''Topology'' \<and> ref_api_version r = ''c9s.run/v1alpha1''"

text \<open>The gate choice of an existing Deployment is kept; a new one follows the policies.\<close>

definition startupHostGate :: "int \<Rightarrow> (string \<Rightarrow> string \<Rightarrow> api_error + topology) \<Rightarrow> node \<Rightarrow> bool option
    \<Rightarrow> api_error + bool" where
  "startupHostGate limit get_topology n existing_gate =
     (case existing_gate of
        Some gate \<Rightarrow> Inr gate
      | None \<Rightarrow>
          if limit > 0 then Inr True
          else case GetControllerOf (nd_meta n) of
                 None \<Rightarrow> Inr False
               | Some owner \<Rightarrow>
                   if \<not> topology_reference owner then Inr False
                   else case get_topology (nd_namespace n) (ref_name owner) of
                          Inl e \<Rightarrow> Inl e
                        | Inr t \<Rightarrow> Inr (tp_uid t = ref_uid owner \<and>
                            (case ts_rollout (tp_spec t) of None \<Rightarrow> False | Some r \<Rightarrow> ro_max_concurrent_per_host r > 0)))"

record host_api =
  ha_topologies :: "api_error + topology list"
  ha_patch :: "(pod \<times> pod) list \<Rightarrow> pod \<Rightarrow> api_error option"

definition topology_limits :: "topology list \<Rightarrow> (string, int) gomap" where
  "topology_limits ts = foldl (\<lambda>limits t. AList.update (tp_uid t)
     (case ts_rollout (tp_spec t) of None \<Rightarrow> 0 | Some r \<Rightarrow> ro_max_concurrent_per_host r) limits) [] ts"

definition node_owners :: "node list \<Rightarrow> (string, string) gomap" where
  "node_owners nodes = foldl (\<lambda>owners n. AList.update (nd_uid n)
     (case GetControllerOf (nd_meta n) of
        None \<Rightarrow> '''' | Some r \<Rightarrow> if topology_reference r then ref_uid r else '''') owners) [] nodes"

definition host_granted :: "pod \<Rightarrow> bool" where
  "host_granted p \<longleftrightarrow> pd_uid p \<noteq> '''' \<and>
     gm_str (meta_annotations (pd_meta p)) StartupAdmittedAnnotation = pd_uid p"

definition boot_over :: "pod \<Rightarrow> bool" where
  "boot_over p \<longleftrightarrow> startupPrimaryStarted p \<or> pd_phase p = ''Succeeded'' \<or> pd_phase p = ''Failed''"

record host_state =
  hs_admissions :: "string list"
  hs_host_count :: "(string, int) gomap"
  hs_topology_count :: "(string \<times> string, int) gomap"
  hs_pending :: "pod list"

text \<open>
  The counting loop; the flag says that it ran to its end. It stops where a booting Pod belongs to a
  Node that is not listed.
\<close>

definition count_pod :: "(string, string) gomap \<Rightarrow> pod \<Rightarrow> host_state \<Rightarrow> bool \<times> host_state" where
  "count_pod owners p s =
     (let reserved = (pd_uid p \<in> set (hs_admissions s));
          granted = host_granted p;
          s = (if granted then s\<lparr> hs_admissions := removeAll (pd_uid p) (hs_admissions s) \<rparr> else s);
          host = pd_node_name p
      in
      if host = '''' then (True, s)
      else if \<not> granted \<and> \<not> reserved \<and> hasStartupHostGate p
      then (True, if meta_deletion (pd_meta p) = None then s\<lparr> hs_pending := hs_pending s @ [p] \<rparr> else s)
      else if boot_over p then (True, s)
      else let s = s\<lparr> hs_host_count := AList.update host (gm_int (hs_host_count s) host + 1) (hs_host_count s) \<rparr> in
           case map_of owners (pd_node_uid p) of
             None \<Rightarrow> (False, s)
           | Some owner \<Rightarrow>
               (True, s\<lparr> hs_topology_count := AList.update (owner, host)
                          (gm_int (hs_topology_count s) (owner, host) + 1) (hs_topology_count s) \<rparr>))"

fun count_hosts :: "(string, string) gomap \<Rightarrow> pod list \<Rightarrow> host_state \<Rightarrow> bool \<times> host_state" where
  "count_hosts owners [] s = (True, s)"
| "count_hosts owners (p # pods) s =
     (case count_pod owners p s of
        (False, s') \<Rightarrow> (False, s')
      | (True, s') \<Rightarrow> count_hosts owners pods s')"

definition pod_order :: "pod \<Rightarrow> int \<times> string" where
  "pod_order p = (meta_creation (pd_meta p), meta_namespace (pd_meta p) @ ''/'' @ meta_name (pd_meta p))"

definition grant_host :: "pod \<Rightarrow> pod" where
  "grant_host p = p\<lparr> pd_meta := annotate StartupAdmittedAnnotation (pd_uid p) (pd_meta p) \<rparr>"

text \<open>
  The grant loop. \<open>host_full\<close> is the limit test of the source, in which an absent Topology has
  limit 0.
\<close>

definition host_full :: "int \<Rightarrow> (string, int) gomap \<Rightarrow> string \<Rightarrow> string \<Rightarrow> host_state \<Rightarrow> bool" where
  "host_full global limits owner host s \<longleftrightarrow>
     (global > 0 \<and> gm_int (hs_host_count s) host \<ge> global) \<or>
     (gm_int limits owner > 0 \<and> gm_int (hs_topology_count s) (owner, host) \<ge> gm_int limits owner)"

fun grant_hosts :: "host_api \<Rightarrow> int \<Rightarrow> (string, int) gomap \<Rightarrow> (string, string) gomap \<Rightarrow> pod list \<Rightarrow> host_state
    \<Rightarrow> (pod \<times> pod) list \<Rightarrow> api_error option \<times> host_state \<times> (pod \<times> pod) list" where
  "grant_hosts api global limits owners [] s calls = (None, s, calls)"
| "grant_hosts api global limits owners (p # pods) s calls =
     (case map_of owners (pd_node_uid p) of
        None \<Rightarrow> grant_hosts api global limits owners pods s calls
      | Some owner \<Rightarrow>
          let host = pd_node_name p in
          if (owner \<noteq> '''' \<and> map_of limits owner = None) \<or> host_full global limits owner host s
          then grant_hosts api global limits owners pods s calls
          else let calls' = calls @ [(p, grant_host p)] in
               case ha_patch api calls (grant_host p) of
                 Some e \<Rightarrow> (Some e, s, calls')
               | None \<Rightarrow>
                   grant_hosts api global limits owners pods
                     (s\<lparr> hs_admissions := List.insert (pd_uid p) (hs_admissions s),
                         hs_host_count := AList.update host (gm_int (hs_host_count s) host + 1) (hs_host_count s),
                         hs_topology_count := AList.update (owner, host)
                           (gm_int (hs_topology_count s) (owner, host) + 1) (hs_topology_count s) \<rparr>) calls')"

definition admitStartupHosts :: "host_api \<Rightarrow> int \<Rightarrow> string list \<Rightarrow> node list \<Rightarrow> pod list
    \<Rightarrow> api_error option \<times> string list \<times> (pod \<times> pod) list" where
  "admitStartupHosts api global admissions nodes pods =
     (if \<not> (\<exists>p \<in> set pods. hasStartupHostGate p) then (None, admissions, [])
      else case ha_topologies api of
        Inl e \<Rightarrow> (Some e, admissions, [])
      | Inr topologies \<Rightarrow>
          let owners = node_owners nodes in
          (case count_hosts owners pods
                  \<lparr> hs_admissions = admissions, hs_host_count = [], hs_topology_count = [], hs_pending = [] \<rparr> of
             (False, s) \<Rightarrow> (None, hs_admissions s, [])
           | (True, s) \<Rightarrow>
               let s = s\<lparr> hs_admissions := filter (\<lambda>uid. uid \<in> pd_uid ` set pods) (hs_admissions s) \<rparr> in
               (case grant_hosts api global (topology_limits topologies) owners
                       (sort_key pod_order (hs_pending s)) s [] of
                  (err, s', calls) \<Rightarrow> (err, hs_admissions s', calls))))"

definition startupHostPending :: "pod \<Rightarrow> bool" where
  "startupHostPending p \<longleftrightarrow>
     meta_deletion (pd_meta p) = None \<and> hasStartupHostGate p \<and> \<not> startupPrimaryStarted p"

section \<open>Booting Pods\<close>

text \<open>
  A Pod boots on its host when it is scheduled, is not waiting behind the gate and its boot is not
  over. \<open>booting_on\<close> counts the listed Pods that do so, given the local reservations; \<open>booting_in\<close> those
  of one Topology.
\<close>

definition booting :: "string list \<Rightarrow> pod \<Rightarrow> bool" where
  "booting admissions p \<longleftrightarrow>
     pd_node_name p \<noteq> '''' \<and> (host_granted p \<or> pd_uid p \<in> set admissions \<or> \<not> hasStartupHostGate p) \<and> \<not> boot_over p"

definition booting_count :: "string list \<Rightarrow> pod list \<Rightarrow> (pod \<Rightarrow> bool) \<Rightarrow> int" where
  "booting_count admissions pods Q = int (length (filter (\<lambda>p. booting admissions p \<and> Q p) pods))"

definition booting_on :: "string list \<Rightarrow> pod list \<Rightarrow> string \<Rightarrow> int" where
  "booting_on admissions pods host = booting_count admissions pods (\<lambda>p. pd_node_name p = host)"

definition booting_in :: "string list \<Rightarrow> (string, string) gomap \<Rightarrow> pod list \<Rightarrow> string \<Rightarrow> string \<Rightarrow> int" where
  "booting_in admissions owners pods owner host =
     booting_count admissions pods (\<lambda>p. pd_node_name p = host \<and> map_of owners (pd_node_uid p) = Some owner)"

lemma booting_count_Cons:
  "booting_count adm (p # pods) Q = (if booting adm p \<and> Q p then 1 else 0) + booting_count adm pods Q"
  by (simp add: booting_count_def)

lemma booting_count_Nil [simp]: "booting_count adm [] Q = 0"
  by (simp add: booting_count_def)

lemma booting_count_cong:
  "(\<And>p. p \<in> set pods \<Longrightarrow> booting adm p = booting adm' p) \<Longrightarrow> booting_count adm pods Q = booting_count adm' pods Q"
  by (induction pods) (simp_all add: booting_count_Cons)

text \<open>Forgetting the reservations of granted Pods and of Pods that are gone changes nothing.\<close>

lemma booting_forget_granted:
  assumes "host_granted g" "pd_uid p = pd_uid g \<Longrightarrow> p = g"
  shows "booting (removeAll (pd_uid g) adm) p = booting adm p"
  using assms by (cases "p = g") (auto simp: booting_def)

text \<open>One more reservation adds at most the Pod it is for.\<close>

lemmas other_uid = distinct_key_other [where f = pd_uid]

lemma booting_count_grant:
  assumes "distinct (map pd_uid pods)"
  shows "booting_count (List.insert (pd_uid g) adm) pods Q \<le> booting_count adm pods Q + (if g \<in> set pods \<and> Q g then 1 else 0)
    \<or> g \<notin> set pods"
  using assms
proof (induction pods)
  case Nil
  then show ?case by simp
next
  case (Cons p pods)
  show ?case
  proof (cases "pd_uid p = pd_uid g")
    case True
    with other_uid [OF Cons.prems] have rest: "booting (List.insert (pd_uid g) adm) q = booting adm q" if "q \<in> set pods" for q
      using that by (simp add: booting_def)
    have "booting_count (List.insert (pd_uid g) adm) pods Q = booting_count adm pods Q"
      by (rule booting_count_cong) (rule rest)
    moreover have "g \<notin> set pods" using Cons.prems True by auto
    ultimately show ?thesis by (auto simp: booting_count_Cons)
  next
    case False
    then have "booting (List.insert (pd_uid g) adm) p = booting adm p" by (simp add: booting_def)
    with Cons False show ?thesis by (auto simp: booting_count_Cons)
  qed
qed

text \<open>What the counting loop leaves: the counts of the booting Pods and the Pods that wait.\<close>

lemma booting_forget_other: "pd_uid p \<noteq> u \<Longrightarrow> booting (removeAll u adm) p = booting adm p"
  by (simp add: booting_def)

lemma count_pod_admissions:
  assumes "count_pod owners p s = (ok, s')"
  shows "hs_admissions s' = (if host_granted p then removeAll (pd_uid p) (hs_admissions s) else hs_admissions s)"
  using assms by (auto simp: count_pod_def Let_def split: if_splits option.splits)

lemma count_pod_counts:
  assumes "count_pod owners p s = (True, s')"
  shows "gm_int (hs_host_count s') h =
      gm_int (hs_host_count s) h + (if booting (hs_admissions s) p \<and> pd_node_name p = h then 1 else 0)"
    and "gm_int (hs_topology_count s') (w, h) = gm_int (hs_topology_count s) (w, h) +
      (if booting (hs_admissions s) p \<and> pd_node_name p = h \<and> map_of owners (pd_node_uid p) = Some w then 1 else 0)"
  using assms by (auto simp: count_pod_def booting_def Let_def split: if_splits option.splits)

lemma count_pod_pending:
  assumes "count_pod owners p s = (ok, s')" "q \<in> set (hs_pending s')"
  shows "q \<in> set (hs_pending s) \<or> q = p \<and> pd_node_name p \<noteq> '''' \<and> hasStartupHostGate p \<and>
    \<not> host_granted p \<and> pd_uid p \<notin> set (hs_admissions s) \<and> meta_deletion (pd_meta p) = None"
  using assms by (auto simp: count_pod_def Let_def split: if_splits option.splits)

lemma count_hosts_counts:
  assumes "count_hosts owners pods s = (True, s')" "distinct (map pd_uid pods)"
  shows "gm_int (hs_host_count s') h = gm_int (hs_host_count s) h + booting_on (hs_admissions s) pods h \<and>
    gm_int (hs_topology_count s') (w, h) = gm_int (hs_topology_count s) (w, h) + booting_in (hs_admissions s) owners pods w h"
  using assms
proof (induction pods arbitrary: s)
  case Nil
  then show ?case by (simp add: booting_on_def booting_in_def)
next
  case (Cons p pods)
  obtain s1 where s1: "count_pod owners p s = (True, s1)" "count_hosts owners pods s1 = (True, s')"
    using Cons.prems(1) by (auto split: prod.splits bool.splits)
  have "booting_count (hs_admissions s1) pods Q = booting_count (hs_admissions s) pods Q" for Q
    using other_uid [OF Cons.prems(2)]
    by (intro booting_count_cong) (simp add: count_pod_admissions [OF s1(1)] booting_forget_other)
  with Cons.IH [OF s1(2)] Cons.prems(2) count_pod_counts [OF s1(1)] show ?case
    by (simp add: booting_on_def booting_in_def booting_count_Cons)
qed

lemma count_hosts_admissions:
  assumes "count_hosts owners pods s = (ok, s')"
  shows "set (hs_admissions s') \<subseteq> set (hs_admissions s)"
    and "u \<in> set (hs_admissions s) \<Longrightarrow> u \<in> set (hs_admissions s') \<or> (\<exists>p \<in> set pods. pd_uid p = u \<and> host_granted p)"
proof -
  have "set (hs_admissions s') \<subseteq> set (hs_admissions s) \<and>
    (\<forall>u \<in> set (hs_admissions s). u \<in> set (hs_admissions s') \<or> (\<exists>p \<in> set pods. pd_uid p = u \<and> host_granted p))"
    using assms
  proof (induction pods arbitrary: s)
    case (Cons p pods)
    obtain ok1 s1 where s1: "count_pod owners p s = (ok1, s1)" by (cases "count_pod owners p s")
    note adm = count_pod_admissions [OF s1]
    show ?case
    proof (cases ok1)
      case False
      with s1 Cons.prems have "s' = s1" by simp
      then show ?thesis by (auto simp: adm)
    next
      case True
      with s1 Cons.prems have "count_hosts owners pods s1 = (ok, s')" by simp
      from Cons.IH [OF this] show ?thesis unfolding adm by (auto split: if_splits)
    qed
  qed simp
  then show "set (hs_admissions s') \<subseteq> set (hs_admissions s)"
    "u \<in> set (hs_admissions s) \<Longrightarrow> u \<in> set (hs_admissions s') \<or> (\<exists>p \<in> set pods. pd_uid p = u \<and> host_granted p)"
    by blast+
qed

lemma count_hosts_pending:
  assumes "count_hosts owners pods s = (ok, s')" "q \<in> set (hs_pending s')" "distinct (map pd_uid pods)"
  shows "q \<in> set (hs_pending s) \<or> q \<in> set pods \<and> pd_node_name q \<noteq> '''' \<and> hasStartupHostGate q \<and>
    \<not> host_granted q \<and> pd_uid q \<notin> set (hs_admissions s) \<and> meta_deletion (pd_meta q) = None"
  using assms
proof (induction pods arbitrary: s)
  case (Cons p pods)
  obtain ok1 s1 where s1: "count_pod owners p s = (ok1, s1)" by (cases "count_pod owners p s")
  show ?case
  proof (cases ok1)
    case False
    with s1 Cons.prems count_pod_pending [OF s1] show ?thesis by auto
  next
    case True
    with s1 Cons.prems have "count_hosts owners pods s1 = (ok, s')" by simp
    from Cons.IH [OF this Cons.prems(2)] Cons.prems(3)
    consider "q \<in> set (hs_pending s1)" | "q \<in> set pods" "pd_node_name q \<noteq> ''''" "hasStartupHostGate q"
      "\<not> host_granted q" "pd_uid q \<notin> set (hs_admissions s1)" "meta_deletion (pd_meta q) = None" by auto
    then show ?thesis
    proof cases
      case 1
      with count_pod_pending [OF s1] show ?thesis by auto
    next
      case 2
      with other_uid [OF Cons.prems(3) 2(1)] count_pod_admissions [OF s1] show ?thesis by (auto split: if_splits)
    qed
  qed
qed simp


lemma uid_unique:
  assumes "distinct (map pd_uid pods)" "p \<in> set pods" "q \<in> set pods" "pd_uid p = pd_uid q"
  shows "p = q"
  using assms(2-4) inj_onD [of pd_uid "set pods" p q] assms(1) by (simp add: distinct_map)

text \<open>After counting, the reservations that are left describe the same booting Pods.\<close>

lemma booting_after_count:
  assumes "count_hosts owners pods s = (ok, s')" "distinct (map pd_uid pods)" "p \<in> set pods"
  shows "booting (hs_admissions s') p = booting (hs_admissions s) p"
proof -
  have "pd_uid p \<in> set (hs_admissions s') \<or> host_granted p \<longleftrightarrow> pd_uid p \<in> set (hs_admissions s) \<or> host_granted p"
    using count_hosts_admissions [OF assms(1)] uid_unique [OF assms(2)] assms(3) by blast
  then show ?thesis by (auto simp: booting_def)
qed

text \<open>The counts bound the booting Pods, and a grant only raises a count below its limit.\<close>

definition counted :: "(string, string) gomap \<Rightarrow> pod list \<Rightarrow> host_state \<Rightarrow> bool" where
  "counted owners pods s \<longleftrightarrow>
     (\<forall>h. booting_on (hs_admissions s) pods h \<le> gm_int (hs_host_count s) h) \<and>
     (\<forall>w h. booting_in (hs_admissions s) owners pods w h \<le> gm_int (hs_topology_count s) (w, h))"

lemma counted_grant:
  assumes "counted owners pods s" "distinct (map pd_uid pods)" "g \<in> set pods" "map_of owners (pd_node_uid g) = Some owner"
    and "s' = s\<lparr> hs_admissions := List.insert (pd_uid g) (hs_admissions s),
            hs_host_count := AList.update (pd_node_name g) (gm_int (hs_host_count s) (pd_node_name g) + 1) (hs_host_count s),
            hs_topology_count := AList.update (owner, pd_node_name g)
              (gm_int (hs_topology_count s) (owner, pd_node_name g) + 1) (hs_topology_count s) \<rparr>"
  shows "counted owners pods s'"
proof -
  have grow: "booting_count (List.insert (pd_uid g) (hs_admissions s)) pods Q \<le>
      booting_count (hs_admissions s) pods Q + (if Q g then 1 else 0)" for Q
    using booting_count_grant [OF assms(2), of g "hs_admissions s" Q] assms(3) by simp
  have "booting_on (hs_admissions s') pods h \<le> gm_int (hs_host_count s') h" for h
  proof -
    have "booting_count (hs_admissions s) pods (\<lambda>p. pd_node_name p = h) \<le> gm_int (hs_host_count s) h"
      using assms(1) by (simp add: counted_def booting_on_def)
    with grow [of "\<lambda>p. pd_node_name p = h"] show ?thesis
      by (simp add: booting_on_def assms(5) split: if_splits)
  qed
  moreover have "booting_in (hs_admissions s') owners pods w h \<le> gm_int (hs_topology_count s') (w, h)" for w h
  proof -
    let ?Q = "\<lambda>p. pd_node_name p = h \<and> map_of owners (pd_node_uid p) = Some w"
    have "booting_count (hs_admissions s) pods ?Q \<le> gm_int (hs_topology_count s) (w, h)"
      using assms(1) by (simp add: counted_def booting_in_def)
    with grow [of ?Q] assms(4) show ?thesis
      by (auto simp: booting_in_def assms(5) split: if_splits)
  qed
  ultimately show ?thesis by (simp add: counted_def)
qed

lemma grant_hosts_bounds:
  assumes "grant_hosts api global limits owners ps s calls = (err, s', calls')"
    and "distinct (map pd_uid pods)" "set ps \<subseteq> set pods" "counted owners pods s"
  shows "counted owners pods s' \<and>
    (global > 0 \<longrightarrow> gm_int (hs_host_count s') h \<le> max global (gm_int (hs_host_count s) h)) \<and>
    (gm_int limits w > 0 \<longrightarrow>
       gm_int (hs_topology_count s') (w, h) \<le> max (gm_int limits w) (gm_int (hs_topology_count s) (w, h))) \<and>
    (\<exists>gs. calls' = calls @ map (\<lambda>g. (g, grant_host g)) gs \<and> set gs \<subseteq> set ps)"
  using assms(1,3,4)
proof (induction ps arbitrary: s calls)
  case Nil
  then show ?case by simp
next
  case (Cons g ps)
  define skip where "skip \<longleftrightarrow> (case map_of owners (pd_node_uid g) of None \<Rightarrow> True
      | Some owner \<Rightarrow> (owner \<noteq> '''' \<and> map_of limits owner = None) \<or> host_full global limits owner (pd_node_name g) s)"
  show ?case
  proof (cases skip)
    case True
    with Cons.prems(1) have "grant_hosts api global limits owners ps s calls = (err, s', calls')"
      by (auto simp: skip_def Let_def split: option.splits)
    from Cons.IH [OF this] Cons.prems(2,3) show ?thesis by auto
  next
    case False
    then obtain owner where owner: "map_of owners (pd_node_uid g) = Some owner"
      "\<not> (owner \<noteq> '''' \<and> map_of limits owner = None)" "\<not> host_full global limits owner (pd_node_name g) s"
      by (auto simp: skip_def split: option.splits)
    let ?calls = "calls @ [(g, grant_host g)]"
    show ?thesis
    proof (cases "ha_patch api calls (grant_host g)")
      case (Some e)
      with Cons.prems(1) owner have "s' = s" "calls' = ?calls" by (simp_all add: Let_def)
      with Cons.prems(3) show ?thesis by (auto intro!: exI [of _ "[g]"])
    next
      case None
      define s1 where "s1 = s\<lparr> hs_admissions := List.insert (pd_uid g) (hs_admissions s),
            hs_host_count := AList.update (pd_node_name g) (gm_int (hs_host_count s) (pd_node_name g) + 1) (hs_host_count s),
            hs_topology_count := AList.update (owner, pd_node_name g)
              (gm_int (hs_topology_count s) (owner, pd_node_name g) + 1) (hs_topology_count s) \<rparr>"
      have step: "grant_hosts api global limits owners ps s1 ?calls = (err, s', calls')"
        using Cons.prems(1) owner None by (simp add: Let_def s1_def)
      have "counted owners pods s1"
        using counted_grant [OF Cons.prems(3) assms(2) _ owner(1) s1_def] Cons.prems(2) by simp
      note IH = Cons.IH [OF step _ this]
      have host: "global > 0 \<Longrightarrow> gm_int (hs_host_count s1) h \<le> max global (gm_int (hs_host_count s) h)"
        using owner(3) by (auto simp: s1_def host_full_def)
      have topo: "gm_int limits w > 0 \<Longrightarrow>
          gm_int (hs_topology_count s1) (w, h) \<le> max (gm_int limits w) (gm_int (hs_topology_count s) (w, h))"
        using owner(3) by (auto simp: s1_def host_full_def)
      from IH Cons.prems(2) obtain gs where "calls' = ?calls @ map (\<lambda>g. (g, grant_host g)) gs" "set gs \<subseteq> set ps" by auto
      then have "calls' = calls @ map (\<lambda>g. (g, grant_host g)) (g # gs)" "set (g # gs) \<subseteq> set (g # ps)" by auto
      with IH host topo Cons.prems(2) show ?thesis by (smt (verit) set_subset_Cons subset_trans)
    qed
  qed
qed


lemma admitStartupHosts_cases:
  assumes "admitStartupHosts api global adm nodes pods = (err, adm', calls)" "distinct (map pd_uid pods)"
  obtains (idle) "\<And>p. p \<in> set pods \<Longrightarrow> booting adm' p = booting adm p" "calls = []"
  | (grant) topologies s s' where "ha_topologies api = Inr topologies" "adm' = hs_admissions s'"
      "counted (node_owners nodes) pods s"
      "\<And>h. gm_int (hs_host_count s) h = booting_on adm pods h"
      "\<And>w h. gm_int (hs_topology_count s) (w, h) = booting_in adm (node_owners nodes) pods w h"
      "\<And>q. q \<in> set (hs_pending s) \<Longrightarrow> q \<in> set pods \<and> hasStartupHostGate q \<and> \<not> host_granted q \<and>
         pd_uid q \<notin> set adm \<and> meta_deletion (pd_meta q) = None"
      "grant_hosts api global (topology_limits topologies) (node_owners nodes) (sort_key pod_order (hs_pending s)) s [] =
         (err, s', calls)"
proof -
  let ?s0 = "\<lparr> hs_admissions = adm, hs_host_count = [], hs_topology_count = [], hs_pending = [] \<rparr>"
  let ?owners = "node_owners nodes"
  obtain ok s1 where count: "count_hosts ?owners pods ?s0 = (ok, s1)" by (cases "count_hosts ?owners pods ?s0")
  define s where "s = s1\<lparr> hs_admissions := filter (\<lambda>uid. uid \<in> pd_uid ` set pods) (hs_admissions s1) \<rparr>"
  have after: "booting (hs_admissions s1) p = booting adm p" if "p \<in> set pods" for p
    using booting_after_count [OF count assms(2) that] by simp
  have same: "booting (hs_admissions s) p = booting adm p" if "p \<in> set pods" for p
    using after [OF that] that by (simp add: s_def booting_def)
  show thesis
  proof (cases "(\<exists>p \<in> set pods. hasStartupHostGate p) \<and> ok \<and> (\<exists>ts. ha_topologies api = Inr ts)")
    case False
    then have "(adm' = adm \<or> adm' = hs_admissions s1) \<and> calls = []"
      using assms(1) count by (auto simp: admitStartupHosts_def Let_def split: if_splits sum.splits bool.splits)
    with after show thesis by (intro idle) auto
  next
    case True
    then obtain ts where ts: "ha_topologies api = Inr ts" by blast
    with True count assms(1) obtain s' where run: "adm' = hs_admissions s'"
      "grant_hosts api global (topology_limits ts) ?owners (sort_key pod_order (hs_pending s)) s [] = (err, s', calls)"
      by (auto simp: admitStartupHosts_def Let_def s_def split: prod.splits)
    have eq: "booting_count (hs_admissions s) pods Q = booting_count adm pods Q" for Q
      by (rule booting_count_cong) (rule same)
    have counts: "gm_int (hs_host_count s) h = booting_on adm pods h"
      "gm_int (hs_topology_count s) (w, h) = booting_in adm ?owners pods w h" for w h
      using count_hosts_counts [of ?owners pods ?s0 s1 h w] count True assms(2) by (simp_all add: s_def)
    have "counted ?owners pods s" by (simp add: counted_def counts) (simp add: booting_on_def booting_in_def eq)
    moreover have "q \<in> set pods \<and> hasStartupHostGate q \<and> \<not> host_granted q \<and> pd_uid q \<notin> set adm \<and> meta_deletion (pd_meta q) = None"
      if "q \<in> set (hs_pending s)" for q
      using count_hosts_pending [OF count _ assms(2)] that by (auto simp: s_def)
    ultimately show thesis using grant [OF ts run(1) _ counts _ run(2)] by blast
  qed
qed

text \<open>The snapshot in which the grants of the local set have become visible as annotations.\<close>

definition granted_view :: "string list \<Rightarrow> pod list \<Rightarrow> pod list" where
  "granted_view admissions pods = map (\<lambda>p. if pd_uid p \<in> set admissions then grant_host p else p) pods"

lemma granted_view_booting:
  assumes "pd_uid p \<noteq> ''''"
  shows "booting [] (if pd_uid p \<in> set adm then grant_host p else p) = booting adm p"
proof -
  have "StartupAdmittedAnnotation \<noteq> KubectlDefaultContainerAnnotation"
    by (simp add: StartupAdmittedAnnotation_def KubectlDefaultContainerAnnotation_def)
  then have "boot_over (grant_host p) = boot_over p" "host_granted (grant_host p)"
    using assms by (simp_all add: boot_over_def startupPrimaryStarted_def host_granted_def grant_host_def)
  moreover have "pd_node_name (grant_host p) = pd_node_name p" by (simp add: grant_host_def)
  ultimately show ?thesis by (auto simp: booting_def)
qed

lemma booting_on_granted_view:
  assumes "'''' \<notin> pd_uid ` set pods"
  shows "booting_on [] (granted_view adm pods) h = booting_on adm pods h"
  using assms
proof (induction pods)
  case (Cons p pods)
  have "booting [] (if pd_uid p \<in> set adm then grant_host p else p) = booting adm p"
    using Cons.prems by (intro granted_view_booting) auto
  moreover have "pd_node_name (if pd_uid p \<in> set adm then grant_host p else p) = pd_node_name p"
    by (simp add: grant_host_def)
  ultimately show ?case
    using Cons unfolding booting_on_def granted_view_def list.map booting_count_Cons by auto
qed (simp add: booting_on_def granted_view_def)

text \<open>
  C15: Host admission keeps the limits: after a pass, whatever the API answers, the Pods booting on a
  host number at most the installation's limit, and those of a Topology there at most the Topology's
  limit, unless more booted before the pass. The bound holds for the stale snapshot with the local
  reservations and, after a restart that loses them, for the snapshot that shows the grants. Only live
  Pods that wait behind the gate without a grant are patched.
\<close>

theorem host_limits_respected:
  assumes res: "admitStartupHosts api global adm nodes pods = (err, adm', calls)"
    and uids: "distinct (map pd_uid pods)" "'''' \<notin> pd_uid ` set pods"
  shows "(global > 0 \<longrightarrow> booting_on adm' pods h \<le> max global (booting_on adm pods h) \<and>
      booting_on [] (granted_view adm' pods) h \<le> max global (booting_on adm pods h)) \<and>
    (\<forall>topologies w. ha_topologies api = Inr topologies \<and> gm_int (topology_limits topologies) w > 0 \<longrightarrow>
      booting_in adm' (node_owners nodes) pods w h \<le>
        max (gm_int (topology_limits topologies) w) (booting_in adm (node_owners nodes) pods w h)) \<and>
    (\<forall>(p, q) \<in> set calls. p \<in> set pods \<and> hasStartupHostGate p \<and> \<not> host_granted p \<and> pd_uid p \<notin> set adm \<and>
      meta_deletion (pd_meta p) = None \<and> q = grant_host p)"
proof -
  have view: "booting_on [] (granted_view adm' pods) h = booting_on adm' pods h"
    by (rule booting_on_granted_view [OF uids(2)])
  from res uids(1) show ?thesis
  proof (cases rule: admitStartupHosts_cases)
    case idle
    then have "booting_count adm' pods Q = booting_count adm pods Q" for Q
      by (intro booting_count_cong)
    then have "booting_on adm' pods h = booting_on adm pods h"
      "booting_in adm' (node_owners nodes) pods w h = booting_in adm (node_owners nodes) pods w h" for w
      by (simp_all add: booting_on_def booting_in_def)
    with idle(2) show ?thesis by (simp add: view)
  next
    case (grant topologies s s')
    have sub: "set (sort_key pod_order (hs_pending s)) \<subseteq> set pods" using grant(6) by auto
    note bounds = grant_hosts_bounds [OF grant(7) uids(1) sub grant(3)]
    from bounds have le: "booting_on adm' pods h \<le> gm_int (hs_host_count s') h"
      "booting_in adm' (node_owners nodes) pods w h \<le> gm_int (hs_topology_count s') (w, h)" for w
      by (auto simp: counted_def grant(2))
    have host: "global > 0 \<Longrightarrow> booting_on adm' pods h \<le> max global (booting_on adm pods h)"
      using bounds le(1) unfolding grant(4) by (meson order_trans)
    have topo: "gm_int (topology_limits topologies) w > 0 \<Longrightarrow> booting_in adm' (node_owners nodes) pods w h \<le>
        max (gm_int (topology_limits topologies) w) (booting_in adm (node_owners nodes) pods w h)" for w
      using bounds [of h w] le(2) [of w] unfolding grant(5) by (meson order_trans)
    from bounds obtain gs where "calls = map (\<lambda>g. (g, grant_host g)) gs" "set gs \<subseteq> set (hs_pending s)" by auto
    then have "\<forall>(p, q) \<in> set calls. p \<in> set (hs_pending s) \<and> q = grant_host p" by auto
    with grant(6) have "\<forall>(p, q) \<in> set calls. p \<in> set pods \<and> hasStartupHostGate p \<and> \<not> host_granted p \<and> pd_uid p \<notin> set adm \<and>
      meta_deletion (pd_meta p) = None \<and> q = grant_host p" by fastforce
    with host topo show ?thesis by (simp add: view grant(1))
  qed
qed

text \<open>Two gated Pods on one host with a limit of one booting primary.\<close>

definition sample_gated :: "string \<Rightarrow> pod" where
  "sample_gated name = (sample_pod name ''h1'' True)\<lparr> pd_init_containers := [StartupGateContainerName] \<rparr>"

definition sample_host_api :: host_api where
  "sample_host_api = \<lparr> ha_topologies = Inr [], ha_patch = (\<lambda>_ _. None) \<rparr>"

lemma sample_host_pass:
  "admitStartupHosts sample_host_api 1 [] [sample_node ''a'' '''', sample_node ''b'' ''''] [sample_gated ''b'', sample_gated ''a''] =
     (None, [''uid-pod-a''], [(sample_gated ''a'', grant_host (sample_gated ''a''))])"
  by code_simp

theorem host_limits_respected_witness:
  "booting_on [''uid-pod-a''] [sample_gated ''b'', sample_gated ''a''] ''h1'' \<le> 1 \<and>
   booting_on [''uid-pod-a''] [sample_gated ''b'', sample_gated ''a''] ''h1'' = 1"
proof -
  have "distinct (map pd_uid [sample_gated ''b'', sample_gated ''a''])"
    "'''' \<notin> pd_uid ` set [sample_gated ''b'', sample_gated ''a'']"
    by code_simp+
  from host_limits_respected [OF sample_host_pass this, of "''h1''"]
  have "booting_on [''uid-pod-a''] [sample_gated ''b'', sample_gated ''a''] ''h1'' \<le>
      max 1 (booting_on [] [sample_gated ''b'', sample_gated ''a''] ''h1'')" by simp
  moreover have "booting_on [] [sample_gated ''b'', sample_gated ''a''] ''h1'' = 0"
    "booting_on [''uid-pod-a''] [sample_gated ''b'', sample_gated ''a''] ''h1'' = 1" by code_simp+
  ultimately show ?thesis by simp
qed

end
