(* ===== verification/Startup_Admission.thy ===== *)
theory Startup_Admission
  imports Startup_Host
begin

text \<open>
  Installation-wide startup admission (\<open>src/controllers/node/startupadmission.go\<close>): one serialized pass
  over all Nodes and Pods admits Pod groups in batches, once every admitted group runs a Pod whose
  sandbox is ready. Admission is an annotation with the Node's own UID; a local set bridges the time
  until the cache shows it.
\<close>

section \<open>Definitions\<close>

definition startupAdmissionRequired :: "node \<Rightarrow> int \<Rightarrow> bool" where
  "startupAdmissionRequired n batchSize \<longleftrightarrow>
     batchSize > 0 \<and> (nd_uid n = '''' \<or> gm_str (nd_annotations n) AnnotationStartupAdmitted \<noteq> nd_uid n)"

text \<open>
  A group names its Nodes; \<open>node_store\<close> holds the Node objects the pointers of the source share. The
  primary is the first member.
\<close>

record startupPodGroup =
  sg_namespace :: string
  sg_primary :: string
  sg_members :: "string list"

type_synonym node_store = "(string \<times> string, node) gomap"

definition node_key :: "node \<Rightarrow> string \<times> string" where
  "node_key n = (nd_namespace n, nd_name n)"

definition live_nodes :: "node list \<Rightarrow> node list" where
  "live_nodes nodes = filter (\<lambda>n. meta_deletion (nd_meta n) = None) nodes"

definition node_objects :: "node list \<Rightarrow> node_store" where
  "node_objects nodes = foldl (\<lambda>store n. AList.update (node_key n) n store) [] (live_nodes nodes)"

definition namespace_nodes :: "node list \<Rightarrow> (string, (string, node) gomap) gomap" where
  "namespace_nodes nodes = foldl (\<lambda>namespaces n.
     AList.update (nd_namespace n) (AList.update (nd_name n) n (gm_list namespaces (nd_namespace n))) namespaces)
     [] (live_nodes nodes)"

fun admission_groups_loop :: "(string, node) gomap \<Rightarrow> string list \<Rightarrow> (string, string list) gomap
    \<Rightarrow> (string, string list) gomap" where
  "admission_groups_loop byName [] groups = groups"
| "admission_groups_loop byName (name # names) groups =
     (let primary = ResolvePrimaryNode byName name in
      admission_groups_loop byName names
        (if map_of byName primary \<noteq> None
         then AList.update primary (gm_list groups primary @ [name]) groups else groups))"

definition ordered_group :: "string \<Rightarrow> (string, node) gomap \<Rightarrow> string \<times> string list \<Rightarrow> startupPodGroup list" where
  "ordered_group ns byName entry =
     (case entry of (name, members) \<Rightarrow>
       (case map_of byName name of
          None \<Rightarrow> []
        | Some primary \<Rightarrow>
            if map_of (meta_labels (nd_meta primary)) LabelIgnoreReconcile \<noteq> None then []
            else [\<lparr> sg_namespace = ns, sg_primary = name,
                    sg_members = name # filter (\<lambda>member. member \<noteq> name) (sort members) \<rparr>]))"

definition startupAdmissionGroups :: "node list \<Rightarrow> startupPodGroup list" where
  "startupAdmissionGroups nodes =
     concat (map (\<lambda>(ns, byName).
       concat (map (ordered_group ns byName) (admission_groups_loop byName (map fst byName) [])))
       (namespace_nodes nodes))"

definition observe_node :: "int \<Rightarrow> node \<Rightarrow> string list \<Rightarrow> node \<times> string list" where
  "observe_node batchSize n admissions =
     (if nd_uid n \<notin> set admissions then (n, admissions)
      else if \<not> startupAdmissionRequired n batchSize then (n, removeAll (nd_uid n) admissions)
      else (n\<lparr> nd_meta := annotate AnnotationStartupAdmitted (nd_uid n) (nd_meta n) \<rparr>, admissions))"

fun observe_nodes :: "int \<Rightarrow> node list \<Rightarrow> string list \<Rightarrow> node list \<times> string list" where
  "observe_nodes batchSize [] admissions = ([], admissions)"
| "observe_nodes batchSize (n # nodes) admissions =
     (case observe_node batchSize n admissions of (n', admissions') \<Rightarrow>
        (case observe_nodes batchSize nodes admissions' of (nodes', admissions'') \<Rightarrow> (n' # nodes', admissions'')))"

definition observeStartupAdmissions :: "node list \<Rightarrow> int \<Rightarrow> string list \<Rightarrow> node list \<times> string list" where
  "observeStartupAdmissions nodes batchSize admissions =
     (case observe_nodes batchSize nodes admissions of (nodes', admissions') \<Rightarrow>
        (nodes', filter (\<lambda>uid. uid \<in> nd_uid ` set nodes) admissions'))"

record admission_state =
  as_store :: node_store
  as_admissions :: "string list"
  as_calls :: "(node \<times> node) list"

text \<open>The patch parameter answers with the stored Node; its answer may depend on the patches before.\<close>

type_synonym node_patch = "(node \<times> node) list \<Rightarrow> node \<Rightarrow> api_error + node"

definition admit_node :: "node \<Rightarrow> node" where
  "admit_node n = n\<lparr> nd_meta := annotate AnnotationStartupAdmitted (nd_uid n) (nd_meta n) \<rparr>"

definition withdraw_node :: "node \<Rightarrow> node" where
  "withdraw_node n = n\<lparr> nd_meta := unannotate AnnotationStartupAdmitted (nd_meta n) \<rparr>"

text \<open>
  One member of a group: \<open>skip\<close> is the \<open>continue\<close> test, \<open>edit\<close> the change that is patched and \<open>mark\<close> what
  a successful patch does to the local set.
\<close>

definition patch_member :: "node_patch \<Rightarrow> (node \<Rightarrow> bool) \<Rightarrow> (node \<Rightarrow> node) \<Rightarrow> (string \<Rightarrow> string list \<Rightarrow> string list)
    \<Rightarrow> string \<times> string \<Rightarrow> admission_state \<Rightarrow> api_error option \<times> admission_state" where
  "patch_member patch skip edit mark key s =
     (case map_of (as_store s) key of
        None \<Rightarrow> (None, s)
      | Some n \<Rightarrow>
          if skip n then (None, s)
          else let after = edit n; s' = s\<lparr> as_calls := as_calls s @ [(n, after)] \<rparr> in
               case patch (as_calls s) after of
                 Inl e \<Rightarrow> (Some e, s'\<lparr> as_store := AList.update key after (as_store s) \<rparr>)
               | Inr stored \<Rightarrow>
                   (None, s'\<lparr> as_store := AList.update key stored (as_store s),
                              as_admissions := mark (nd_uid stored) (as_admissions s) \<rparr>))"

fun patch_members :: "node_patch \<Rightarrow> (node \<Rightarrow> bool) \<Rightarrow> (node \<Rightarrow> node) \<Rightarrow> (string \<Rightarrow> string list \<Rightarrow> string list)
    \<Rightarrow> string \<Rightarrow> string list \<Rightarrow> admission_state \<Rightarrow> api_error option \<times> admission_state" where
  "patch_members patch skip edit mark ns [] s = (None, s)"
| "patch_members patch skip edit mark ns (name # names) s =
     (case patch_member patch skip edit mark (ns, name) s of
        (Some e, s') \<Rightarrow> (Some e, s')
      | (None, s') \<Rightarrow> patch_members patch skip edit mark ns names s')"

definition admitStartupGroup :: "node_patch \<Rightarrow> startupPodGroup \<Rightarrow> admission_state \<Rightarrow> api_error option \<times> admission_state" where
  "admitStartupGroup patch g =
     patch_members patch (\<lambda>n. \<not> startupAdmissionRequired n 1) admit_node List.insert (sg_namespace g) (sg_members g)"

definition withdrawStartupGroup :: "node_patch \<Rightarrow> startupPodGroup \<Rightarrow> admission_state \<Rightarrow> api_error option \<times> admission_state" where
  "withdrawStartupGroup patch g =
     patch_members patch (\<lambda>n. map_of (nd_annotations n) AnnotationStartupAdmitted = None) withdraw_node removeAll
       (sg_namespace g) (sg_members g)"

definition group_node :: "admission_state \<Rightarrow> startupPodGroup \<Rightarrow> node option" where
  "group_node s g = map_of (as_store s) (sg_namespace g, sg_primary g)"

text \<open>
  \<open>pendingStartupGroups\<close>: the error, the groups that wait for a slot and whether an admitted group
  blocks the next batch. \<open>group.primary\<close> is present in the store: groups are built from it.
\<close>

fun pendingStartupGroups :: "node_patch \<Rightarrow> startupPodGroup list \<Rightarrow> (string, pod) gomap \<Rightarrow> int \<Rightarrow> admission_state
    \<Rightarrow> api_error option \<times> startupPodGroup list \<times> bool \<times> admission_state" where
  "pendingStartupGroups patch [] newest batchSize s = (None, [], False, s)"
| "pendingStartupGroups patch (g # groups) newest batchSize s =
     (case group_node s g of
        None \<Rightarrow> pendingStartupGroups patch groups newest batchSize s
      | Some primary \<Rightarrow>
          if IsStopped (nd_spec primary)
          then case withdrawStartupGroup patch g s of
                 (Some e, s') \<Rightarrow> (Some e, [], False, s')
               | (None, s') \<Rightarrow> pendingStartupGroups patch groups newest batchSize s'
          else let p = map_of newest (nd_uid primary) in
               if \<not> startupAdmissionRequired primary batchSize \<or> p \<noteq> None
               then case admitStartupGroup patch g s of
                      (Some e, s') \<Rightarrow> (Some e, [], False, s')
                    | (None, s') \<Rightarrow>
                        (case pendingStartupGroups patch groups newest batchSize s' of
                           (err, pending, blocked, s'') \<Rightarrow>
                             (err, pending,
                              blocked \<or> err = None \<and> (case p of None \<Rightarrow> True | Some p \<Rightarrow> \<not> startupSandboxReady p), s''))
               else if gm_str (nd_annotations primary) AnnotationStartupHold = ''''
               then case pendingStartupGroups patch groups newest batchSize s of
                      (err, pending, blocked, s') \<Rightarrow> (err, if err = None then g # pending else pending, blocked, s')
               else pendingStartupGroups patch groups newest batchSize s)"

fun admit_groups :: "node_patch \<Rightarrow> startupPodGroup list \<Rightarrow> admission_state \<Rightarrow> api_error option \<times> admission_state" where
  "admit_groups patch [] s = (None, s)"
| "admit_groups patch (g # groups) s =
     (case admitStartupGroup patch g s of
        (Some e, s') \<Rightarrow> (Some e, s')
      | (None, s') \<Rightarrow> admit_groups patch groups s')"

definition group_order :: "admission_state \<Rightarrow> startupPodGroup \<Rightarrow> int \<times> string" where
  "group_order s g =
     ((case group_node s g of None \<Rightarrow> 0 | Some n \<Rightarrow> meta_creation (nd_meta n)),
      sg_namespace g @ ''/'' @ sg_primary g)"

text \<open>The admission part of the pass, after the two lists were read and hosts were admitted.\<close>

definition admission_pass :: "node_patch \<Rightarrow> int \<Rightarrow> string list \<Rightarrow> node list \<Rightarrow> pod list
    \<Rightarrow> api_error option \<times> bool \<times> admission_state" where
  "admission_pass patch batchSize admissions nodes pods =
     (case observeStartupAdmissions nodes batchSize admissions of
        (nodes', admissions') \<Rightarrow>
          (case pendingStartupGroups patch (startupAdmissionGroups nodes') (startupAdmissionPods pods) batchSize
                  \<lparr> as_store = node_objects nodes', as_admissions = admissions', as_calls = [] \<rparr> of
             (Some e, pending, blocked, s) \<Rightarrow> (Some e, True, s)
           | (None, pending, blocked, s) \<Rightarrow>
               if blocked then (None, True, s)
               else let pending = sort_key (group_order s) pending;
                        batch = (if int (length pending) > batchSize then take (nat batchSize) pending else pending)
                    in (case admit_groups patch batch s of (err, s') \<Rightarrow> (err, batch \<noteq> [], s'))))"

record admission_api =
  aa_nodes :: "api_error + node list"
  aa_pods :: "api_error + pod list"
  aa_hosts :: host_api
  aa_patch :: node_patch

datatype requeue = RetrySecond | RequeueInterval | NoRequeue

text \<open>The whole reconcile; the state is the two local sets, of Node and of Pod UIDs.\<close>

definition reconcileStartupAdmission :: "admission_api \<Rightarrow> int \<Rightarrow> int \<Rightarrow> string list \<Rightarrow> string list
    \<Rightarrow> requeue \<times> api_error option \<times> string list \<times> string list \<times> (node \<times> node) list \<times> (pod \<times> pod) list" where
  "reconcileStartupAdmission api batchSize hostLimit admissions hostAdmissions =
     (case aa_nodes api of
        Inl e \<Rightarrow> (RetrySecond, Some e, admissions, hostAdmissions, [], [])
      | Inr nodes \<Rightarrow>
          (case aa_pods api of
             Inl e \<Rightarrow> (RetrySecond, Some e, admissions, hostAdmissions, [], [])
           | Inr pods \<Rightarrow>
               (case admitStartupHosts (aa_hosts api) hostLimit hostAdmissions nodes pods of
                  (Some e, hosts, podCalls) \<Rightarrow> (RetrySecond, Some e, admissions, hosts, [], podCalls)
                | (None, hosts, podCalls) \<Rightarrow>
                    if batchSize \<le> 0
                    then (if \<exists>p \<in> set pods. startupHostPending p then RetrySecond else RequeueInterval,
                          None, admissions, hosts, [], podCalls)
                    else (case admission_pass (aa_patch api) batchSize admissions nodes pods of
                            (err, retry, s) \<Rightarrow>
                              (if err \<noteq> None \<or> retry then RetrySecond else NoRequeue, err,
                               as_admissions s, hosts, as_calls s, podCalls)))))"


section \<open>The groups of an installation\<close>

text \<open>Without reference cycles no Node belongs to two groups.\<close>

definition group_keys :: "startupPodGroup \<Rightarrow> (string \<times> string) set" where
  "group_keys g = (\<lambda>name. (sg_namespace g, name)) ` set (sg_members g)"

definition groups_disjoint :: "startupPodGroup list \<Rightarrow> bool" where
  "groups_disjoint groups \<longleftrightarrow> distinct groups \<and>
     (\<forall>g \<in> set groups. \<forall>g' \<in> set groups. g \<noteq> g' \<longrightarrow> group_keys g \<inter> group_keys g' = {})"

definition acyclic_namespaces :: "node list \<Rightarrow> bool" where
  "acyclic_namespaces nodes \<longleftrightarrow> (\<forall>(ns, byName) \<in> set (namespace_nodes nodes). acyclic_inventory byName)"

lemma admission_groups_loop_spec:
  "gm_list (admission_groups_loop byName names groups) p =
     gm_list groups p @ filter (\<lambda>name. ResolvePrimaryNode byName name = p \<and> map_of byName p \<noteq> None) names \<and>
   (distinct (map fst groups) \<longrightarrow> distinct (map fst (admission_groups_loop byName names groups)))"
proof (induction names arbitrary: groups)
  case (Cons x xs)
  define grown where "grown = (if map_of byName (ResolvePrimaryNode byName x) \<noteq> None
    then AList.update (ResolvePrimaryNode byName x) (gm_list groups (ResolvePrimaryNode byName x) @ [x]) groups else groups)"
  from Cons.IH [of grown] show ?case
    by (auto simp: Let_def grown_def distinct_update)
qed simp

lemma group_nonempty:
  "[] \<notin> snd ` set groups \<Longrightarrow> [] \<notin> snd ` set (admission_groups_loop byName names groups)"
proof (induction names arbitrary: groups)
  case (Cons x xs)
  have "[] \<notin> snd ` set (AList.update q (gm_list groups q @ [x]) groups)" for q
    using Cons.prems set_alist_update [of q "gm_list groups q @ [x]" groups] by force
  from Cons.IH [OF this] Cons.IH [OF Cons.prems] show ?case by (simp add: Let_def)
qed simp

lemma namespace_nodes_distinct:
  "distinct (map fst (namespace_nodes nodes))"
  "(ns, byName) \<in> set (namespace_nodes nodes) \<Longrightarrow> distinct (map fst byName)"
proof -
  have "distinct (map fst m) \<and> (\<forall>(ns, byName) \<in> set m. distinct (map fst byName)) \<Longrightarrow>
      distinct (map fst (foldl (\<lambda>namespaces n. AList.update (nd_namespace n)
        (AList.update (nd_name n) n (gm_list namespaces (nd_namespace n))) namespaces) m xs)) \<and>
      (\<forall>(ns, byName) \<in> set (foldl (\<lambda>namespaces n. AList.update (nd_namespace n)
        (AList.update (nd_name n) n (gm_list namespaces (nd_namespace n))) namespaces) m xs). distinct (map fst byName))"
    for m and xs :: "node list"
  proof (induction xs arbitrary: m)
    case (Cons x xs)
    let ?m = "AList.update (nd_namespace x) (AList.update (nd_name x) x (gm_list m (nd_namespace x))) m"
    have "distinct (map fst (gm_list m (nd_namespace x)))"
      using Cons.prems by (auto simp: gm_list_def dest: map_of_SomeD split: option.split)
    then have "distinct (map fst ?m) \<and> (\<forall>(ns, byName) \<in> set ?m. distinct (map fst byName))"
      using Cons.prems set_alist_update [of "nd_namespace x" _ m] by (fastforce simp: distinct_update)
    from Cons.IH [OF this] show ?case by simp
  qed simp
  from this [of "[]" "live_nodes nodes"]
  show "distinct (map fst (namespace_nodes nodes))"
    "(ns, byName) \<in> set (namespace_nodes nodes) \<Longrightarrow> distinct (map fst byName)"
    by (auto simp: namespace_nodes_def)
qed

lemma group_shape:
  assumes "g \<in> set (concat (map (ordered_group ns byName) (admission_groups_loop byName (map fst byName) [])))"
    and "acyclic_inventory byName"
  shows "sg_namespace g = ns" "x \<in> set (sg_members g) \<Longrightarrow> ResolvePrimaryNode byName x = sg_primary g"
proof -
  from assms(1) obtain name members where e: "(name, members) \<in> set (admission_groups_loop byName (map fst byName) [])"
    "g \<in> set (ordered_group ns byName (name, members))" by auto
  then have g: "sg_namespace g = ns" "sg_primary g = name" "set (sg_members g) \<subseteq> insert name (set members)"
    "map_of byName name \<noteq> None"
    by (cases "map_of byName name"; auto simp: ordered_group_def split: if_splits)+
  have "gm_list (admission_groups_loop byName (map fst byName) []) name = members"
    using e(1) admission_groups_loop_spec [of byName "map fst byName" "[]" name]
    by (simp add: gm_list_def)
  then have mem: "members = filter (\<lambda>n. ResolvePrimaryNode byName n = name \<and> map_of byName name \<noteq> None) (map fst byName)"
    using admission_groups_loop_spec [of byName "map fst byName" "[]" name] by simp
  have "members \<noteq> []"
    using imageI [OF e(1), of snd] group_nonempty [of "[]" byName "map fst byName"]
    by (metis empty_iff image_empty list.set(1) snd_conv)
  then obtain y where "ResolvePrimaryNode byName y = name" unfolding mem by (auto simp: filter_empty_conv)
  then have "ResolvePrimaryNode byName name = name" by (rule primary.primary_in_own_group [OF assms(2)])
  with g mem show "sg_namespace g = ns" "x \<in> set (sg_members g) \<Longrightarrow> ResolvePrimaryNode byName x = sg_primary g" by auto
qed

lemma group_lookup:
  assumes "distinct (map fst m)" "g \<in> set (concat (map (ordered_group ns byName) m))"
    and "g' \<in> set (concat (map (ordered_group ns byName) m))" "sg_primary g = sg_primary g'"
  shows "g = g'"
proof -
  from assms(2) obtain ms where g: "(sg_primary g, ms) \<in> set m" "g \<in> set (ordered_group ns byName (sg_primary g, ms))"
    by (fastforce simp: ordered_group_def split: option.splits if_splits)
  from assms(3) obtain ms' where g': "(sg_primary g', ms') \<in> set m" "g' \<in> set (ordered_group ns byName (sg_primary g', ms'))"
    by (fastforce simp: ordered_group_def split: option.splits if_splits)
  have "ms = ms'" using assms(1,4) g(1) g'(1) by (simp add: eq_key_imp_eq_value)
  with g(2) g'(2) assms(4) show ?thesis
    by (cases "map_of byName (sg_primary g')") (auto simp: ordered_group_def split: if_splits)
qed

lemma distinct_ordered_groups:
  "distinct (map fst m) \<Longrightarrow> distinct (concat (map (ordered_group ns byName) m))"
proof (induction m)
  case (Cons e m)
  have one: "distinct (ordered_group ns byName e) \<and> (\<forall>g \<in> set (ordered_group ns byName e). sg_primary g = fst e)" for e
    by (cases e; cases "map_of byName (fst e)") (simp_all add: ordered_group_def)
  have "g \<notin> set (concat (map (ordered_group ns byName) m))" if "g \<in> set (ordered_group ns byName e)" for g
  proof
    assume "g \<in> set (concat (map (ordered_group ns byName) m))"
    then obtain e' where e': "e' \<in> set m" "g \<in> set (ordered_group ns byName e')" by auto
    with one [of e] one [of e'] that have "fst e' = fst e" by auto
    with imageI [OF e'(1), of fst] Cons.prems show False by simp
  qed
  with Cons one [of e] show ?case by auto
qed simp

lemma startup_groups_disjoint:
  assumes "acyclic_namespaces nodes"
  shows "groups_disjoint (startupAdmissionGroups nodes)"
proof -
  let ?of = "\<lambda>ns byName. concat (map (ordered_group ns byName) (admission_groups_loop byName (map fst byName) []))"
  have keys: "distinct (map fst (admission_groups_loop byName (map fst byName) []))" for byName
    using admission_groups_loop_spec [of byName "map fst byName" "[]"] by simp
  have acyc: "acyclic_inventory byName" if "(ns, byName) \<in> set (namespace_nodes nodes)" for ns byName
    using assms that by (auto simp: acyclic_namespaces_def)
  have ns: "sg_namespace g = ns" if "g \<in> set (?of ns byName)" "(ns, byName) \<in> set (namespace_nodes nodes)" for g ns byName
    using group_shape(1) [OF that(1) acyc [OF that(2)]] .
  have dist: "distinct (concat (map (\<lambda>(ns, byName). ?of ns byName) m))"
    if "distinct (map fst m)" "set m \<subseteq> set (namespace_nodes nodes)" for m
    using that
  proof (induction m)
    case (Cons e m)
    obtain a b where e: "e = (a, b)" by (cases e)
    have "g \<notin> set (concat (map (\<lambda>(ns, byName). ?of ns byName) m))" if "g \<in> set (?of a b)" for g
    proof
      assume "g \<in> set (concat (map (\<lambda>(ns, byName). ?of ns byName) m))"
      then obtain a' b' where m: "(a', b') \<in> set m" "g \<in> set (?of a' b')" by auto
      with ns [OF m(2)] ns [OF that] Cons.prems e have "a' = a" by auto
      with m(1) Cons.prems(1) e show False by force
    qed
    moreover have "distinct (?of a b)" by (rule distinct_ordered_groups [OF keys])
    moreover have "distinct (concat (map (\<lambda>(ns, byName). ?of ns byName) m))" using Cons by simp
    ultimately have "distinct (?of a b @ concat (map (\<lambda>(ns, byName). ?of ns byName) m))"
      unfolding distinct_append by blast
    then show ?case by (simp add: e)
  qed simp
  have same: "g = g'" if g: "g \<in> set (startupAdmissionGroups nodes)" "g' \<in> set (startupAdmissionGroups nodes)"
    and meet: "group_keys g \<inter> group_keys g' \<noteq> {}" for g g'
  proof -
    have "\<exists>a b. (a, b) \<in> set (namespace_nodes nodes) \<and> x \<in> set (?of a b)" if "x \<in> set (startupAdmissionGroups nodes)" for x
      using that unfolding startupAdmissionGroups_def by fastforce
    with g obtain a b a' b' where h: "(a, b) \<in> set (namespace_nodes nodes)" "g \<in> set (?of a b)"
      "(a', b') \<in> set (namespace_nodes nodes)" "g' \<in> set (?of a' b')" by blast
    from meet obtain x where x: "x \<in> set (sg_members g)" "x \<in> set (sg_members g')" "sg_namespace g = sg_namespace g'"
      by (auto simp: group_keys_def)
    with ns [OF h(2,1)] ns [OF h(4,3)] have "a = a'" by simp
    with h(1,3) namespace_nodes_distinct(1) have "b = b'" by (auto dest: eq_key_imp_eq_value)
    with \<open>a = a'\<close> h have "sg_primary g = sg_primary g'"
      using group_shape(2) [OF h(2) acyc [OF h(1)] x(1)] group_shape(2) [OF h(4) acyc [OF h(3)] x(2)] by simp
    with group_lookup [OF keys h(2)] h(4) \<open>a = a'\<close> \<open>b = b'\<close> show ?thesis by simp
  qed
  have "distinct (startupAdmissionGroups nodes)"
    using dist [OF namespace_nodes_distinct(1) order_refl] by (simp add: startupAdmissionGroups_def)
  with same show ?thesis unfolding groups_disjoint_def by blast
qed

section \<open>The patches of one group\<close>

text \<open>A patch answers with the stored Node, which keeps its name, namespace and UID.\<close>

definition patch_keeps_identity :: "node_patch \<Rightarrow> bool" where
  "patch_keeps_identity patch \<longleftrightarrow>
     (\<forall>calls n m. patch calls n = Inr m \<longrightarrow> node_key m = node_key n \<and> nd_uid m = nd_uid n)"

definition store_ok :: "node_store \<Rightarrow> bool" where
  "store_ok store \<longleftrightarrow> (\<forall>key n. map_of store key = Some n \<longrightarrow> node_key n = key)"

text \<open>
  \<open>patches_within keys s s'\<close>: going from \<open>s\<close> to \<open>s'\<close> patches and changes only Nodes with one of the keys.
\<close>

definition patches_within :: "(string \<times> string) set \<Rightarrow> admission_state \<Rightarrow> admission_state \<Rightarrow> bool" where
  "patches_within keys s s' \<longleftrightarrow>
     (store_ok (as_store s) \<longrightarrow> store_ok (as_store s')) \<and>
     (\<forall>key. key \<notin> keys \<longrightarrow> map_of (as_store s') key = map_of (as_store s) key) \<and>
     (store_ok (as_store s) \<longrightarrow> (\<exists>sent. as_calls s' = as_calls s @ sent \<and> (\<forall>(b, a) \<in> set sent. node_key b \<in> keys)))"

lemma patches_within_refl: "patches_within keys s s"
  by (simp add: patches_within_def)

lemma patches_within_trans:
  assumes "patches_within keys s s'" "patches_within keys' s' s''"
  shows "patches_within (keys \<union> keys') s s''"
  using assms unfolding patches_within_def by fastforce

lemma patches_within_mono: "patches_within keys s s' \<Longrightarrow> keys \<subseteq> keys' \<Longrightarrow> patches_within keys' s s'"
  unfolding patches_within_def by fastforce

lemma patch_member_within:
  assumes "patch_member patch skip edit mark key s = (err, s')" "patch_keeps_identity patch"
    and edit: "\<And>n. node_key (edit n) = node_key n"
  shows "patches_within {key} s s'"
proof (cases "map_of (as_store s) key")
  case None
  with assms(1) show ?thesis by (simp add: patch_member_def patches_within_refl)
next
  case (Some n)
  show ?thesis
  proof (cases "skip n")
    case True
    with Some assms(1) show ?thesis by (simp add: patch_member_def patches_within_refl)
  next
    case False
    obtain m where m: "as_store s' = AList.update key m (as_store s)" "as_calls s' = as_calls s @ [(n, edit n)]"
      "node_key m = node_key n"
      using assms Some False
      by (auto simp: patch_member_def Let_def patch_keeps_identity_def split: sum.splits)
    with Some show ?thesis by (cases key) (auto simp: patches_within_def store_ok_def)
  qed
qed

lemma patch_members_within:
  assumes "patch_members patch skip edit mark ns names s = (err, s')" "patch_keeps_identity patch"
    and edit: "\<And>n. node_key (edit n) = node_key n"
  shows "patches_within ((\<lambda>name. (ns, name)) ` set names) s s'"
  using assms(1)
proof (induction names arbitrary: s)
  case Nil
  then show ?case by (simp add: patches_within_refl)
next
  case (Cons name names)
  obtain e1 s1 where s1: "patch_member patch skip edit mark (ns, name) s = (e1, s1)"
    by (cases "patch_member patch skip edit mark (ns, name) s")
  note one = patch_member_within [OF s1 assms(2) edit]
  show ?case
  proof (cases e1)
    case None
    with s1 Cons.prems have "patch_members patch skip edit mark ns names s1 = (err, s')" by simp
    from patches_within_trans [OF one Cons.IH [OF this]] show ?thesis by simp
  next
    case (Some e)
    with s1 Cons.prems have "s' = s1" by simp
    with one show ?thesis by (auto intro: patches_within_mono)
  qed
qed

lemma node_key_edits [simp]:
  "node_key (admit_node n) = node_key n" "node_key (withdraw_node n) = node_key n"
  "nd_uid (admit_node n) = nd_uid n" "nd_uid (withdraw_node n) = nd_uid n"
  by (simp_all add: node_key_def admit_node_def withdraw_node_def)

lemma group_patches_within:
  assumes "patch_keeps_identity patch"
  shows "admitStartupGroup patch g s = (err, s') \<Longrightarrow> patches_within (group_keys g) s s'"
    and "withdrawStartupGroup patch g s = (err, s') \<Longrightarrow> patches_within (group_keys g) s s'"
  unfolding admitStartupGroup_def withdrawStartupGroup_def group_keys_def
  by (erule patch_members_within [OF _ assms], simp)+

lemma admit_groups_within:
  assumes "patch_keeps_identity patch" "admit_groups patch groups s = (err, s')"
  shows "patches_within (\<Union> (group_keys ` set groups)) s s'"
  using assms(2)
proof (induction groups arbitrary: s)
  case Nil
  then show ?case by (simp add: patches_within_refl)
next
  case (Cons g groups)
  obtain e1 s1 where s1: "admitStartupGroup patch g s = (e1, s1)" by (cases "admitStartupGroup patch g s")
  note one = group_patches_within(1) [OF assms(1) s1]
  show ?case
  proof (cases e1)
    case None
    with s1 Cons.prems have "admit_groups patch groups s1 = (err, s')" by simp
    from patches_within_trans [OF one Cons.IH [OF this]] show ?thesis by simp
  next
    case (Some e)
    with s1 Cons.prems have "s' = s1" by simp
    with one show ?thesis by (auto intro: patches_within_mono)
  qed
qed

section \<open>Waiting and occupying groups\<close>

text \<open>
  A running group waits when its primary is not admitted and has no live Pod, and occupies a slot
  otherwise. A slot is freed for the next batch once the newest Pod of the primary is ready.
\<close>

definition waiting :: "(string, pod) gomap \<Rightarrow> int \<Rightarrow> admission_state \<Rightarrow> startupPodGroup \<Rightarrow> bool" where
  "waiting newest batchSize s g =
     (case group_node s g of None \<Rightarrow> False
      | Some n \<Rightarrow> \<not> IsStopped (nd_spec n) \<and> startupAdmissionRequired n batchSize \<and> map_of newest (nd_uid n) = None)"

definition occupying :: "(string, pod) gomap \<Rightarrow> int \<Rightarrow> admission_state \<Rightarrow> startupPodGroup \<Rightarrow> bool" where
  "occupying newest batchSize s g =
     (case group_node s g of None \<Rightarrow> False
      | Some n \<Rightarrow> \<not> IsStopped (nd_spec n) \<and> (\<not> startupAdmissionRequired n batchSize \<or> map_of newest (nd_uid n) \<noteq> None))"

definition group_ready :: "(string, pod) gomap \<Rightarrow> admission_state \<Rightarrow> startupPodGroup \<Rightarrow> bool" where
  "group_ready newest s g =
     (case group_node s g of None \<Rightarrow> False
      | Some n \<Rightarrow> (case map_of newest (nd_uid n) of None \<Rightarrow> False | Some p \<Rightarrow> startupSandboxReady p))"

lemmas group_status_defs = waiting_def occupying_def group_ready_def

lemma group_status_cong:
  assumes "group_node s' g = group_node s g"
  shows "waiting newest b s' g = waiting newest b s g" "occupying newest b s' g = occupying newest b s g"
    "group_ready newest s' g = group_ready newest s g"
  by (simp_all add: group_status_defs assms)

lemma group_node_frame:
  assumes "patches_within keys s s'" "(sg_namespace g, sg_primary g) \<notin> keys"
  shows "group_node s' g = group_node s g"
  using assms by (simp add: patches_within_def group_node_def)

definition led_by_primary :: "startupPodGroup list \<Rightarrow> bool" where
  "led_by_primary groups \<longleftrightarrow> (\<forall>g \<in> set groups. sg_primary g \<in> set (sg_members g))"

lemma startup_groups_led: "led_by_primary (startupAdmissionGroups nodes)"
  unfolding led_by_primary_def startupAdmissionGroups_def
  by (auto simp: ordered_group_def split: option.splits if_splits)

text \<open>What the scan of the groups does, with every group judged in the state before it.\<close>

definition scan_ok :: "(string, pod) gomap \<Rightarrow> int \<Rightarrow> startupPodGroup list \<Rightarrow> admission_state \<Rightarrow> api_error option
    \<Rightarrow> startupPodGroup list \<Rightarrow> bool \<Rightarrow> admission_state \<Rightarrow> bool" where
  "scan_ok newest b groups s err pending blocked s' \<longleftrightarrow>
     patches_within (\<Union> (group_keys ` {g \<in> set groups. \<not> waiting newest b s g})) s s' \<and>
     set pending \<subseteq> {g \<in> set groups. waiting newest b s g} \<and> distinct pending \<and>
     (err = None \<and> \<not> blocked \<longrightarrow> (\<forall>g \<in> set groups. occupying newest b s g \<longrightarrow> group_ready newest s g))"

lemma scan_ok_step:
  assumes "groups_disjoint (g # groups)" "led_by_primary (g # groups)"
    and "patches_within (group_keys g) s s1" "\<not> waiting newest b s g"
    and "scan_ok newest b groups s1 err pending blocked s'"
    and "err = None \<and> \<not> blocked' \<Longrightarrow> \<not> blocked \<and> (occupying newest b s g \<longrightarrow> group_ready newest s g)"
  shows "scan_ok newest b (g # groups) s err pending blocked' s'"
proof -
  have same: "group_node s1 g' = group_node s g'" if "g' \<in> set groups" for g'
  proof (rule group_node_frame [OF assms(3)])
    have "(sg_namespace g', sg_primary g') \<in> group_keys g'"
      using assms(2) that by (auto simp: led_by_primary_def group_keys_def)
    moreover have "group_keys g \<inter> group_keys g' = {}"
      using assms(1) that by (auto simp: groups_disjoint_def)
    ultimately show "(sg_namespace g', sg_primary g') \<notin> group_keys g" by blast
  qed
  note status = group_status_cong [OF same]
  have eq: "{g' \<in> set groups. \<not> waiting newest b s1 g'} = {g' \<in> set groups. \<not> waiting newest b s g'}"
    "{g' \<in> set groups. waiting newest b s1 g'} = {g' \<in> set groups. waiting newest b s g'}"
    using status by auto
  have within: "patches_within (\<Union> (group_keys ` {g' \<in> set (g # groups). \<not> waiting newest b s g'})) s s'"
  proof -
    have "patches_within (group_keys g \<union> \<Union> (group_keys ` {g' \<in> set groups. \<not> waiting newest b s g'})) s s'"
      using assms(5) unfolding scan_ok_def eq by (intro patches_within_trans [OF assms(3)]) simp
    then show ?thesis by (rule patches_within_mono) (use assms(4) in auto)
  qed
  show ?thesis
    using within assms(5,6) status unfolding scan_ok_def eq by auto
qed

lemma scan_ok_keep:
  assumes "scan_ok newest b groups s err pending blocked s'" "\<not> waiting newest b s g \<Longrightarrow> \<not> occupying newest b s g"
    and "pending' = pending \<or> pending' = g # pending \<and> waiting newest b s g \<and> g \<notin> set groups"
  shows "scan_ok newest b (g # groups) s err pending' blocked s'"
proof -
  have "waiting newest b s g \<Longrightarrow> \<not> occupying newest b s g" by (auto simp: waiting_def occupying_def split: option.splits)
  with assms show ?thesis
    unfolding scan_ok_def by (auto elim!: patches_within_mono)
qed

lemma pending_scan_ok:
  assumes "pendingStartupGroups patch groups newest b s = (err, pending, blocked, s')"
    and "groups_disjoint groups" "led_by_primary groups" "patch_keeps_identity patch"
  shows "scan_ok newest b groups s err pending blocked s'"
  using assms(1-3)
proof (induction groups arbitrary: s err pending blocked s')
  case Nil
  then show ?case by (simp add: scan_ok_def patches_within_refl)
next
  case (Cons g groups)
  have rest: "groups_disjoint groups" "led_by_primary groups" "g \<notin> set groups"
    using Cons.prems(2,3) by (auto simp: groups_disjoint_def led_by_primary_def)
  note step = scan_ok_step [OF Cons.prems(2,3)] and IH = Cons.IH [OF _ rest(1,2)]
  show ?case
  proof (cases "group_node s g")
    case None
    then have "\<not> waiting newest b s g" "\<not> occupying newest b s g" by (simp_all add: group_status_defs)
    with IH [of s err pending blocked] None Cons.prems(1) show ?thesis by (intro scan_ok_keep) auto
  next
    case (Some n)
    consider (stopped) "IsStopped (nd_spec n)" | (occ) "\<not> IsStopped (nd_spec n)" "occupying newest b s g"
      | (wait) "\<not> IsStopped (nd_spec n)" "waiting newest b s g"
      by (cases "IsStopped (nd_spec n)"; cases "startupAdmissionRequired n b"; cases "map_of newest (nd_uid n)")
        (use Some in \<open>simp_all add: group_status_defs\<close>)
    then show ?thesis
    proof cases
      case stopped
      then have no: "\<not> waiting newest b s g" "\<not> occupying newest b s g" using Some by (simp_all add: group_status_defs)
      obtain e1 s1 where s1: "withdrawStartupGroup patch g s = (e1, s1)" by (cases "withdrawStartupGroup patch g s")
      note one = group_patches_within(2) [OF assms(4) s1]
      show ?thesis
      proof (cases e1)
        case None
        with Some stopped s1 Cons.prems(1) have "pendingStartupGroups patch groups newest b s1 = (err, pending, blocked, s')" by simp
        from step [OF one no(1) IH [OF this]] no show ?thesis by blast
      next
        case (Some e)
        with \<open>group_node s g = Some n\<close> stopped s1 Cons.prems(1) have "s' = s1" "pending = []" "err \<noteq> None" by auto
        moreover from this have "scan_ok newest b groups s1 err pending blocked s1"
          by (auto simp: scan_ok_def patches_within_refl)
        ultimately show ?thesis using step [OF one no(1)] by blast
      qed
    next
      case occ
      then have no: "\<not> waiting newest b s g" using Some by (auto simp: group_status_defs)
      have cond: "\<not> startupAdmissionRequired n b \<or> map_of newest (nd_uid n) \<noteq> None"
        using occ Some by (simp add: occupying_def)
      obtain e1 s1 where s1: "admitStartupGroup patch g s = (e1, s1)" by (cases "admitStartupGroup patch g s")
      note one = group_patches_within(1) [OF assms(4) s1]
      show ?thesis
      proof (cases e1)
        case None
        obtain err1 pending1 blocked1 s2 where r: "pendingStartupGroups patch groups newest b s1 = (err1, pending1, blocked1, s2)"
          by (cases "pendingStartupGroups patch groups newest b s1")
        from None Some occ cond s1 r Cons.prems(1) have res: "err1 = err" "pending1 = pending" "s2 = s'"
          "blocked \<longleftrightarrow> blocked1 \<or> err = None \<and> \<not> group_ready newest s g"
          by (auto simp: Let_def group_ready_def split: option.splits)
        from step [OF one no IH [OF r], of blocked] res show ?thesis by blast
      next
        case (Some e)
        with \<open>group_node s g = Some n\<close> occ cond s1 Cons.prems(1) have "s' = s1" "pending = []" "err \<noteq> None" by (auto simp: Let_def)
        moreover from this have "scan_ok newest b groups s1 err pending blocked s1"
          by (auto simp: scan_ok_def patches_within_refl)
        ultimately show ?thesis using step [OF one no] by blast
      qed
    next
      case wait
      then have cond: "startupAdmissionRequired n b" "map_of newest (nd_uid n) = None" using Some by (simp_all add: waiting_def)
      obtain err1 pending1 blocked1 s2 where r: "pendingStartupGroups patch groups newest b s = (err1, pending1, blocked1, s2)"
        by (cases "pendingStartupGroups patch groups newest b s")
      from Some wait cond r Cons.prems(1) have "err1 = err" "s2 = s'" "blocked1 = blocked" "pending = pending1 \<or> pending = g # pending1"
        by (auto simp: Let_def split: if_splits)
      with scan_ok_keep [OF IH [OF r], of g pending] wait rest(3) show ?thesis by auto
    qed
  qed
qed


section \<open>Observation only annotates\<close>

text \<open>
  Overlaying the local set on a snapshot keeps everything the grouping depends on, so the groups of a
  snapshot are the same before and after it.
\<close>

definition same_shape :: "node \<Rightarrow> node \<Rightarrow> bool" where
  "same_shape n m \<longleftrightarrow> nd_name m = nd_name n \<and> nd_namespace m = nd_namespace n \<and> nd_uid m = nd_uid n \<and>
     nd_spec m = nd_spec n \<and> meta_labels (nd_meta m) = meta_labels (nd_meta n) \<and>
     meta_deletion (nd_meta m) = meta_deletion (nd_meta n)"

abbreviation similar_maps :: "('v \<Rightarrow> 'w \<Rightarrow> bool) \<Rightarrow> ('k, 'v) gomap \<Rightarrow> ('k, 'w) gomap \<Rightarrow> bool" where
  "similar_maps R \<equiv> list_all2 (rel_prod (=) R)"

lemma similar_update:
  "similar_maps R m m' \<Longrightarrow> R v v' \<Longrightarrow> similar_maps R (AList.update k v m) (AList.update k v' m')"
  by (induction m m' rule: list_all2_induct) auto

lemma similar_lookup: "similar_maps R m m' \<Longrightarrow> rel_option R (map_of m k) (map_of m' k)"
  by (induction m m' rule: list_all2_induct) auto

lemma similar_keys: "similar_maps R m m' \<Longrightarrow> map fst m' = map fst m"
  by (induction m m' rule: list_all2_induct) auto

lemma similar_gm_list:
  "similar_maps (list_all2 R) m m' \<Longrightarrow> list_all2 R (gm_list m k) (gm_list m' k)"
  using similar_lookup [of "list_all2 R" m m' k] by (auto simp: gm_list_def split: option.splits elim: option.rel_cases)

lemma observe_shape: "list_all2 same_shape nodes (fst (observe_nodes b nodes adm))"
proof (induction nodes arbitrary: adm)
  case (Cons n nodes)
  obtain n' adm' where o: "observe_node b n adm = (n', adm')" by (cases "observe_node b n adm")
  then have "same_shape n n'" by (auto simp: observe_node_def same_shape_def split: if_splits)
  with Cons.IH [of adm'] o show ?case by (cases "observe_nodes b nodes adm'") simp
qed simp

lemma live_nodes_shape: "list_all2 same_shape nodes nodes' \<Longrightarrow> list_all2 same_shape (live_nodes nodes) (live_nodes nodes')"
  by (induction nodes nodes' rule: list_all2_induct) (auto simp: live_nodes_def same_shape_def)

lemma namespace_nodes_shape:
  assumes "list_all2 same_shape nodes nodes'"
  shows "similar_maps (similar_maps same_shape) (namespace_nodes nodes) (namespace_nodes nodes')"
proof -
  let ?f = "\<lambda>namespaces n. AList.update (nd_namespace n) (AList.update (nd_name n) n (gm_list namespaces (nd_namespace n))) namespaces"
  have "similar_maps (similar_maps same_shape) m m' \<Longrightarrow>
      similar_maps (similar_maps same_shape) (foldl ?f m xs) (foldl ?f m' ys)"
    if "list_all2 same_shape xs ys" for m m' xs ys
    using that
  proof (induction xs ys arbitrary: m m' rule: list_all2_induct)
    case (Cons x xs y ys)
    have eq: "nd_namespace y = nd_namespace x" "nd_name y = nd_name x" using Cons.hyps(1) by (simp_all add: same_shape_def)
    have "similar_maps (similar_maps same_shape) (?f m x) (?f m' y)"
      unfolding eq using Cons.prems Cons.hyps(1) by (intro similar_update similar_gm_list)
    from Cons.IH [OF this] show ?case by simp
  qed simp
  from this [OF live_nodes_shape [OF assms], of "[]" "[]"] show ?thesis by (simp add: namespace_nodes_def)
qed

lemma node_reference_shape:
  assumes "similar_maps same_shape nodes nodes'"
  shows "node_reference nodes' n = node_reference nodes n"
  using similar_lookup [OF assms, of n] by (auto simp: node_reference_def same_shape_def elim!: option.rel_cases)

lemma resolve_primary_loop_reference:
  assumes "\<And>n. node_reference nodes' n = node_reference nodes n"
  shows "resolve_primary_loop nodes' seen current = resolve_primary_loop nodes seen current"
  using assms
proof (induction nodes seen current rule: resolve_primary_induct)
  case (step nodes seen current)
  then show ?case
    by (subst (1 2) resolve_primary_loop_unfold) (auto split: option.split)
qed

lemma admission_groups_shape:
  assumes "similar_maps same_shape byName byName'"
  shows "admission_groups_loop byName' names groups = admission_groups_loop byName names groups"
proof -
  have "ResolvePrimaryNode byName' n = ResolvePrimaryNode byName n" for n
    unfolding ResolvePrimaryNode_def
    by (rule resolve_primary_loop_reference) (rule node_reference_shape [OF assms])
  moreover have "(map_of byName' n = None) = (map_of byName n = None)" for n
    using similar_lookup [OF assms, of n] by (auto elim: option.rel_cases)
  ultimately show ?thesis by (induction names arbitrary: groups) (auto simp: Let_def)
qed

lemma ordered_group_shape:
  assumes "similar_maps same_shape byName byName'"
  shows "ordered_group ns byName' e = ordered_group ns byName e"
  using similar_lookup [OF assms, of "fst e"]
  by (cases e) (auto simp: ordered_group_def same_shape_def elim!: option.rel_cases)

lemma startup_groups_shape:
  assumes "list_all2 same_shape nodes nodes'"
  shows "startupAdmissionGroups nodes' = startupAdmissionGroups nodes"
proof -
  have "map f m' = map f m" if "similar_maps (similar_maps same_shape) m m'"
    and "\<And>ns b b'. similar_maps same_shape b b' \<Longrightarrow> f (ns, b') = f (ns, b)" for m m' and f :: "_ \<Rightarrow> startupPodGroup list"
    using that by (induction m m' rule: list_all2_induct) auto
  from this [OF namespace_nodes_shape [OF assms], of
      "\<lambda>(ns, byName). concat (map (ordered_group ns byName) (admission_groups_loop byName (map fst byName) []))"]
  show ?thesis
    unfolding startupAdmissionGroups_def
    by (simp add: admission_groups_shape ordered_group_shape similar_keys cong: map_cong)
qed

lemma acyclic_namespaces_shape:
  assumes "list_all2 same_shape nodes nodes'" "acyclic_namespaces nodes"
  shows "acyclic_namespaces nodes'"
proof -
  have "\<forall>(ns, b') \<in> set m'. acyclic_inventory b'" if "similar_maps (similar_maps same_shape) m m'"
    "\<forall>(ns, b) \<in> set m. acyclic_inventory b" for m m'
    using that
  proof (induction m m' rule: list_all2_induct)
    case (Cons x xs y ys)
    then have "reference_step (snd y) = reference_step (snd x)"
      using node_reference_shape [of "snd x" "snd y"] by (auto simp: reference_step_def rel_prod_sel)
    with Cons show ?case by (auto simp: acyclic_inventory_def split: prod.splits)
  qed simp
  from this [OF namespace_nodes_shape [OF assms(1)]] assms(2) show ?thesis by (simp add: acyclic_namespaces_def)
qed

lemma node_objects_shape:
  assumes "list_all2 same_shape nodes nodes'"
  shows "similar_maps same_shape (node_objects nodes) (node_objects nodes')"
proof -
  let ?f = "\<lambda>store n. AList.update (node_key n) n store"
  have "similar_maps same_shape m m' \<Longrightarrow> similar_maps same_shape (foldl ?f m xs) (foldl ?f m' ys)"
    if "list_all2 same_shape xs ys" for m m' xs ys
    using that
  proof (induction xs ys arbitrary: m m' rule: list_all2_induct)
    case (Cons x xs y ys)
    have eq: "node_key y = node_key x" using Cons.hyps(1) by (simp add: same_shape_def node_key_def)
    have "similar_maps same_shape (?f m x) (?f m' y)"
      unfolding eq using Cons.prems Cons.hyps(1) by (intro similar_update)
    from Cons.IH [OF this] show ?case by simp
  qed simp
  from this [OF live_nodes_shape [OF assms], of "[]" "[]"] show ?thesis by (simp add: node_objects_def)
qed

section \<open>Admission passes\<close>

lemma store_ok_objects: "store_ok (node_objects nodes)"
proof -
  have one: "store_ok (AList.update (node_key n) n m)" if "store_ok m" for m n
    using that by (simp add: store_ok_def del: split_paired_All)
  have "store_ok m \<Longrightarrow> store_ok (foldl (\<lambda>store n. AList.update (node_key n) n store) m xs)" for m xs
  proof (induction xs arbitrary: m)
    case (Cons x xs)
    from Cons.IH [OF one [OF Cons.prems]] show ?case by simp
  qed simp
  moreover have "store_ok []" by (simp add: store_ok_def)
  ultimately show ?thesis unfolding node_objects_def by blast
qed

definition observed_state :: "int \<Rightarrow> string list \<Rightarrow> node list \<Rightarrow> admission_state" where
  "observed_state b admissions nodes =
     (case observeStartupAdmissions nodes b admissions of
        (nodes', admissions') \<Rightarrow> \<lparr> as_store = node_objects nodes', as_admissions = admissions', as_calls = [] \<rparr>)"

text \<open>The groups a pass starts: those that wait and of which it patches a Node.\<close>

definition started_groups :: "int \<Rightarrow> string list \<Rightarrow> node list \<Rightarrow> pod list \<Rightarrow> (node \<times> node) list \<Rightarrow> startupPodGroup set" where
  "started_groups b admissions nodes pods calls =
     {g \<in> set (startupAdmissionGroups nodes). waiting (startupAdmissionPods pods) b (observed_state b admissions nodes) g \<and>
        (\<exists>(x, y) \<in> set calls. node_key x \<in> group_keys g)}"

lemma admission_pass_unfold:
  "admission_pass patch b admissions nodes pods =
     (case pendingStartupGroups patch (startupAdmissionGroups nodes) (startupAdmissionPods pods) b
             (observed_state b admissions nodes) of
        (Some e, pending, blocked, s) \<Rightarrow> (Some e, True, s)
      | (None, pending, blocked, s) \<Rightarrow>
          if blocked then (None, True, s)
          else let batch = take (nat b) (sort_key (group_order s) pending)
               in (case admit_groups patch batch s of (err, s') \<Rightarrow> (err, batch \<noteq> [], s')))"
  if "0 < b"
proof -
  obtain nodes' adm' where o: "observeStartupAdmissions nodes b admissions = (nodes', adm')"
    by (cases "observeStartupAdmissions nodes b admissions")
  then have "list_all2 same_shape nodes nodes'"
    using observe_shape [of nodes b admissions] by (auto simp: observeStartupAdmissions_def split: prod.splits)
  then have groups: "startupAdmissionGroups nodes' = startupAdmissionGroups nodes" by (rule startup_groups_shape)
  have cap: "(if int (length xs) > b then take (nat b) xs else xs) = take (nat b) xs" for xs :: "startupPodGroup list"
    using that by auto
  show ?thesis
    unfolding admission_pass_def o observed_state_def prod.case Let_def groups cap by (rule refl)
qed

lemma admission_pass_cases:
  assumes res: "admission_pass patch b admissions nodes pods = (err, retry, s')" and b: "0 < b"
    and acyc: "acyclic_namespaces nodes" and patch: "patch_keeps_identity patch"
  obtains err0 pending blocked s where
    "pendingStartupGroups patch (startupAdmissionGroups nodes) (startupAdmissionPods pods) b
       (observed_state b admissions nodes) = (err0, pending, blocked, s)"
    "scan_ok (startupAdmissionPods pods) b (startupAdmissionGroups nodes) (observed_state b admissions nodes) err0 pending blocked s"
    "if err0 \<noteq> None \<or> blocked then err = err0 \<and> s' = s
     else admit_groups patch (take (nat b) (sort_key (group_order s) pending)) s = (err, s')"
proof -
  obtain err0 pending blocked s where scan: "pendingStartupGroups patch (startupAdmissionGroups nodes) (startupAdmissionPods pods) b
       (observed_state b admissions nodes) = (err0, pending, blocked, s)"
    by (cases "pendingStartupGroups patch (startupAdmissionGroups nodes) (startupAdmissionPods pods) b
       (observed_state b admissions nodes)")
  note ok = pending_scan_ok [OF scan startup_groups_disjoint [OF acyc] startup_groups_led patch]
  have "if err0 \<noteq> None \<or> blocked then err = err0 \<and> s' = s
     else admit_groups patch (take (nat b) (sort_key (group_order s) pending)) s = (err, s')"
    using res unfolding admission_pass_unfold [OF b] scan
    by (auto simp: Let_def split: option.splits if_splits prod.splits)
  with scan ok that show thesis by blast
qed

lemma started_within:
  assumes "patches_within keys (observed_state b admissions nodes) s'" "acyclic_namespaces nodes"
    and "\<And>g g'. g \<in> G \<Longrightarrow> g \<in> set (startupAdmissionGroups nodes)"
    and "keys \<subseteq> \<Union> (group_keys ` ({g \<in> set (startupAdmissionGroups nodes).
        \<not> waiting (startupAdmissionPods pods) b (observed_state b admissions nodes) g} \<union> G))"
  shows "started_groups b admissions nodes pods (as_calls s') \<subseteq> G"
proof
  fix g
  let ?s = "observed_state b admissions nodes"
  assume g: "g \<in> started_groups b admissions nodes pods (as_calls s')"
  have "store_ok (as_store ?s)" "as_calls ?s = []"
    by (auto simp: observed_state_def store_ok_objects split: prod.splits)
  with assms(1) g obtain x y where x: "(x, y) \<in> set (as_calls s')" "node_key x \<in> group_keys g" "node_key x \<in> keys"
    by (fastforce simp: started_groups_def patches_within_def)
  then obtain g' where g': "node_key x \<in> group_keys g'" "g' \<in> set (startupAdmissionGroups nodes)"
    "\<not> waiting (startupAdmissionPods pods) b ?s g' \<or> g' \<in> G"
    using assms(3,4) by blast
  have "g' = g"
    using startup_groups_disjoint [OF assms(2)] g g' x(2) unfolding groups_disjoint_def started_groups_def by blast
  with g g'(3) show "g \<in> G" by (auto simp: started_groups_def)
qed

text \<open>
  C18: An admission pass starts at most one batch of groups: whatever the API answers, at most
  \<open>batchSize\<close> waiting groups are patched, and none unless the newest Pod of every running group that
  is admitted or already has a Pod is ready. Network-mode references are assumed to form no cycle.
\<close>

theorem admission_batch_bounded:
  assumes res: "admission_pass patch b admissions nodes pods = (err, retry, s')" and b: "0 < b"
    and acyc: "acyclic_namespaces nodes" and patch: "patch_keeps_identity patch"
  defines "started \<equiv> started_groups b admissions nodes pods (as_calls s')"
  shows "card started \<le> nat b \<and>
    (started \<noteq> {} \<longrightarrow> (\<forall>g \<in> set (startupAdmissionGroups nodes).
       occupying (startupAdmissionPods pods) b (observed_state b admissions nodes) g \<longrightarrow>
       group_ready (startupAdmissionPods pods) (observed_state b admissions nodes) g))"
  using res b acyc patch
proof (cases rule: admission_pass_cases)
  case (1 err0 pending blocked s)
  let ?newest = "startupAdmissionPods pods" and ?s0 = "observed_state b admissions nodes"
  let ?batch = "take (nat b) (sort_key (group_order s) pending)"
  have batch: "set ?batch \<subseteq> set pending" using set_take_subset [of "nat b" "sort_key (group_order s) pending"] by simp
  have pend: "set pending \<subseteq> set (startupAdmissionGroups nodes)" using 1(2) by (auto simp: scan_ok_def)
  show ?thesis
  proof (cases "err0 \<noteq> None \<or> blocked")
    case True
    with 1(3) have "s' = s" by simp
    with 1(2) have "patches_within (\<Union> (group_keys ` {g \<in> set (startupAdmissionGroups nodes). \<not> waiting ?newest b ?s0 g})) ?s0 s'"
      by (simp add: scan_ok_def)
    from started_within [OF this acyc, of "{}"] have "started = {}" by (auto simp: started_def)
    then show ?thesis by simp
  next
    case False
    with 1(3) have run: "admit_groups patch ?batch s = (err, s')" by auto
    have first: "patches_within (\<Union> (group_keys ` {g \<in> set (startupAdmissionGroups nodes). \<not> waiting ?newest b ?s0 g})) ?s0 s"
      using 1(2) by (simp add: scan_ok_def)
    have "started \<subseteq> set ?batch" unfolding started_def
      by (rule started_within [OF patches_within_trans [OF first admit_groups_within [OF patch run]] acyc])
        (use batch pend in auto)
    then have "card started \<le> card (set ?batch)" by (intro card_mono) auto
    also have "\<dots> \<le> nat b" using card_length [of ?batch] by simp
    finally have "card started \<le> nat b" .
    moreover have "\<forall>g \<in> set (startupAdmissionGroups nodes). occupying ?newest b ?s0 g \<longrightarrow> group_ready ?newest ?s0 g"
      using 1(2) False by (simp add: scan_ok_def)
    ultimately show ?thesis by simp
  qed
qed


section \<open>Passes over a stale snapshot\<close>

lemma patch_member_admits:
  assumes "patch_member patch skip admit_node List.insert key s = (None, s')"
  shows "set (as_admissions s) \<subseteq> set (as_admissions s')"
    and "patch_keeps_identity patch \<Longrightarrow> map_of (as_store s) key = Some n \<Longrightarrow> \<not> skip n \<Longrightarrow> nd_uid n \<in> set (as_admissions s')"
  using assms
  by (auto simp: patch_member_def Let_def patch_keeps_identity_def split: option.splits sum.splits if_splits)

lemma patch_members_admits:
  assumes "patch_members patch skip admit_node List.insert ns names s = (None, s')" "patch_keeps_identity patch"
  shows "set (as_admissions s) \<subseteq> set (as_admissions s') \<and>
    (\<forall>name n. name \<in> set names \<and> map_of (as_store s) (ns, name) = Some n \<and> \<not> skip n \<longrightarrow> nd_uid n \<in> set (as_admissions s'))"
  using assms(1)
proof (induction names arbitrary: s)
  case (Cons x names)
  then obtain s1 where s1: "patch_member patch skip admit_node List.insert (ns, x) s = (None, s1)"
    "patch_members patch skip admit_node List.insert ns names s1 = (None, s')"
    by (auto split: prod.splits option.splits)
  note IH = Cons.IH [OF s1(2)] and one = patch_member_admits [OF s1(1)]
  have frame: "map_of (as_store s1) (ns, name) = map_of (as_store s) (ns, name)" if "name \<noteq> x" for name
    using patch_member_within [OF s1(1) assms(2)] that by (auto simp: patches_within_def)
  show ?case
  proof (intro conjI allI impI)
    show "set (as_admissions s) \<subseteq> set (as_admissions s')" using IH one(1) by blast
    fix name n
    assume a: "name \<in> set (x # names) \<and> map_of (as_store s) (ns, name) = Some n \<and> \<not> skip n"
    show "nd_uid n \<in> set (as_admissions s')"
    proof (cases "name = x")
      case True
      with a one(2) [OF assms(2)] IH show ?thesis by blast
    next
      case False
      with a IH frame [OF False] show ?thesis by auto
    qed
  qed
qed simp

lemma admit_groups_admits:
  assumes "admit_groups patch groups s = (None, s')" "patch_keeps_identity patch"
    and "groups_disjoint groups" "led_by_primary groups"
  shows "set (as_admissions s) \<subseteq> set (as_admissions s') \<and>
    (\<forall>g n. g \<in> set groups \<and> group_node s g = Some n \<and> startupAdmissionRequired n 1 \<longrightarrow> nd_uid n \<in> set (as_admissions s'))"
  using assms(1,3,4)
proof (induction groups arbitrary: s)
  case (Cons x groups)
  then obtain s1 where s1: "admitStartupGroup patch x s = (None, s1)" "admit_groups patch groups s1 = (None, s')"
    by (auto split: prod.splits option.splits)
  have rest: "groups_disjoint groups" "led_by_primary groups"
    using Cons.prems(2,3) by (auto simp: groups_disjoint_def led_by_primary_def)
  note IH = Cons.IH [OF s1(2) rest] and one = patch_members_admits [OF s1(1) [unfolded admitStartupGroup_def] assms(2)]
  have frame: "group_node s1 g = group_node s g" if "g \<in> set groups" for g
  proof (rule group_node_frame [OF group_patches_within(1) [OF assms(2) s1(1)]])
    have "x \<noteq> g" using Cons.prems(2) that by (auto simp: groups_disjoint_def)
    then have "group_keys x \<inter> group_keys g = {}" using Cons.prems(2) that by (simp add: groups_disjoint_def)
    moreover have "(sg_namespace g, sg_primary g) \<in> group_keys g"
      using rest(2) that by (auto simp: led_by_primary_def group_keys_def)
    ultimately show "(sg_namespace g, sg_primary g) \<notin> group_keys x" by blast
  qed
  have lead: "sg_primary x \<in> set (sg_members x)" using Cons.prems(3) by (simp add: led_by_primary_def)
  show ?case
  proof (intro conjI allI impI)
    show "set (as_admissions s) \<subseteq> set (as_admissions s')" using IH one by blast
    fix g n
    assume a: "g \<in> set (x # groups) \<and> group_node s g = Some n \<and> startupAdmissionRequired n 1"
    show "nd_uid n \<in> set (as_admissions s')"
    proof (cases "g = x")
      case True
      with a lead one have "nd_uid n \<in> set (as_admissions s1)" by (auto simp: group_node_def)
      with IH show ?thesis by blast
    next
      case False
      with a have g: "g \<in> set groups" by simp
      with a IH frame [OF g] show ?thesis by auto
    qed
  qed
qed simp

lemma shape_uids: "list_all2 same_shape xs ys \<Longrightarrow> map nd_uid ys = map nd_uid xs"
  by (induction xs ys rule: list_all2_induct) (simp_all add: same_shape_def)

lemma observe_admitted:
  assumes "distinct (map nd_uid nodes)" "'''' \<notin> nd_uid ` set nodes"
  shows "\<forall>m \<in> set (fst (observe_nodes b nodes adm)). nd_uid m \<in> set adm \<longrightarrow> \<not> startupAdmissionRequired m b"
  using assms
proof (induction nodes arbitrary: adm)
  case (Cons n nodes)
  obtain n' adm' where o: "observe_node b n adm = (n', adm')" by (cases "observe_node b n adm")
  have n': "nd_uid n' = nd_uid n" "nd_uid n \<in> set adm \<Longrightarrow> \<not> startupAdmissionRequired n' b" "set adm - {nd_uid n} \<subseteq> set adm'"
    using o Cons.prems(2) by (auto simp: observe_node_def startupAdmissionRequired_def split: if_splits)
  have uids: "nd_uid m \<in> nd_uid ` set nodes" if "m \<in> set (fst (observe_nodes b nodes adm'))" for m
    using imageI [OF that, of nd_uid] shape_uids [OF observe_shape [of nodes b adm']] by (metis list.set_map)
  have "\<not> startupAdmissionRequired m b" if "m \<in> set (fst (observe_nodes b nodes adm'))" "nd_uid m \<in> set adm" for m
  proof -
    have "nd_uid m \<noteq> nd_uid n" using uids [OF that(1)] Cons.prems(1) by auto
    with that(2) n'(3) have "nd_uid m \<in> set adm'" by blast
    with Cons.IH [of adm'] Cons.prems that(1) show ?thesis by simp
  qed
  with n' o show ?case by (simp split: prod.split)
qed simp

lemma observed_store:
  obtains nodes' where "as_store (observed_state b adm nodes) = node_objects nodes'" "list_all2 same_shape nodes nodes'"
    "nodes' = fst (observe_nodes b nodes adm)"
proof (rule that)
  show "as_store (observed_state b adm nodes) = node_objects (fst (observe_nodes b nodes adm))"
    by (simp add: observed_state_def observeStartupAdmissions_def split: prod.split)
qed (rule observe_shape refl)+

lemma node_objects_mem:
  assumes "map_of (node_objects nodes) key = Some n"
  shows "n \<in> set nodes"
proof -
  have "map_of (foldl (\<lambda>store n. AList.update (node_key n) n store) m xs) key = Some n \<Longrightarrow>
      map_of m key = Some n \<or> n \<in> set xs" for m xs
  proof (induction xs arbitrary: m)
    case (Cons x xs)
    from Cons.IH [of "AList.update (node_key x) x m"] Cons.prems show ?case by (auto split: if_splits)
  qed simp
  from this [of "[]" "live_nodes nodes"] assms have "n \<in> set (live_nodes nodes)" by (simp add: node_objects_def)
  then show ?thesis by (simp add: live_nodes_def)
qed

text \<open>The same group in the snapshots that two states of the local set overlay.\<close>

lemma observed_group_node:
  assumes "group_node (observed_state b adm nodes) g = Some n"
  obtains m where "group_node (observed_state b adm' nodes) g = Some m" "same_shape n m"
    "m \<in> set (fst (observe_nodes b nodes adm'))"
proof -
  let ?key = "(sg_namespace g, sg_primary g)"
  obtain x where x: "as_store (observed_state b adm nodes) = node_objects x" "list_all2 same_shape nodes x" by (rule observed_store)
  obtain y where y: "as_store (observed_state b adm' nodes) = node_objects y" "list_all2 same_shape nodes y"
    "y = fst (observe_nodes b nodes adm')" by (rule observed_store)
  have "rel_option same_shape (map_of (node_objects nodes) ?key) (Some n)"
    using similar_lookup [OF node_objects_shape [OF x(2)], of ?key] assms by (simp add: group_node_def x(1))
  then obtain o' where o': "map_of (node_objects nodes) ?key = Some o'" "same_shape o' n"
    by (auto simp: option_rel_Some2)
  with similar_lookup [OF node_objects_shape [OF y(2)], of ?key]
  obtain m where m: "map_of (node_objects y) ?key = Some m" "same_shape o' m" by (auto simp: option_rel_Some1)
  with o' that [of m] node_objects_mem [OF m(1)] y show thesis by (auto simp: group_node_def same_shape_def)
qed

text \<open>Two Nodes that wait for admission, with batches of one group.\<close>

definition sample_waiting :: "node list" where
  "sample_waiting = [sample_node ''b'' '''', sample_node ''a'' '''']"

definition sample_accept :: node_patch where
  "sample_accept calls n = Inr n"

lemma sample_waiting_facts:
  "acyclic_namespaces sample_waiting" "patch_keeps_identity sample_accept"
  "distinct (map nd_uid sample_waiting)" "'''' \<notin> nd_uid ` set sample_waiting"
proof -
  have ns: "namespace_nodes sample_waiting = [(''lab'', [(''b'', sample_node ''b'' ''''), (''a'', sample_node ''a'' '''')])]"
    by (simp add: namespace_nodes_def live_nodes_def sample_waiting_def sample_defs gm_list_def)
  have "node_reference [(''b'', sample_node ''b'' ''''), (''a'', sample_node ''a'' '''')] n = None" for n
    by (simp add: node_reference_def ParseNetworkModeContainer_def NetworkModeContainerPrefix_def has_prefix_def sample_defs)
  then show "acyclic_namespaces sample_waiting"
    by (simp add: acyclic_namespaces_def ns acyclic_inventory_def reference_step_def acyclic_def)
  show "patch_keeps_identity sample_accept" by (simp add: patch_keeps_identity_def sample_accept_def)
  show "distinct (map nd_uid sample_waiting)" "'''' \<notin> nd_uid ` set sample_waiting"
    by (simp_all add: sample_waiting_def sample_defs)
qed

definition sample_admitted :: admission_state where
  "sample_admitted = snd (snd (admission_pass sample_accept 1 [] sample_waiting []))"

lemma sample_admission_pass:
  "admission_pass sample_accept 1 [] sample_waiting [] = (None, True, sample_admitted)"
  "as_calls sample_admitted = [(sample_node ''a'' '''', admit_node (sample_node ''a'' ''''))]"
  "as_admissions sample_admitted = [''uid-a'']"
  unfolding sample_admitted_def by code_simp+

theorem admission_batch_bounded_witness:
  "card (started_groups 1 [] sample_waiting [] [(sample_node ''a'' '''', admit_node (sample_node ''a'' ''''))]) \<le> 1"
  using admission_batch_bounded [OF sample_admission_pass(1) _ sample_waiting_facts(1,2)]
  by (simp add: sample_admission_pass(2))

text \<open>
  C19: A pass that repeats on the same stale snapshot starts no further group: the local set stands in
  for the grants the cache does not show yet, so the batch just admitted blocks the next one.
\<close>

theorem admission_survives_stale_cache:
  assumes first: "admission_pass patch b admissions nodes pods = (None, retry, s1)"
      "started_groups b admissions nodes pods (as_calls s1) \<noteq> {}"
    and second: "admission_pass patch' b (as_admissions s1) nodes pods = (err, retry', s2)"
    and b: "0 < b" and acyc: "acyclic_namespaces nodes"
    and patch: "patch_keeps_identity patch" "patch_keeps_identity patch'"
    and uids: "distinct (map nd_uid nodes)" "'''' \<notin> nd_uid ` set nodes"
  shows "started_groups b (as_admissions s1) nodes pods (as_calls s2) = {}"
proof -
  let ?newest = "startupAdmissionPods pods" and ?groups = "startupAdmissionGroups nodes"
  let ?s0 = "observed_state b admissions nodes" and ?t0 = "observed_state b (as_admissions s1) nodes"
  obtain err0 pending blocked s where scan: "scan_ok ?newest b ?groups ?s0 err0 pending blocked s"
    "if err0 \<noteq> None \<or> blocked then None = err0 \<and> s1 = s
     else admit_groups patch (take (nat b) (sort_key (group_order s) pending)) s = (None, s1)"
    by (rule admission_pass_cases [OF first(1) b acyc patch(1)])
  let ?batch = "take (nat b) (sort_key (group_order s) pending)"
  have within: "patches_within (\<Union> (group_keys ` {g \<in> set ?groups. \<not> waiting ?newest b ?s0 g})) ?s0 s"
    using scan(1) by (simp add: scan_ok_def)
  have go: "\<not> (err0 \<noteq> None \<or> blocked)"
  proof
    assume "err0 \<noteq> None \<or> blocked"
    with scan(2) have "s1 = s" by simp
    with first(2) started_within [OF within acyc, of "{}" pods] show False by simp
  qed
  with scan(2) have run: "admit_groups patch ?batch s = (None, s1)" by simp
  have sub: "set ?batch \<subseteq> set pending" using set_take_subset [of "nat b" "sort_key (group_order s) pending"] by simp
  have pend: "set pending \<subseteq> {g \<in> set ?groups. waiting ?newest b ?s0 g}" "distinct pending"
    using scan(1) by (auto simp: scan_ok_def)
  have "?batch \<noteq> []"
  proof
    assume "?batch = []"
    with run have "s1 = s" by simp
    with first(2) started_within [OF within acyc, of "{}" pods] show False by simp
  qed
  then obtain g where g: "g \<in> set ?batch" by (meson last_in_set)
  with sub pend have gg: "g \<in> set ?groups" "waiting ?newest b ?s0 g" by auto
  then obtain n where n: "group_node ?s0 g = Some n" "\<not> IsStopped (nd_spec n)" "startupAdmissionRequired n b"
    "map_of ?newest (nd_uid n) = None" by (auto simp: waiting_def split: option.splits)
  note disj = startup_groups_disjoint [OF acyc]
  have led: "led_by_primary ?groups" by (rule startup_groups_led)
  have "distinct ?batch" "set ?batch \<subseteq> set ?groups" using sub pend by auto
  then have "groups_disjoint ?batch" "led_by_primary ?batch"
    using disj led unfolding groups_disjoint_def led_by_primary_def by blast+
  note admits = admit_groups_admits [OF run patch(1) this]
  have "group_node s g = group_node ?s0 g"
  proof (rule group_node_frame [OF within])
    have "(sg_namespace g, sg_primary g) \<in> group_keys g" using led gg(1) by (auto simp: led_by_primary_def group_keys_def)
    with disj gg show "(sg_namespace g, sg_primary g) \<notin> \<Union> (group_keys ` {g \<in> set ?groups. \<not> waiting ?newest b ?s0 g})"
      by (fastforce simp: groups_disjoint_def)
  qed
  with admits g n have uid: "nd_uid n \<in> set (as_admissions s1)" by (auto simp: startupAdmissionRequired_def)
  obtain m where m: "group_node ?t0 g = Some m" "same_shape n m" "m \<in> set (fst (observe_nodes b nodes (as_admissions s1)))"
    by (rule observed_group_node [OF n(1)])
  have "\<not> startupAdmissionRequired m b"
    using observe_admitted [OF uids, of b "as_admissions s1"] m(2,3) uid by (auto simp: same_shape_def)
  then have block: "occupying ?newest b ?t0 g" "\<not> group_ready ?newest ?t0 g"
    using m n by (simp_all add: occupying_def group_ready_def same_shape_def)
  obtain err1 pending1 blocked1 t where scan1: "scan_ok ?newest b ?groups ?t0 err1 pending1 blocked1 t"
    "if err1 \<noteq> None \<or> blocked1 then err = err1 \<and> s2 = t
     else admit_groups patch' (take (nat b) (sort_key (group_order t) pending1)) t = (err, s2)"
    by (rule admission_pass_cases [OF second b acyc patch(2)])
  have "err1 \<noteq> None \<or> blocked1"
  proof (rule ccontr)
    assume "\<not> (err1 \<noteq> None \<or> blocked1)"
    with scan1(1) gg(1) block(1) have "group_ready ?newest ?t0 g" by (simp add: scan_ok_def)
    with block(2) show False by simp
  qed
  with scan1 have "s2 = t" "patches_within (\<Union> (group_keys ` {g \<in> set ?groups. \<not> waiting ?newest b ?t0 g})) ?t0 t"
    by (auto simp: scan_ok_def)
  with started_within [OF _ acyc, of _ b "as_admissions s1" s2 "{}" pods] show ?thesis by auto
qed

lemma sample_started:
  "\<lparr> sg_namespace = ''lab'', sg_primary = ''a'', sg_members = [''a''] \<rparr> \<in>
     started_groups 1 [] sample_waiting [] (as_calls sample_admitted)"
proof -
  have "\<lparr> sg_namespace = ''lab'', sg_primary = ''a'', sg_members = [''a''] \<rparr> \<in> set (startupAdmissionGroups sample_waiting)"
    "waiting (startupAdmissionPods []) 1 (observed_state 1 [] sample_waiting)
       \<lparr> sg_namespace = ''lab'', sg_primary = ''a'', sg_members = [''a''] \<rparr>"
    by code_simp+
  then show ?thesis
    by (simp add: started_groups_def sample_admission_pass(2) group_keys_def node_key_def sample_defs)
qed

theorem admission_survives_stale_cache_witness:
  "started_groups 1 [''uid-a''] sample_waiting [] (as_calls (snd (snd (admission_pass sample_accept 1 [''uid-a''] sample_waiting [])))) = {}"
proof -
  have "started_groups 1 [] sample_waiting [] (as_calls sample_admitted) \<noteq> {}" using sample_started by blast
  from admission_survives_stale_cache [OF sample_admission_pass(1) this _ _ sample_waiting_facts(1,2,2,3,4)]
  show ?thesis by (metis sample_admission_pass(3) prod.collapse zero_less_one)
qed

end
