(* ===== verification/Topology_Rollout.thy ===== *)
theory Topology_Rollout
  imports Topology_Types "HOL-Library.Sublist"
begin

text \<open>
  Startup batches of a Topology (\<open>src/controllers/topology/rollout.go\<close>): whole Pod groups are released
  by removing the hold annotation of their Nodes, one batch at a time, once every released group has a
  network-ready Pod sandbox.
\<close>

section \<open>Definitions\<close>

text \<open>
  The answers of the API client: the Nodes of the Topology's namespace, the direct workload Pods and
  the answer to an optimistic-lock patch, which may depend on the patches sent before. A patch is the
  object before and after the edit.
\<close>

type_synonym 'o patches = "('o \<times> 'o) list"

record rollout_api =
  ra_nodes :: "api_error + node list"
  ra_pods :: "api_error + pod list"
  ra_patch :: "node patches \<Rightarrow> node \<Rightarrow> api_error + node"

datatype rollout_error =
    StartupHoldOwner string string
  | RolloutApiError api_error
  | NilNode string

definition startup_hold :: "node \<Rightarrow> string" where
  "startup_hold n = gm_str (nd_annotations n) AnnotationStartupHold"

definition drop_hold :: "node \<Rightarrow> node" where
  "drop_hold n = n\<lparr> nd_meta := unannotate AnnotationStartupHold (nd_meta n) \<rparr>"

fun releaseStartupGroup :: "rollout_api \<Rightarrow> topology \<Rightarrow> (string, node) gomap \<Rightarrow> string list \<Rightarrow> node patches
    \<Rightarrow> rollout_error option \<times> (string, node) gomap \<times> node patches" where
  "releaseStartupGroup api topology nodes [] calls = (None, nodes, calls)"
| "releaseStartupGroup api topology nodes (name # members) calls =
     (case map_of nodes name of
        None \<Rightarrow> (Some (NilNode name), nodes, calls)
      | Some node \<Rightarrow>
          if startup_hold node = '''' then releaseStartupGroup api topology nodes members calls
          else if startup_hold node \<noteq> tp_uid topology
          then (Some (StartupHoldOwner (nd_namespace node) (nd_name node)), nodes, calls)
          else let after = drop_hold node; calls' = calls @ [(node, after)] in
               case ra_patch api calls after of
                 Inl e \<Rightarrow> (Some (RolloutApiError e), AList.update name after nodes, calls')
               | Inr stored \<Rightarrow>
                   releaseStartupGroup api topology (AList.update name stored nodes) members calls')"

text \<open>The Nodes of the compilation that the Topology owns, and whether one of them is held.\<close>

definition startupNodes :: "topology \<Rightarrow> CompiledTopology \<Rightarrow> node list \<Rightarrow> (string, node) gomap \<times> bool" where
  "startupNodes topology compiled listed =
     (let wanted = filter (\<lambda>n. map_of (ct_nodes compiled) (nd_name n) \<noteq> None \<and> ownedBy (nd_meta n) topology) listed
      in (foldl (\<lambda>nodes n. AList.update (nd_name n) n nodes) [] wanted,
          \<exists>n \<in> set wanted. startup_hold n \<noteq> ''''))"

fun startup_groups_loop :: "(string, node) gomap \<Rightarrow> string list \<Rightarrow> (string, string list) gomap
    \<Rightarrow> (string, string list) gomap option" where
  "startup_groups_loop nodes [] groups = Some groups"
| "startup_groups_loop nodes (name # names) groups =
     (let primary = ResolvePrimaryNode nodes name in
      if map_of nodes primary = None then None
      else startup_groups_loop nodes names (AList.update primary (gm_list groups primary @ [name]) groups))"

definition startupGroups :: "(string, node) gomap \<Rightarrow> (string, string list) gomap option" where
  "startupGroups nodes = startup_groups_loop nodes (map fst nodes) []"

text \<open>
  \<open>nodes[primary]\<close> and \<open>nodes[name]\<close> in \<open>classifyStartupGroups\<close> are present: \<open>startupGroups\<close> builds its
  groups from the keys of \<open>nodes\<close> and refuses an absent primary.
\<close>

definition runs :: "(string, node) gomap \<Rightarrow> string \<Rightarrow> bool" where
  "runs nodes name = (case map_of nodes name of None \<Rightarrow> False | Some n \<Rightarrow> \<not> IsStopped (nd_spec n))"

definition held :: "(string, node) gomap \<Rightarrow> string \<Rightarrow> bool" where
  "held nodes name = (case map_of nodes name of None \<Rightarrow> False | Some n \<Rightarrow> startup_hold n \<noteq> '''')"

definition classifyStartupGroups :: "(string, node) gomap \<Rightarrow> (string, string list) gomap
    \<Rightarrow> string list \<times> string list \<times> bool" where
  "classifyStartupGroups nodes groups =
     (let running = filter (\<lambda>(primary, members). runs nodes primary) groups in
      (filter (held nodes) (map fst running),
       filter (\<lambda>primary. \<not> held nodes primary) (map fst running),
       \<exists>(primary, members) \<in> set running. \<exists>name \<in> set members. held nodes name))"

definition admittedSandboxesReady :: "pod list \<Rightarrow> (string, node) gomap \<Rightarrow> string list \<Rightarrow> bool" where
  "admittedSandboxesReady pods nodes admitted =
     (let newest = startupAdmissionPods pods in
      \<forall>primary \<in> set admitted.
        case map_of nodes primary of
          None \<Rightarrow> False
        | Some n \<Rightarrow> (case map_of newest (nd_uid n) of None \<Rightarrow> False | Some p \<Rightarrow> startupSandboxReady p))"

fun release_groups :: "rollout_api \<Rightarrow> topology \<Rightarrow> (string, string list) gomap \<Rightarrow> (string, node) gomap
    \<Rightarrow> string list \<Rightarrow> node patches \<Rightarrow> rollout_error option \<times> (string, node) gomap \<times> node patches" where
  "release_groups api topology groups nodes [] calls = (None, nodes, calls)"
| "release_groups api topology groups nodes (primary # primaries) calls =
     (case releaseStartupGroup api topology nodes (gm_list groups primary) calls of
        (Some e, nodes', calls') \<Rightarrow> (Some e, nodes', calls')
      | (None, nodes', calls') \<Rightarrow> release_groups api topology groups nodes' primaries calls')"

text \<open>The result: whether startup is still pending, the error and the patches sent.\<close>

definition advanceStartupBatch :: "rollout_api \<Rightarrow> topology \<Rightarrow> CompiledTopology
    \<Rightarrow> bool \<times> rollout_error option \<times> node patches" where
  "advanceStartupBatch api topology compiled =
     (case ra_nodes api of
        Inl e \<Rightarrow> (False, Some (RolloutApiError e), [])
      | Inr listed \<Rightarrow>
          (let (nodes, is_held) = startupNodes topology compiled listed in
           if \<not> is_held then (False, None, [])
           else if length nodes \<noteq> length (ct_nodes compiled) then (True, None, [])
           else case startupGroups nodes of
             None \<Rightarrow> (True, None, [])
           | Some groups \<Rightarrow>
               (let (pending, admitted, active) = classifyStartupGroups nodes groups;
                    pending = sort pending
                in
                if \<not> active then (False, None, [])
                else case release_groups api topology groups nodes admitted [] of
                  (Some e, nodes1, calls) \<Rightarrow> (True, Some e, calls)
                | (None, nodes1, calls) \<Rightarrow>
                    (let release = (\<lambda>batch.
                       case release_groups api topology groups nodes1 batch calls of
                         (err, nodes2, calls') \<Rightarrow> (True, err, calls'))
                     in
                     if startupBatchSize topology > 0
                     then case ra_pods api of
                            Inl e \<Rightarrow> (True, Some (RolloutApiError e), calls)
                          | Inr pods \<Rightarrow>
                              if \<not> admittedSandboxesReady pods nodes1 admitted then (True, None, calls)
                              else release (if int (length pending) > startupBatchSize topology
                                            then take (nat (startupBatchSize topology)) pending else pending)
                     else release pending))))"

section \<open>The groups of a startup inventory\<close>

definition group_members :: "(string, node) gomap \<Rightarrow> string \<Rightarrow> string list" where
  "group_members nodes primary = filter (\<lambda>name. ResolvePrimaryNode nodes name = primary) (map fst nodes)"

lemma startup_groups_loop_spec:
  assumes "startup_groups_loop nodes names groups = Some result"
  shows "gm_list result p = gm_list groups p @ filter (\<lambda>name. ResolvePrimaryNode nodes name = p) names"
    and "fst ` set result = fst ` set groups \<union> ResolvePrimaryNode nodes ` set names"
    and "distinct (map fst groups) \<Longrightarrow> distinct (map fst result)"
    and "name \<in> set names \<Longrightarrow> map_of nodes (ResolvePrimaryNode nodes name) \<noteq> None"
  using assms
proof (induction names arbitrary: groups)
  case (Cons x xs)
  define grown where "grown g = AList.update (ResolvePrimaryNode nodes x) (gm_list g (ResolvePrimaryNode nodes x) @ [x]) g" for g
  have rest: "startup_groups_loop nodes xs (grown g) = Some result \<and> map_of nodes (ResolvePrimaryNode nodes x) \<noteq> None"
    if "startup_groups_loop nodes (x # xs) g = Some result" for g
    using that by (simp add: Let_def grown_def split: if_splits)
  {
    case 1
    from Cons.IH(1) [of "grown groups"] rest [OF 1] show ?case by (auto simp: grown_def)
  next
    case 2
    from Cons.IH(2) [of "grown groups"] rest [OF 2] show ?case by (auto simp: grown_def dom_update)
  next
    case 3
    from Cons.IH(3) [of "grown groups"] rest [OF 3(2)] 3(1) show ?case by (simp add: grown_def distinct_update)
  next
    case 4
    from Cons.IH(4) [of "grown groups"] rest [OF 4(2)] 4(1) show ?case by auto
  }
qed simp_all

lemma startupGroups_spec:
  assumes "startupGroups nodes = Some groups"
  shows "gm_list groups p = group_members nodes p" "distinct (map fst groups)"
    "fst ` set groups = ResolvePrimaryNode nodes ` fst ` set nodes"
    "p \<in> fst ` set groups \<Longrightarrow> map_of nodes p \<noteq> None"
proof -
  note loop = startup_groups_loop_spec [OF assms [unfolded startupGroups_def]]
  show "gm_list groups p = group_members nodes p" using loop(1) by (simp add: group_members_def)
  show "distinct (map fst groups)" using loop(3) by simp
  show keys: "fst ` set groups = ResolvePrimaryNode nodes ` fst ` set nodes" using loop(2) by simp
  show "map_of nodes p \<noteq> None" if "p \<in> fst ` set groups" using that loop(4) by (auto simp: keys)
qed

lemma group_members_disjoint:
  assumes "distinct (map fst nodes)" "distinct primaries"
  shows "distinct (concat (map (group_members nodes) primaries))"
  using assms(2)
proof (induction primaries)
  case (Cons p ps)
  with assms(1) show ?case by (auto simp: group_members_def)
qed simp


section \<open>The patches of a release\<close>

text \<open>
  What a release sends when every patch is accepted: the held members in order, each with its hold
  removed. A pass sends a prefix of it, whatever the API answers.
\<close>

definition release_plan :: "(string, node) gomap \<Rightarrow> string list \<Rightarrow> node patches" where
  "release_plan nodes members =
     map (\<lambda>n. (n, drop_hold n)) (filter (\<lambda>n. startup_hold n \<noteq> '''') (List.map_filter (map_of nodes) members))"

lemma release_plan_Cons:
  "release_plan nodes (name # members) =
     (case map_of nodes name of
        None \<Rightarrow> release_plan nodes members
      | Some n \<Rightarrow> (if startup_hold n \<noteq> '''' then [(n, drop_hold n)] else []) @ release_plan nodes members)"
  by (simp add: release_plan_def List.map_filter_simps split: option.split)

lemma release_plan_Nil [simp]: "release_plan nodes [] = []"
  by (simp add: release_plan_def List.map_filter_simps)

lemma release_plan_append: "release_plan nodes (xs @ ys) = release_plan nodes xs @ release_plan nodes ys"
  by (simp add: release_plan_def List.map_filter_def)

lemma release_plan_cong:
  "(\<And>n. n \<in> set members \<Longrightarrow> map_of nodes n = map_of nodes' n) \<Longrightarrow> release_plan nodes members = release_plan nodes' members"
  by (induction members) (auto simp: release_plan_Cons split: option.split)

lemma release_plan_mem:
  "(b, a) \<in> set (release_plan nodes members) \<longleftrightarrow>
     a = drop_hold b \<and> startup_hold b \<noteq> '''' \<and> (\<exists>name \<in> set members. map_of nodes name = Some b)"
  by (induction members) (auto simp: release_plan_Cons split: option.split)

text \<open>
  \<open>sends patch uid plan calls err calls'\<close>: the patches \<open>calls'\<close> extend \<open>calls\<close> by a prefix of the plan,
  by all of it when no error is returned, and each patched hold names the Topology.
\<close>

definition sends :: "string \<Rightarrow> node patches \<Rightarrow> node patches \<Rightarrow> rollout_error option \<Rightarrow> node patches \<Rightarrow> bool" where
  "sends uid plan calls err calls' \<longleftrightarrow>
     (\<exists>sent. calls' = calls @ sent \<and> prefix sent plan \<and> (err = None \<longrightarrow> sent = plan) \<and>
        (\<forall>(b, a) \<in> set sent. startup_hold b = uid))"

lemma sends_trans:
  assumes "sends uid plan calls None calls1" "sends uid plan' calls1 err calls2"
  shows "sends uid (plan @ plan') calls err calls2"
  using assms by (fastforce simp: sends_def)

lemma sends_stop: "sends uid plan calls (Some e) calls1 \<Longrightarrow> sends uid (plan @ plan') calls (Some e) calls1"
  by (auto simp: sends_def prefix_def)

lemma release_sends:
  assumes "releaseStartupGroup api topology nodes members calls = (err, nodes', calls')" "distinct members"
  shows "sends (tp_uid topology) (release_plan nodes members) calls err calls'"
  using assms
proof (induction members arbitrary: nodes calls)
  case Nil
  then show ?case by (simp add: sends_def)
next
  case (Cons name members)
  show ?case
  proof (cases "map_of nodes name")
    case None
    with Cons.prems show ?thesis by (auto simp: sends_def)
  next
    case (Some node)
    show ?thesis
    proof (cases "startup_hold node = ''''")
      case True
      with Some Cons show ?thesis by (simp add: release_plan_Cons)
    next
      case heldn: False
      show ?thesis
      proof (cases "startup_hold node = tp_uid topology")
        case False
        with Some heldn Cons.prems show ?thesis by (auto simp: sends_def)
      next
        case own: True
        have plan: "release_plan nodes (name # members) = [(node, drop_hold node)] @ release_plan nodes members"
          using Some heldn by (simp add: release_plan_Cons)
        show ?thesis
        proof (cases "ra_patch api calls (drop_hold node)")
          case (Inl e)
          with Some heldn own Cons.prems have "calls' = calls @ [(node, drop_hold node)]" "err \<noteq> None" by (auto simp: Let_def)
          with own show ?thesis unfolding plan by (auto simp: sends_def)
        next
          case (Inr stored)
          let ?n = "AList.update name stored nodes"
          have step: "releaseStartupGroup api topology ?n members (calls @ [(node, drop_hold node)]) = (err, nodes', calls')"
            using Cons.prems(1) Some heldn own Inr by (simp add: Let_def)
          have "release_plan ?n members = release_plan nodes members"
            using Cons.prems(2) by (intro release_plan_cong) auto
          with Cons.IH [OF step] Cons.prems(2)
          have "sends (tp_uid topology) (release_plan nodes members) (calls @ [(node, drop_hold node)]) err calls'" by simp
          moreover have "sends (tp_uid topology) [(node, drop_hold node)] calls None (calls @ [(node, drop_hold node)])"
            using own by (simp add: sends_def)
          ultimately show ?thesis unfolding plan by (rule sends_trans [rotated])
        qed
      qed
    qed
  qed
qed

lemma release_frame:
  assumes "releaseStartupGroup api topology nodes members calls = (err, nodes', calls')" "n \<notin> set members"
  shows "map_of nodes' n = map_of nodes n"
  using assms
  by (induction members arbitrary: nodes calls) (auto simp: Let_def split: option.splits if_splits sum.splits)

text \<open>A patch answers with the stored object, which keeps its UID.\<close>

definition patch_keeps_uid :: "rollout_api \<Rightarrow> bool" where
  "patch_keeps_uid api \<longleftrightarrow> (\<forall>calls n m. ra_patch api calls n = Inr m \<longrightarrow> nd_uid m = nd_uid n)"

lemma release_uids:
  assumes "releaseStartupGroup api topology nodes members calls = (err, nodes', calls')"
    and uid: "patch_keeps_uid api"
  shows "map_option nd_uid (map_of nodes' n) = map_option nd_uid (map_of nodes n)"
  using assms(1)
  by (induction members arbitrary: nodes calls)
    (auto simp: Let_def drop_hold_def dest!: uid [unfolded patch_keeps_uid_def, rule_format]
      split: option.splits if_splits sum.splits)

text \<open>Releasing groups one after the other is releasing the members of all of them.\<close>

lemma release_append:
  "releaseStartupGroup api topology nodes (xs @ ys) calls =
     (case releaseStartupGroup api topology nodes xs calls of
        (Some e, nodes', calls') \<Rightarrow> (Some e, nodes', calls')
      | (None, nodes', calls') \<Rightarrow> releaseStartupGroup api topology nodes' ys calls')"
  by (induction xs arbitrary: nodes calls) (auto simp: Let_def split: option.split sum.split)

lemma release_groups_concat:
  "release_groups api topology groups nodes primaries calls =
     releaseStartupGroup api topology nodes (concat (map (gm_list groups) primaries)) calls"
  by (induction primaries arbitrary: nodes calls) (auto simp: release_append split: prod.split option.split)


section \<open>One pass\<close>

lemma foldl_update_names:
  "map_of (foldl (\<lambda>nodes n. AList.update (nd_name n) n nodes) acc ns) k = Some n \<Longrightarrow>
     map_of acc k = Some n \<or> n \<in> set ns \<and> nd_name n = k"
  by (induction ns arbitrary: acc) (fastforce split: if_splits)+

lemma foldl_update_distinct:
  "distinct (map fst acc) \<Longrightarrow> distinct (map fst (foldl (\<lambda>nodes n. AList.update (nd_name n) n nodes) acc ns))"
  by (induction ns arbitrary: acc) (simp_all add: distinct_update)

lemma startupNodes_spec:
  assumes "startupNodes topology compiled listed = (nodes, is_held)"
  shows "distinct (map fst nodes)"
    and "map_of nodes k = Some n \<Longrightarrow> n \<in> set listed \<and> nd_name n = k \<and> ownedBy (nd_meta n) topology"
proof -
  let ?wanted = "filter (\<lambda>n. map_of (ct_nodes compiled) (nd_name n) \<noteq> None \<and> ownedBy (nd_meta n) topology) listed"
  have nodes: "nodes = foldl (\<lambda>nodes n. AList.update (nd_name n) n nodes) [] ?wanted"
    using assms by (simp add: startupNodes_def Let_def)
  show "distinct (map fst nodes)" unfolding nodes by (rule foldl_update_distinct) simp
  show "n \<in> set listed \<and> nd_name n = k \<and> ownedBy (nd_meta n) topology" if "map_of nodes k = Some n"
    using foldl_update_names [OF that [unfolded nodes]] by simp
qed

lemma admittedSandboxesReady_uids:
  assumes "\<And>p. map_option nd_uid (map_of nodes' p) = map_option nd_uid (map_of nodes p)"
  shows "admittedSandboxesReady pods nodes' admitted = admittedSandboxesReady pods nodes admitted"
proof -
  let ?ready = "\<lambda>u. case map_of (startupAdmissionPods pods) u of None \<Rightarrow> False | Some p \<Rightarrow> startupSandboxReady p"
  have "(case map_of nodes' p of None \<Rightarrow> False | Some n \<Rightarrow> ?ready (nd_uid n)) =
      (case map_of nodes p of None \<Rightarrow> False | Some n \<Rightarrow> ?ready (nd_uid n))" for p
    using assms [of p] by (cases "map_of nodes p"; cases "map_of nodes' p") simp_all
  then show ?thesis unfolding admittedSandboxesReady_def Let_def by blast
qed

text \<open>The pending groups a pass may release: none while the barrier is closed, at most a batch.\<close>

definition next_batch :: "topology \<Rightarrow> pod list \<Rightarrow> (string, node) gomap \<Rightarrow> string list \<Rightarrow> string list \<Rightarrow> string list" where
  "next_batch topology pods nodes pending admitted =
     (if startupBatchSize topology > 0
      then if admittedSandboxesReady pods nodes admitted
           then take (nat (startupBatchSize topology)) (sort pending) else []
      else sort pending)"

lemma classify_groups:
  assumes "startupGroups nodes = Some groups" "classifyStartupGroups nodes groups = (pending, admitted, active)"
  shows "set pending = {p \<in> ResolvePrimaryNode nodes ` fst ` set nodes. runs nodes p \<and> held nodes p}"
    and "set admitted = {p \<in> ResolvePrimaryNode nodes ` fst ` set nodes. runs nodes p \<and> \<not> held nodes p}"
    and "distinct pending" "distinct admitted"
proof -
  note g = startupGroups_spec [OF assms(1)]
  have keys: "fst ` {x \<in> set groups. runs nodes (fst x)} = {p \<in> fst ` set groups. runs nodes p}" by force
  have dist: "distinct (map fst (filter (\<lambda>x. runs nodes (fst x)) groups))"
    using g(2) by (simp add: distinct_map_filter)
  have p: "pending = filter (held nodes) (map fst (filter (\<lambda>x. runs nodes (fst x)) groups))"
    and a: "admitted = filter (\<lambda>p. \<not> held nodes p) (map fst (filter (\<lambda>x. runs nodes (fst x)) groups))"
    using assms(2) by (auto simp: classifyStartupGroups_def Let_def split_def)
  show "set pending = {p \<in> ResolvePrimaryNode nodes ` fst ` set nodes. runs nodes p \<and> held nodes p}"
    using keys g(3) by (auto simp: p)
  show "set admitted = {p \<in> ResolvePrimaryNode nodes ` fst ` set nodes. runs nodes p \<and> \<not> held nodes p}"
    using keys g(3) by (auto simp: a)
  show "distinct pending" "distinct admitted" using dist by (simp_all add: p a)
qed

lemma advance_sends:
  assumes res: "advanceStartupBatch api topology compiled = (flag, err, calls)"
    and lists: "ra_nodes api = Inr listed" "ra_pods api = Inr pods"
    and nodes: "startupNodes topology compiled listed = (nodes, True)" "length nodes = length (ct_nodes compiled)"
    and groups: "startupGroups nodes = Some groups" "classifyStartupGroups nodes groups = (pending, admitted, True)"
    and uid: "patch_keeps_uid api"
  obtains batch where "batch \<in> {[], next_batch topology pods nodes pending admitted}"
    "err = None \<Longrightarrow> batch = next_batch topology pods nodes pending admitted"
    "sends (tp_uid topology) (release_plan nodes (concat (map (group_members nodes) (admitted @ batch)))) [] err calls"
proof -
  let ?members = "\<lambda>ps. concat (map (group_members nodes) ps)" and ?u = "tp_uid topology"
  let ?next = "next_batch topology pods nodes pending admitted"
  note keys = startupNodes_spec [OF nodes(1)] and cls = classify_groups [OF groups]
  have mem: "gm_list groups = group_members nodes" by (rule ext) (rule startupGroups_spec(1) [OF groups(1)])
  have next_sub: "set ?next \<subseteq> set pending" "distinct ?next"
    using cls(3) by (auto simp: next_batch_def dest: in_set_takeD)
  have dist: "distinct (?members (admitted @ ?next))"
    using cls next_sub by (intro group_members_disjoint [OF keys(1)]) auto
  obtain err1 nodes1 calls1 where first: "releaseStartupGroup api topology nodes (?members admitted) [] = (err1, nodes1, calls1)"
    by (cases "releaseStartupGroup api topology nodes (?members admitted) []")
  have s1: "sends ?u (release_plan nodes (?members admitted)) [] err1 calls1"
    using release_sends [OF first] dist by simp
  have ready: "admittedSandboxesReady pods nodes1 admitted = admittedSandboxesReady pods nodes admitted"
    by (rule admittedSandboxesReady_uids) (rule release_uids [OF first uid])
  show thesis
  proof (cases err1)
    case (Some e)
    with res lists nodes groups first have "err = Some e" "calls = calls1"
      by (auto simp: advanceStartupBatch_def release_groups_concat mem Let_def)
    with s1 Some that [of "[]"] show thesis by simp
  next
    case None
    obtain err2 nodes2 calls2 where second: "releaseStartupGroup api topology nodes1 (?members ?next) calls1 = (err2, nodes2, calls2)"
      by (cases "releaseStartupGroup api topology nodes1 (?members ?next) calls1")
    have "release_plan nodes1 (?members ?next) = release_plan nodes (?members ?next)"
      using release_frame [OF first] dist by (intro release_plan_cong) auto
    then have "sends ?u (release_plan nodes (?members ?next)) calls1 err2 calls2"
      using release_sends [OF second] dist by simp
    with s1 None have both: "sends ?u (release_plan nodes (?members (admitted @ ?next))) [] err2 calls2"
      by (simp add: release_plan_append sends_trans)
    show thesis
    proof (cases "startupBatchSize topology > 0 \<and> \<not> admittedSandboxesReady pods nodes admitted")
      case True
      with res lists nodes groups first None ready have "err = None" "calls = calls1"
        by (auto simp: advanceStartupBatch_def release_groups_concat mem Let_def)
      with s1 None that [of "[]"] True show thesis by (simp add: next_batch_def)
    next
      case False
      with ready have n: "?next = (if startupBatchSize topology > 0
          then take (nat (startupBatchSize topology)) (sort pending) else sort pending)"
        by (simp add: next_batch_def)
      have "err = err2 \<and> calls = calls2"
        using res lists nodes groups first None ready False second unfolding n
        by (auto simp: advanceStartupBatch_def release_groups_concat mem Let_def split: if_splits)
      with both that [of ?next] show thesis by simp
    qed
  qed
qed


lemma advance_active:
  assumes "advanceStartupBatch api topology compiled = (flag, err, calls)" "calls \<noteq> []"
    and "ra_nodes api = Inr listed" "startupNodes topology compiled listed = (nodes, is_held)"
  obtains groups pending admitted where "is_held" "length nodes = length (ct_nodes compiled)"
    "startupGroups nodes = Some groups" "classifyStartupGroups nodes groups = (pending, admitted, True)"
proof -
  from assms obtain groups where g: "is_held" "length nodes = length (ct_nodes compiled)" "startupGroups nodes = Some groups"
    by (auto simp: advanceStartupBatch_def split: if_splits option.splits)
  obtain pending admitted active where c: "classifyStartupGroups nodes groups = (pending, admitted, active)"
    by (cases "classifyStartupGroups nodes groups")
  with assms g have active by (cases active) (auto simp: advanceStartupBatch_def Let_def)
  with g c that show thesis by simp
qed

lemma group_member_lookup:
  assumes "startupNodes topology compiled listed = (nodes, is_held)"
    and "name \<in> set (concat (map (group_members nodes) ps))" "map_of nodes name = Some b"
  shows "nd_name b = name" "ResolvePrimaryNode nodes (nd_name b) \<in> set ps"
  using startupNodes_spec(2) [OF assms(1,3)] assms(2) by (auto simp: group_members_def)

text \<open>
  C16: A startup pass releases at most one batch of groups: whatever the API answers, every patch
  removes a hold of the Topology from a Node the Topology owns in a running group; the patches touch
  at most \<open>batchSize\<close> groups whose primary was held, and none at all unless the newest Pod of every
  group released before has a network-ready sandbox.
\<close>

theorem startup_batch_bounded:
  assumes res: "advanceStartupBatch api topology compiled = (flag, err, calls)"
    and lists: "ra_nodes api = Inr listed" "ra_pods api = Inr pods"
    and nodes: "startupNodes topology compiled listed = (nodes, is_held)"
    and batch: "0 < startupBatchSize topology"
    and uid: "patch_keeps_uid api"
  defines "started \<equiv> {g. held nodes g \<and> (\<exists>(b, a) \<in> set calls. ResolvePrimaryNode nodes (nd_name b) = g)}"
  shows "card started \<le> nat (startupBatchSize topology) \<and>
    (\<forall>(b, a) \<in> set calls. b \<in> set listed \<and> ownedBy (nd_meta b) topology \<and> startup_hold b = tp_uid topology \<and>
       a = drop_hold b \<and> runs nodes (ResolvePrimaryNode nodes (nd_name b))) \<and>
    (started \<noteq> {} \<longrightarrow>
       (\<forall>p \<in> ResolvePrimaryNode nodes ` fst ` set nodes. runs nodes p \<and> \<not> held nodes p \<longrightarrow>
          (\<exists>n pod. map_of nodes p = Some n \<and> map_of (startupAdmissionPods pods) (nd_uid n) = Some pod \<and>
             startupSandboxReady pod)))"
proof (cases "calls = []")
  case True
  then show ?thesis by (simp add: started_def)
next
  case False
  from advance_active [OF res False lists(1) nodes] obtain groups pending admitted where
    g: is_held "length nodes = length (ct_nodes compiled)" "startupGroups nodes = Some groups"
      "classifyStartupGroups nodes groups = (pending, admitted, True)" .
  note cls = classify_groups [OF g(3,4)]
  let ?next = "next_batch topology pods nodes pending admitted"
  have held_nodes: "startupNodes topology compiled listed = (nodes, True)" using nodes g(1) by simp
  obtain batch where b: "batch \<in> {[], ?next}"
      "sends (tp_uid topology) (release_plan nodes (concat (map (group_members nodes) (admitted @ batch)))) [] err calls"
    by (rule advance_sends [OF res lists held_nodes g(2-4) uid])
  have sub: "set batch \<subseteq> set pending" "length batch \<le> nat (startupBatchSize topology)"
    using b(1) batch set_take_subset [of "nat (startupBatchSize topology)" "sort pending"]
    by (auto simp: next_batch_def)
  have call: "a = drop_hold x \<and> startup_hold x = tp_uid topology \<and> x \<in> set listed \<and> ownedBy (nd_meta x) topology \<and>
      ResolvePrimaryNode nodes (nd_name x) \<in> set (admitted @ batch)" if "(x, a) \<in> set calls" for x a
  proof -
    from that b(2) have plan: "(x, a) \<in> set (release_plan nodes (concat (map (group_members nodes) (admitted @ batch))))"
      and own: "startup_hold x = tp_uid topology"
      by (auto simp: sends_def dest: set_mono_prefix)
    from plan obtain name where name: "name \<in> set (concat (map (group_members nodes) (admitted @ batch)))"
      "map_of nodes name = Some x" "a = drop_hold x" unfolding release_plan_mem by blast
    with own startupNodes_spec(2) [OF nodes name(2)] group_member_lookup [OF nodes name(1,2)] show ?thesis by blast
  qed
  have started: "started \<subseteq> set batch"
    using call cls(2) by (fastforce simp: started_def)
  have "card started \<le> card (set batch)" by (rule card_mono [OF _ started]) simp
  also have "\<dots> \<le> nat (startupBatchSize topology)" using card_length [of batch] sub(2) by linarith
  finally have bound: "card started \<le> nat (startupBatchSize topology)" .
  have runs: "runs nodes p" if "p \<in> set (admitted @ batch)" for p
    using that sub(1) cls(1,2) by auto
  have barrier: "\<exists>n pod. map_of nodes p = Some n \<and> map_of (startupAdmissionPods pods) (nd_uid n) = Some pod \<and> startupSandboxReady pod"
    if "started \<noteq> {}" "p \<in> ResolvePrimaryNode nodes ` fst ` set nodes" "runs nodes p" "\<not> held nodes p" for p
  proof -
    have "batch \<noteq> []" using started that(1) by auto
    with b(1) batch have "admittedSandboxesReady pods nodes admitted"
      by (auto simp: next_batch_def split: if_splits)
    moreover have "p \<in> set admitted" using that(2-4) by (simp add: cls(2))
    ultimately have "case map_of nodes p of None \<Rightarrow> False
        | Some n \<Rightarrow> (case map_of (startupAdmissionPods pods) (nd_uid n) of None \<Rightarrow> False | Some q \<Rightarrow> startupSandboxReady q)"
      unfolding admittedSandboxesReady_def Let_def by blast
    then show ?thesis by (auto split: option.splits)
  qed
  show ?thesis using bound call runs barrier by blast
qed

text \<open>Three Nodes of a Topology with batch size 1: \<open>a\<close> runs and is ready, \<open>b\<close> and \<open>c\<close> are held.\<close>

definition sample_held :: "string \<Rightarrow> node" where
  "sample_held name = sample_owned name [(AnnotationStartupHold, ''uid-topo'')]"

definition sample_compiled :: CompiledTopology where
  "sample_compiled = \<lparr> ct_kind = ''containerlab'', ct_nodes = [(''a'', ''''), (''b'', ''''), (''c'', '''')], ct_links = [] \<rparr>"

definition sample_listed :: "node list" where
  "sample_listed = [sample_owned ''a'' [], sample_held ''c'', sample_held ''b'']"

definition sample_rollout_api :: rollout_api where
  "sample_rollout_api = \<lparr> ra_nodes = Inr sample_listed, ra_pods = Inr [sample_pod ''a'' ''h1'' True], ra_patch = (\<lambda>_ n. Inr n) \<rparr>"

lemma sample_rollout_pass:
  "advanceStartupBatch sample_rollout_api sample_topology sample_compiled =
     (True, None, [(sample_held ''b'', sample_owned ''b'' [])])"
  by code_simp

lemma sample_rollout_uid: "patch_keeps_uid sample_rollout_api"
  by (simp add: patch_keeps_uid_def sample_rollout_api_def)

lemma sample_rollout_lists:
  "ra_nodes sample_rollout_api = Inr sample_listed" "ra_pods sample_rollout_api = Inr [sample_pod ''a'' ''h1'' True]"
  "startupBatchSize sample_topology = 1"
  by (simp_all add: sample_rollout_api_def startupBatchSize_def sample_topology_def)

theorem startup_batch_bounded_witness:
  "card {g. held (fst (startupNodes sample_topology sample_compiled sample_listed)) g \<and>
      ResolvePrimaryNode (fst (startupNodes sample_topology sample_compiled sample_listed)) ''b'' = g} \<le> 1"
proof -
  have "nd_name (sample_held ''b'') = ''b''" by (simp add: sample_held_def sample_owned_def sample_defs)
  with startup_batch_bounded [OF sample_rollout_pass sample_rollout_lists(1,2) prod.collapse [symmetric] _ sample_rollout_uid]
  show ?thesis by (simp add: sample_rollout_lists(3))
qed

text \<open>
  C17: A pass that meets no error moves the startup forward by exactly one batch: once the whole
  inventory is visible, it removes the hold of every member of a released group and of every member of
  the first \<open>batchSize\<close> held groups in name order, and of no other Node, provided the released groups
  are ready; otherwise it only completes the released groups.
\<close>

theorem startup_batch_progress:
  assumes res: "advanceStartupBatch api topology compiled = (flag, None, calls)"
    and lists: "ra_nodes api = Inr listed" "ra_pods api = Inr pods"
    and nodes: "startupNodes topology compiled listed = (nodes, True)" "length nodes = length (ct_nodes compiled)"
    and groups: "startupGroups nodes = Some groups" "classifyStartupGroups nodes groups = (pending, admitted, True)"
    and uid: "patch_keeps_uid api"
    and batch: "0 < startupBatchSize topology"
  defines "released \<equiv> set admitted \<union> (if admittedSandboxesReady pods nodes admitted
      then set (take (nat (startupBatchSize topology)) (sort pending)) else {})"
  shows "nd_name ` fst ` set calls = {name. held nodes name \<and> ResolvePrimaryNode nodes name \<in> released}"
proof -
  let ?next = "next_batch topology pods nodes pending admitted"
  have next_set: "set (admitted @ ?next) = released"
    using batch by (simp add: next_batch_def released_def)
  have "sends (tp_uid topology) (release_plan nodes (concat (map (group_members nodes) (admitted @ ?next)))) [] None calls"
    by (rule advance_sends [OF res lists nodes groups uid]) simp
  then have calls: "calls = release_plan nodes (concat (map (group_members nodes) (admitted @ ?next)))"
    by (simp add: sends_def)
  show ?thesis
  proof (intro set_eqI iffI)
    fix name
    assume "name \<in> nd_name ` fst ` set calls"
    then obtain b a where b: "(b, a) \<in> set calls" "name = nd_name b" by force
    then obtain k where k: "k \<in> set (concat (map (group_members nodes) (admitted @ ?next)))" "map_of nodes k = Some b"
      "startup_hold b \<noteq> ''''" unfolding calls release_plan_mem by blast
    with group_member_lookup [OF nodes(1) k(1,2)] b(2) next_set
    show "name \<in> {name. held nodes name \<and> ResolvePrimaryNode nodes name \<in> released}" by (auto simp: held_def)
  next
    fix name
    assume "name \<in> {name. held nodes name \<and> ResolvePrimaryNode nodes name \<in> released}"
    then obtain b where b: "map_of nodes name = Some b" "startup_hold b \<noteq> ''''"
      "ResolvePrimaryNode nodes name \<in> set (admitted @ ?next)"
      unfolding next_set by (auto simp: held_def split: option.splits)
    then have "name \<in> set (concat (map (group_members nodes) (admitted @ ?next)))"
      using map_of_SomeD [OF b(1)] by (force simp: group_members_def)
    with b have "(b, drop_hold b) \<in> set calls" unfolding calls release_plan_mem by blast
    moreover have "nd_name b = name" using startupNodes_spec(2) [OF nodes(1) b(1)] by simp
    ultimately show "name \<in> nd_name ` fst ` set calls" by force
  qed
qed


theorem startup_batch_progress_witness:
  "{name. held (fst (startupNodes sample_topology sample_compiled sample_listed)) name \<and>
        ResolvePrimaryNode (fst (startupNodes sample_topology sample_compiled sample_listed)) name \<in> {''b'', ''a''}} = {''b''}"
proof -
  define nodes where "nodes = fst (startupNodes sample_topology sample_compiled sample_listed)"
  have n: "startupNodes sample_topology sample_compiled sample_listed = (nodes, True)"
    unfolding nodes_def by code_simp
  have groups: "startupGroups nodes = Some [(''a'', [''a'']), (''c'', [''c'']), (''b'', [''b''])]"
    "classifyStartupGroups nodes [(''a'', [''a'']), (''c'', [''c'']), (''b'', [''b''])] = ([''c'', ''b''], [''a''], True)"
    unfolding nodes_def by code_simp+
  have size: "length nodes = length (ct_nodes sample_compiled)" "0 < startupBatchSize sample_topology"
    "admittedSandboxesReady [sample_pod ''a'' ''h1'' True] nodes [''a'']"
    "take (nat (startupBatchSize sample_topology)) (sort [''c'', ''b'']) = [''b'']"
    unfolding nodes_def by code_simp+
  have b: "nd_name (sample_held ''b'') = ''b''" by (simp add: sample_held_def sample_owned_def sample_defs)
  have "nd_name ` fst ` set [(sample_held ''b'', sample_owned ''b'' [])] =
      {name. held nodes name \<and> ResolvePrimaryNode nodes name \<in> {''b'', ''a''}}"
    using startup_batch_progress [OF sample_rollout_pass sample_rollout_lists(1,2) n size(1) groups sample_rollout_uid size(2)]
    unfolding size(4) by (simp add: size(3))
  then show ?thesis unfolding nodes_def [symmetric] by (simp add: b)
qed

end
