(* ===== verification/Topology_Emit.thy ===== *)
theory Topology_Emit
  imports Topology_Types
begin

text \<open>
  The objects a Topology emits (\<open>src/controllers/topology/reconcile.go\<close>): conflict detection against
  foreign objects, and the create, update and prune pass over one kind of emitted object, with its
  instances for Nodes, Links and NodeProfiles.
\<close>

section \<open>Definitions\<close>

text \<open>NodeProfiles; the spec is only compared as a whole.\<close>

record node_profile =
  np_meta :: object_meta
  np_spec :: string

definition ownerReferencesConform :: "object_meta \<Rightarrow> object_meta \<Rightarrow> bool" where
  "ownerReferencesConform existing rendered \<longleftrightarrow>
     (\<forall>expected \<in> set (meta_owners rendered). \<exists>r \<in> set (meta_owners existing). r = expected)"

text \<open>
  \<open>specConforms\<close> compares the JSON forms of two specs. The opaque part of a modelled spec stands for
  the JSON form of the fields it abstracts, so that an absent and an empty field are one value and
  equality of the modelled specs is equality of their JSON.
\<close>

definition specConforms :: "'s \<Rightarrow> 's \<Rightarrow> bool" where
  "specConforms existingSpec renderedSpec \<longleftrightarrow> existingSpec = renderedSpec"

definition meta_conforms :: "object_meta \<Rightarrow> object_meta \<Rightarrow> bool" where
  "meta_conforms existing rendered \<longleftrightarrow>
     ownerReferencesConform existing rendered \<and>
     contains_expected (meta_labels existing) (meta_labels rendered) \<and>
     contains_expected (meta_annotations existing) (meta_annotations rendered)"

text \<open>The three instances of \<open>emittedObjectConforms\<close> and the carry-over functions.\<close>

definition node_object_conforms :: "node \<Rightarrow> node \<Rightarrow> bool" where
  "node_object_conforms existing rendered \<longleftrightarrow>
     specConforms (nd_spec existing) (nd_spec rendered) \<and> meta_conforms (nd_meta existing) (nd_meta rendered)"

definition emittedNodeConforms :: "node \<Rightarrow> node \<Rightarrow> bool" where
  "emittedNodeConforms existing rendered =
     node_object_conforms existing
       (rendered\<lparr> nd_spec := (nd_spec rendered)\<lparr> ns_run_state := ns_run_state (nd_spec existing) \<rparr> \<rparr>)"

definition operationalNodeAnnotations :: "string list" where
  "operationalNodeAnnotations = [RestartRequestedAnnotation, DeviceStateResetAnnotation]"

definition carry_annotation :: "(string, string) gomap \<Rightarrow> object_meta \<Rightarrow> string \<Rightarrow> object_meta" where
  "carry_annotation annotations m key =
     (case map_of annotations key of None \<Rightarrow> m | Some value \<Rightarrow> annotate key value m)"

definition carryOverNode :: "node \<Rightarrow> node \<Rightarrow> node" where
  "carryOverNode existing rendered =
     rendered\<lparr> nd_status := nd_status existing,
       nd_spec := (nd_spec rendered)\<lparr> ns_run_state := ns_run_state (nd_spec existing) \<rparr>,
       nd_meta := foldl (carry_annotation (nd_annotations existing)) (nd_meta rendered) operationalNodeAnnotations \<rparr>"

definition emittedLinkConforms :: "link \<Rightarrow> link \<Rightarrow> bool" where
  "emittedLinkConforms existing rendered \<longleftrightarrow>
     specConforms (lk_spec existing) (lk_spec rendered) \<and> meta_conforms (lk_meta existing) (lk_meta rendered)"

definition carryOverLink :: "link \<Rightarrow> link \<Rightarrow> link" where
  "carryOverLink existing rendered = rendered\<lparr> lk_status := lk_status existing \<rparr>"

definition emittedProfileConforms :: "node_profile \<Rightarrow> node_profile \<Rightarrow> bool" where
  "emittedProfileConforms existing rendered \<longleftrightarrow>
     specConforms (np_spec existing) (np_spec rendered) \<and> meta_conforms (np_meta existing) (np_meta rendered)"

definition carryOverProfile :: "node_profile \<Rightarrow> node_profile \<Rightarrow> node_profile" where
  "carryOverProfile existing rendered = rendered"

text \<open>
  The generic pass. A kind gives access to the metadata of its objects, the conformance check and the
  carry-over. The API client and \<open>controllerutil.SetControllerReference\<close> are parameters.
\<close>

record 'o emitted_kind =
  ek_meta :: "'o \<Rightarrow> object_meta"
  ek_with_meta :: "object_meta \<Rightarrow> 'o \<Rightarrow> 'o"
  ek_conforms :: "'o \<Rightarrow> 'o \<Rightarrow> bool"
  ek_carry_over :: "'o \<Rightarrow> 'o \<Rightarrow> 'o"

datatype 'o emitted_call = CallCreate 'o | CallUpdate 'o | CallDelete 'o

record 'o emit_api =
  ea_call :: "'o emitted_call list \<Rightarrow> 'o emitted_call \<Rightarrow> api_error option"
  ea_set_controller :: "topology \<Rightarrow> object_meta \<Rightarrow> api_error + object_meta"

fun emit_rendered :: "'o emit_api \<Rightarrow> 'o emitted_kind \<Rightarrow> topology \<Rightarrow> 'o list \<Rightarrow> (string, 'o) gomap \<Rightarrow> 'o emitted_call list
    \<Rightarrow> api_error option \<times> (string, 'o) gomap \<times> 'o emitted_call list" where
  "emit_rendered api kind topology [] existing calls = (None, existing, calls)"
| "emit_rendered api kind topology (r # rendered) existing calls =
     (case ea_set_controller api topology (ek_meta kind r) of
        Inl e \<Rightarrow> (Some e, existing, calls)
      | Inr m \<Rightarrow>
          let r = ek_with_meta kind m r; name = meta_name (ek_meta kind r) in
          (case map_of existing name of
             None \<Rightarrow>
               (case ea_call api calls (CallCreate r) of
                  Some e \<Rightarrow> (Some e, existing, calls @ [CallCreate r])
                | None \<Rightarrow> emit_rendered api kind topology rendered existing (calls @ [CallCreate r]))
           | Some ex \<Rightarrow>
               let existing' = AList.delete name existing in
               if ek_conforms kind ex r then emit_rendered api kind topology rendered existing' calls
               else let carried = ek_carry_over kind ex r;
                        u = ek_with_meta kind ((ek_meta kind carried)\<lparr> meta_resource_version :=
                              meta_resource_version (ek_meta kind ex) \<rparr>) carried
                    in (case ea_call api calls (CallUpdate u) of
                          Some e \<Rightarrow> (Some e, existing', calls @ [CallUpdate u])
                        | None \<Rightarrow> emit_rendered api kind topology rendered existing' (calls @ [CallUpdate u]))))"

fun prune_emitted :: "'o emit_api \<Rightarrow> 'o list \<Rightarrow> 'o emitted_call list \<Rightarrow> api_error option \<times> 'o emitted_call list" where
  "prune_emitted api [] calls = (None, calls)"
| "prune_emitted api (obj # extra) calls =
     (case ea_call api calls (CallDelete obj) of
        None \<Rightarrow> prune_emitted api extra (calls @ [CallDelete obj])
      | Some e \<Rightarrow> if e = NotFound then prune_emitted api extra (calls @ [CallDelete obj])
                  else (Some e, calls @ [CallDelete obj]))"

definition reconcileEmitted :: "'o emit_api \<Rightarrow> 'o emitted_kind \<Rightarrow> topology \<Rightarrow> 'o list \<Rightarrow> (string, 'o) gomap
    \<Rightarrow> api_error option \<times> 'o emitted_call list" where
  "reconcileEmitted api kind topology rendered existing =
     (case emit_rendered api kind topology rendered existing [] of
        (Some e, existing', calls) \<Rightarrow> (Some e, calls)
      | (None, existing', calls) \<Rightarrow> prune_emitted api (map snd existing') calls)"

definition generated_objects :: "('o \<Rightarrow> object_meta) \<Rightarrow> topology \<Rightarrow> 'o list \<Rightarrow> (string, 'o) gomap" where
  "generated_objects meta topology listed =
     foldl (\<lambda>existing obj. if generatedForTopology (meta obj) topology
              then AList.update (meta_name (meta obj)) obj existing else existing) [] listed"

definition node_kind :: "node emitted_kind" where
  "node_kind = \<lparr> ek_meta = nd_meta, ek_with_meta = (\<lambda>m n. n\<lparr> nd_meta := m \<rparr>),
     ek_conforms = emittedNodeConforms, ek_carry_over = carryOverNode \<rparr>"

definition link_kind :: "link emitted_kind" where
  "link_kind = \<lparr> ek_meta = lk_meta, ek_with_meta = (\<lambda>m l. l\<lparr> lk_meta := m \<rparr>),
     ek_conforms = emittedLinkConforms, ek_carry_over = carryOverLink \<rparr>"

definition profile_kind :: "node_profile emitted_kind" where
  "profile_kind = \<lparr> ek_meta = np_meta, ek_with_meta = (\<lambda>m p. p\<lparr> np_meta := m \<rparr>),
     ek_conforms = emittedProfileConforms, ek_carry_over = carryOverProfile \<rparr>"

text \<open>The startup annotations a rendered Node gets: those of the existing Node, or a hold for a new one.\<close>

definition keep_annotation :: "string \<Rightarrow> node \<Rightarrow> object_meta \<Rightarrow> object_meta" where
  "keep_annotation key current m =
     (if gm_str (nd_annotations current) key \<noteq> '''' then annotate key (gm_str (nd_annotations current) key) m else m)"

definition stamp_startup :: "topology \<Rightarrow> (string, node) gomap \<Rightarrow> node \<Rightarrow> node" where
  "stamp_startup topology existing n =
     (let m = unannotate AnnotationStartupAdmitted (unannotate AnnotationStartupHold (nd_meta n)) in
      n\<lparr> nd_meta :=
           (case map_of existing (nd_name n) of
              Some current \<Rightarrow> keep_annotation AnnotationStartupHold current (keep_annotation AnnotationStartupAdmitted current m)
            | None \<Rightarrow> if startupBatchSize topology > 0 then annotate AnnotationStartupHold (tp_uid topology) m else m) \<rparr>)"

definition reconcileNodes :: "node emit_api \<Rightarrow> topology \<Rightarrow> api_error + node list \<Rightarrow> node list \<Rightarrow> api_error option \<times> node emitted_call list" where
  "reconcileNodes api topology listing rendered =
     (case listing of
        Inl e \<Rightarrow> (Some e, [])
      | Inr listed \<Rightarrow>
          let existing = generated_objects nd_meta topology listed in
          reconcileEmitted api node_kind topology (map (stamp_startup topology existing) rendered) existing)"

definition reconcileLinks :: "link emit_api \<Rightarrow> topology \<Rightarrow> api_error + link list \<Rightarrow> link list \<Rightarrow> api_error option \<times> link emitted_call list" where
  "reconcileLinks api topology listing rendered =
     (case listing of
        Inl e \<Rightarrow> (Some e, [])
      | Inr listed \<Rightarrow> reconcileEmitted api link_kind topology rendered (generated_objects lk_meta topology listed))"

definition reconcileNodeProfiles :: "node_profile emit_api \<Rightarrow> topology \<Rightarrow> api_error + node_profile list \<Rightarrow> node_profile list
    \<Rightarrow> api_error option \<times> node_profile emitted_call list" where
  "reconcileNodeProfiles api topology listing rendered =
     (case listing of
        Inl e \<Rightarrow> (Some e, [])
      | Inr listed \<Rightarrow> reconcileEmitted api profile_kind topology rendered (generated_objects np_meta topology listed))"

text \<open>Conflicts: names rendered twice in a kind, and names an object of other origin holds.\<close>

record renderedChildren =
  rc_profiles :: "node_profile list"
  rc_links :: "link list"
  rc_nodes :: "node list"

definition all_children :: "renderedChildren \<Rightarrow> (string \<times> object_meta) list" where
  "all_children c =
     map (\<lambda>p. (''nodeprofile'', np_meta p)) (rc_profiles c) @ map (\<lambda>l. (''link'', lk_meta l)) (rc_links c) @
     map (\<lambda>n. (''node'', nd_meta n)) (rc_nodes c)"

definition child_name :: "string \<times> object_meta \<Rightarrow> string" where
  "child_name child = fst child @ ''/'' @ meta_name (snd child)"

text \<open>The metadata lists of the API reader by kind; a kind that renders nothing is not listed.\<close>

definition list_inventory :: "(string \<Rightarrow> api_error + object_meta list) \<Rightarrow> string \<Rightarrow> nat
    \<Rightarrow> api_error + (string, object_meta) gomap \<Rightarrow> api_error + (string, object_meta) gomap" where
  "list_inventory lister kind renderedCount existing =
     (case existing of
        Inl e \<Rightarrow> Inl e
      | Inr m \<Rightarrow>
          if renderedCount = 0 then Inr m
          else case lister kind of
                 Inl e \<Rightarrow> Inl e
               | Inr objects \<Rightarrow> Inr (foldl (\<lambda>m obj. AList.update (child_name (kind, obj)) obj m) m objects))"

fun child_conflicts :: "topology \<Rightarrow> (string, object_meta) gomap \<Rightarrow> (string \<times> object_meta) list \<Rightarrow> string list \<Rightarrow> string list" where
  "child_conflicts topology existing [] seen = []"
| "child_conflicts topology existing (child # children) seen =
     (let name = child_name child in
      if name \<in> set seen then name # child_conflicts topology existing children seen
      else (case map_of existing name of
              None \<Rightarrow> []
            | Some obj \<Rightarrow> if generatedForTopology obj topology then [] else [name]) @
           child_conflicts topology existing children (name # seen))"

definition findChildResourceConflicts :: "(string \<Rightarrow> api_error + object_meta list) \<Rightarrow> topology \<Rightarrow> renderedChildren
    \<Rightarrow> api_error + string list" where
  "findChildResourceConflicts lister topology rendered =
     (case list_inventory lister ''node'' (length (rc_nodes rendered))
             (list_inventory lister ''link'' (length (rc_links rendered))
               (list_inventory lister ''nodeprofile'' (length (rc_profiles rendered)) (Inr []))) of
        Inl e \<Rightarrow> Inl e
      | Inr existing \<Rightarrow> Inr (sort (remdups (child_conflicts topology existing (all_children rendered) []))))"


section \<open>The contract of an emitted kind\<close>

text \<open>
  What the API server and \<open>SetControllerReference\<close> leave alone: the fields of the metadata that
  decide ownership and conformance.
\<close>

definition same_emitted_meta :: "object_meta \<Rightarrow> object_meta \<Rightarrow> bool" where
  "same_emitted_meta a b \<longleftrightarrow> meta_name a = meta_name b \<and> meta_labels a = meta_labels b \<and>
     meta_annotations a = meta_annotations b \<and> meta_owners a = meta_owners b"

lemma same_emitted_meta_generated: "same_emitted_meta a b \<Longrightarrow> generatedForTopology a t = generatedForTopology b t"
  by (simp add: same_emitted_meta_def generatedForTopology_def ownedBy_def)

lemma same_emitted_meta_conforms: "same_emitted_meta a b \<Longrightarrow> meta_conforms a r = meta_conforms b r"
  by (simp add: same_emitted_meta_def meta_conforms_def ownerReferencesConform_def)

text \<open>The object an update sends, and the object \<open>SetControllerReference\<close> prepares.\<close>

definition updated_object :: "'o emitted_kind \<Rightarrow> 'o \<Rightarrow> 'o \<Rightarrow> 'o" where
  "updated_object kind ex r =
     (let carried = ek_carry_over kind ex r in
      ek_with_meta kind ((ek_meta kind carried)\<lparr> meta_resource_version := meta_resource_version (ek_meta kind ex) \<rparr>) carried)"

definition prepare :: "'o emit_api \<Rightarrow> 'o emitted_kind \<Rightarrow> topology \<Rightarrow> 'o \<Rightarrow> 'o" where
  "prepare api kind topology r =
     (case ea_set_controller api topology (ek_meta kind r) of Inl e \<Rightarrow> r | Inr m \<Rightarrow> ek_with_meta kind m r)"

text \<open>
  \<open>SetControllerReference\<close> adds an owner reference to the Topology and changes nothing else.
\<close>

definition sets_controller :: "'o emit_api \<Rightarrow> bool" where
  "sets_controller api \<longleftrightarrow> (\<forall>t m m'. ea_set_controller api t m = Inr m' \<longrightarrow>
     meta_name m' = meta_name m \<and> meta_labels m' = meta_labels m \<and> meta_annotations m' = meta_annotations m \<and>
     ownedBy m' t)"

text \<open>The effect of the accepted calls on the stored objects, by name; \<open>stored\<close> is what the server keeps.\<close>

fun call_object :: "'o emitted_call \<Rightarrow> 'o" where
  "call_object (CallCreate obj) = obj"
| "call_object (CallUpdate obj) = obj"
| "call_object (CallDelete obj) = obj"

fun apply_call :: "('o \<Rightarrow> object_meta) \<Rightarrow> ('o \<Rightarrow> 'o) \<Rightarrow> 'o emitted_call \<Rightarrow> (string, 'o) gomap \<Rightarrow> (string, 'o) gomap" where
  "apply_call meta stored (CallCreate obj) m = AList.update (meta_name (meta obj)) (stored obj) m"
| "apply_call meta stored (CallUpdate obj) m = AList.update (meta_name (meta obj)) (stored obj) m"
| "apply_call meta stored (CallDelete obj) m = AList.delete (meta_name (meta obj)) m"

definition emit_call :: "'o emitted_kind \<Rightarrow> (string, 'o) gomap \<Rightarrow> 'o \<Rightarrow> 'o emitted_call list" where
  "emit_call kind existing r =
     (case map_of existing (meta_name (ek_meta kind r)) of
        None \<Rightarrow> [CallCreate r]
      | Some ex \<Rightarrow> if ek_conforms kind ex r then [] else [CallUpdate (updated_object kind ex r)])"

lemma emit_rendered_calls:
  assumes "emit_rendered api kind topology rendered existing calls = (None, existing', calls')"
    and "distinct (map (\<lambda>r. meta_name (ek_meta kind (prepare api kind topology r))) rendered)"
  shows "calls' = calls @ concat (map (\<lambda>r. emit_call kind existing (prepare api kind topology r)) rendered) \<and>
    existing' = filter (\<lambda>(k, obj). k \<notin> (\<lambda>r. meta_name (ek_meta kind (prepare api kind topology r))) ` set rendered) existing"
  using assms
proof (induction rendered arbitrary: existing calls)
  case (Cons r rendered)
  from Cons.prems(1) obtain m where m: "ea_set_controller api topology (ek_meta kind r) = Inr m"
    by (auto split: sum.splits)
  then have p: "prepare api kind topology r = ek_with_meta kind m r" by (simp add: prepare_def)
  let ?p = "prepare api kind topology" and ?name = "\<lambda>r. meta_name (ek_meta kind (prepare api kind topology r))"
  have other: "emit_call kind (AList.delete (?name r) existing) (?p x) = emit_call kind existing (?p x)"
    if "x \<in> set rendered" for x
    using distinct_key_other [OF Cons.prems(2) that] by (simp add: emit_call_def)
  show ?case
  proof (cases "map_of existing (?name r)")
    case None
    with Cons.prems(1) m p have "emit_rendered api kind topology rendered existing (calls @ [CallCreate (?p r)]) = (None, existing', calls')"
      by (auto simp: Let_def split: option.splits)
    note IH = Cons.IH [OF this]
    have one: "emit_call kind existing (?p r) = [CallCreate (?p r)]" using None by (simp add: emit_call_def)
    have "filter (\<lambda>(k, obj). k \<notin> ?name ` set rendered) existing = filter (\<lambda>(k, obj). k \<notin> ?name ` set (r # rendered)) existing"
      using None by (intro filter_cong refl) (force simp: map_of_eq_None_iff)
    with IH Cons.prems(2) one show ?thesis by simp
  next
    case (Some ex)
    let ?e = "AList.delete (?name r) existing"
    have step: "emit_rendered api kind topology rendered ?e (calls @ emit_call kind existing (?p r)) = (None, existing', calls')"
      using Cons.prems(1) m p Some
      by (auto simp: Let_def emit_call_def updated_object_def split: option.splits if_splits)
    from Cons.IH [OF step] Cons.prems(2) have
      "calls' = calls @ emit_call kind existing (?p r) @ concat (map (\<lambda>r. emit_call kind ?e (?p r)) rendered)"
      "existing' = filter (\<lambda>(k, obj). k \<notin> ?name ` set rendered) ?e" by auto
    moreover have "map (\<lambda>r. emit_call kind ?e (?p r)) rendered = map (\<lambda>r. emit_call kind existing (?p r)) rendered"
      using other by (intro map_cong) auto
    moreover have "filter (\<lambda>(k, obj). k \<notin> ?name ` set rendered) ?e = filter (\<lambda>(k, obj). k \<notin> ?name ` set (r # rendered)) existing"
      unfolding AList.delete_eq filter_filter by (intro filter_cong) auto
    ultimately show ?thesis by simp
  qed
qed simp

lemma prune_emitted_calls:
  "prune_emitted api extra calls = (None, calls') \<Longrightarrow> calls' = calls @ map CallDelete extra"
proof (induction extra arbitrary: calls)
  case (Cons obj extra)
  then have "prune_emitted api extra (calls @ [CallDelete obj]) = (None, calls')"
    by (auto split: option.splits if_splits)
  from Cons.IH [OF this] show ?case by simp
qed simp

lemma reconcileEmitted_calls:
  assumes "reconcileEmitted api kind topology rendered existing = (None, calls)"
    and "distinct (map (\<lambda>r. meta_name (ek_meta kind (prepare api kind topology r))) rendered)"
  shows "calls = concat (map (\<lambda>r. emit_call kind existing (prepare api kind topology r)) rendered) @
    map (\<lambda>(k, obj). CallDelete obj)
      (filter (\<lambda>(k, obj). k \<notin> (\<lambda>r. meta_name (ek_meta kind (prepare api kind topology r))) ` set rendered) existing)"
proof -
  obtain existing' calls1 where e: "emit_rendered api kind topology rendered existing [] = (None, existing', calls1)"
    "prune_emitted api (map snd existing') calls1 = (None, calls)"
    using assms(1) by (auto simp: reconcileEmitted_def split: prod.splits option.splits)
  from emit_rendered_calls [OF e(1) assms(2)] prune_emitted_calls [OF e(2)] show ?thesis
    by (simp add: split_def comp_def)
qed

text \<open>Calls on distinct names act independently.\<close>

lemma apply_calls_lookup:
  assumes "distinct (map (\<lambda>c. meta_name (meta (call_object c))) calls)"
  shows "map_of (fold (apply_call meta stored) calls m) k =
    (case List.find (\<lambda>c. meta_name (meta (call_object c)) = k) calls of
       None \<Rightarrow> map_of m k
     | Some c \<Rightarrow> (case c of CallDelete obj \<Rightarrow> None | CallCreate obj \<Rightarrow> Some (stored obj) | CallUpdate obj \<Rightarrow> Some (stored obj)))"
  using assms
proof (induction calls arbitrary: m)
  case (Cons c calls)
  let ?name = "meta_name (meta (call_object c))"
  have "map_of (fold (apply_call meta stored) calls (apply_call meta stored c m)) k =
      (case List.find (\<lambda>c. meta_name (meta (call_object c)) = k) calls of
         None \<Rightarrow> map_of (apply_call meta stored c m) k
       | Some c \<Rightarrow> (case c of CallDelete obj \<Rightarrow> None | CallCreate obj \<Rightarrow> Some (stored obj) | CallUpdate obj \<Rightarrow> Some (stored obj)))"
    using Cons by simp
  moreover have "List.find (\<lambda>c. meta_name (meta (call_object c)) = k) calls = None" if "?name = k"
    using distinct_key_other [OF Cons.prems] that by (auto simp: find_None_iff)
  ultimately show ?case by (cases c) (auto split: option.split)
qed simp

lemma emit_rendered_controllers:
  assumes "emit_rendered api kind topology rendered existing calls = (None, existing', calls')" "r \<in> set rendered"
  shows "\<exists>m. ea_set_controller api topology (ek_meta kind r) = Inr m"
  using assms
proof (induction rendered arbitrary: existing calls)
  case (Cons x rendered)
  from Cons.prems(1) obtain m where m: "ea_set_controller api topology (ek_meta kind x) = Inr m"
    by (auto split: sum.splits)
  from Cons.prems(1) m have "\<exists>e c. emit_rendered api kind topology rendered e c = (None, existing', calls')"
    by (auto simp: Let_def split: option.splits if_splits)
  with Cons.IH Cons.prems(2) m show ?case by auto
qed simp

lemma find_call:
  assumes "distinct (map f calls)" "c \<in> set calls"
  shows "List.find (\<lambda>x. f x = f c) calls = Some c"
  using assms
proof (induction calls)
  case (Cons x calls)
  show ?case
  proof (cases "c = x")
    case False
    with Cons.prems(2) have "c \<in> set calls" by simp
    with Cons distinct_key_other [OF Cons.prems(1) this] show ?thesis by auto
  qed simp
qed simp

lemma find_no_call: "(\<And>c. c \<in> set calls \<Longrightarrow> f c \<noteq> k) \<Longrightarrow> List.find (\<lambda>x. f x = k) calls = None"
  by (auto simp: find_None_iff)

text \<open>The generated objects among the stored ones, by name.\<close>

definition generated_part :: "('o \<Rightarrow> object_meta) \<Rightarrow> topology \<Rightarrow> (string, 'o) gomap \<Rightarrow> (string, 'o) gomap \<Rightarrow> bool" where
  "generated_part meta t m existing \<longleftrightarrow> distinct (map fst existing) \<and>
     (\<forall>k obj. map_of m k = Some obj \<longrightarrow> meta_name (meta obj) = k) \<and>
     (\<forall>k. map_of existing k =
        Option.bind (map_of m k) (\<lambda>obj. if generatedForTopology (meta obj) t then Some obj else None))"

lemma generated_part_lookup:
  assumes "generated_part meta t m existing"
  shows "map_of existing k = Some obj \<longleftrightarrow> map_of m k = Some obj \<and> generatedForTopology (meta obj) t"
  using assms by (auto simp: generated_part_def bind_eq_Some_conv split: if_splits)

lemma generated_part_name:
  "generated_part meta t m existing \<Longrightarrow> map_of m k = Some obj \<Longrightarrow> meta_name (meta obj) = k"
  by (simp add: generated_part_def)

text \<open>The server keeps the content and the emitted metadata of what it is sent.\<close>

definition faithful_store :: "'o emitted_kind \<Rightarrow> ('o \<Rightarrow> 'c) \<Rightarrow> ('o \<Rightarrow> 'o) \<Rightarrow> bool" where
  "faithful_store kind content stored \<longleftrightarrow>
     (\<forall>obj. content (stored obj) = content obj \<and> same_emitted_meta (ek_meta kind (stored obj)) (ek_meta kind obj))"

text \<open>A pass without error over rendered objects of distinct names, and the store it starts from.\<close>

definition clean_pass :: "'o emit_api \<Rightarrow> 'o emitted_kind \<Rightarrow> ('o \<Rightarrow> 'c) \<Rightarrow> ('o \<Rightarrow> 'o) \<Rightarrow> topology \<Rightarrow> 'o list
    \<Rightarrow> (string, 'o) gomap \<Rightarrow> (string, 'o) gomap \<Rightarrow> 'o emitted_call list \<Rightarrow> bool" where
  "clean_pass api kind content stored t rendered m existing calls \<longleftrightarrow>
     reconcileEmitted api kind t rendered existing = (None, calls) \<and>
     distinct (map (\<lambda>r. meta_name (ek_meta kind r)) rendered) \<and> sets_controller api \<and>
     faithful_store kind content stored \<and> generated_part (ek_meta kind) t m existing"

text \<open>
  The laws of a kind: metadata can be replaced, conformance depends on the content and the emitted
  metadata, a renderable object conforms to itself, and so does what an update makes of it.
\<close>

locale emitted_objects =
  fixes kind :: "'o emitted_kind" and content :: "'o \<Rightarrow> 'c" and renderable :: "'o \<Rightarrow> bool"
  assumes meta_with_meta: "ek_meta kind (ek_with_meta kind m obj) = m"
    and content_with_meta: "content (ek_with_meta kind m obj) = content obj"
    and conforms_content: "content a = content b \<Longrightarrow> same_emitted_meta (ek_meta kind a) (ek_meta kind b) \<Longrightarrow>
      ek_conforms kind a r = ek_conforms kind b r"
    and conforms_self: "renderable r \<Longrightarrow> ek_conforms kind r r"
    and conforms_carried: "renderable r \<Longrightarrow> ek_conforms kind (ek_carry_over kind ex r) r"
    and carry_meta: "meta_name (ek_meta kind (ek_carry_over kind ex r)) = meta_name (ek_meta kind r)"
      "meta_labels (ek_meta kind (ek_carry_over kind ex r)) = meta_labels (ek_meta kind r)"
      "meta_owners (ek_meta kind (ek_carry_over kind ex r)) = meta_owners (ek_meta kind r)"
    and renderable_prepared: "renderable r \<Longrightarrow> meta_annotations m = meta_annotations (ek_meta kind r) \<Longrightarrow>
      renderable (ek_with_meta kind m r)"
begin

lemma updated_meta:
  "meta_name (ek_meta kind (updated_object kind ex r)) = meta_name (ek_meta kind r)"
  "same_emitted_meta (ek_meta kind (updated_object kind ex r)) (ek_meta kind (ek_carry_over kind ex r))"
  "content (updated_object kind ex r) = content (ek_carry_over kind ex r)"
  by (simp_all add: updated_object_def Let_def meta_with_meta carry_meta same_emitted_meta_def content_with_meta)

lemma updated_conforms: "renderable r \<Longrightarrow> ek_conforms kind (updated_object kind ex r) r"
  using conforms_content [OF updated_meta(3,2)] conforms_carried by blast

lemma updated_generated:
  "generatedForTopology (ek_meta kind (updated_object kind ex r)) t = generatedForTopology (ek_meta kind r) t"
  using same_emitted_meta_generated [OF updated_meta(2)]
  by (simp add: generatedForTopology_def ownedBy_def carry_meta)

lemma stored_conforms:
  assumes "faithful_store kind content stored"
  shows "ek_conforms kind (stored obj) r = ek_conforms kind obj r"
    "generatedForTopology (ek_meta kind (stored obj)) t = generatedForTopology (ek_meta kind obj) t"
    "meta_name (ek_meta kind (stored obj)) = meta_name (ek_meta kind obj)"
proof -
  have s: "content (stored obj) = content obj" "same_emitted_meta (ek_meta kind (stored obj)) (ek_meta kind obj)"
    using assms by (simp_all add: faithful_store_def)
  show "ek_conforms kind (stored obj) r = ek_conforms kind obj r" by (rule conforms_content [OF s])
  show "generatedForTopology (ek_meta kind (stored obj)) t = generatedForTopology (ek_meta kind obj) t"
    by (rule same_emitted_meta_generated [OF s(2)])
  show "meta_name (ek_meta kind (stored obj)) = meta_name (ek_meta kind obj)" using s(2) by (simp add: same_emitted_meta_def)
qed

lemma prepare_facts:
  assumes "sets_controller api" "ea_set_controller api t (ek_meta kind r) = Inr m"
  shows "meta_name (ek_meta kind (prepare api kind t r)) = meta_name (ek_meta kind r)"
    "generatedForTopology (ek_meta kind (prepare api kind t r)) t"
    "renderable r \<Longrightarrow> renderable (prepare api kind t r)"
    "meta_annotations (ek_meta kind (prepare api kind t r)) = meta_annotations (ek_meta kind r)"
  using assms by (simp_all add: prepare_def sets_controller_def meta_with_meta generatedForTopology_def renderable_prepared)

lemma emit_call_name:
  "c \<in> set (emit_call kind existing r) \<Longrightarrow> meta_name (ek_meta kind (call_object c)) = meta_name (ek_meta kind r)"
  "length (emit_call kind existing r) \<le> 1"
  by (auto simp: emit_call_def updated_meta split: option.splits if_splits)

lemma emit_calls_distinct:
  assumes "distinct (map (\<lambda>r. meta_name (ek_meta kind r)) rs)"
  shows "distinct (map (\<lambda>c. meta_name (ek_meta kind (call_object c))) (concat (map (emit_call kind existing) rs)))"
  using assms
proof (induction rs)
  case (Cons r rs)
  have "distinct (map (\<lambda>c. meta_name (ek_meta kind (call_object c))) (emit_call kind existing r))"
    using emit_call_name(2) [of existing r] by (cases "emit_call kind existing r") auto
  moreover have "meta_name (ek_meta kind (call_object c)) \<noteq> meta_name (ek_meta kind (call_object d))"
    if c: "c \<in> set (emit_call kind existing r)" and d: "d \<in> set (concat (map (emit_call kind existing) rs))" for c d
  proof -
    from d obtain x where "x \<in> set rs" "d \<in> set (emit_call kind existing x)" by auto
    with distinct_key_other [OF Cons.prems] emit_call_name(1) [OF c] emit_call_name(1) show ?thesis by metis
  qed
  ultimately show ?case using Cons by fastforce
qed simp

text \<open>What a pass without error sends, and what it leaves in the store.\<close>

lemma pass_prepared:
  assumes "clean_pass api kind content stored t rendered m existing calls" "r \<in> set rendered"
  shows "meta_name (ek_meta kind (prepare api kind t r)) = meta_name (ek_meta kind r)"
    "generatedForTopology (ek_meta kind (prepare api kind t r)) t"
    "renderable r \<Longrightarrow> renderable (prepare api kind t r)"
proof -
  obtain e' c' where emit: "emit_rendered api kind t rendered existing [] = (None, e', c')"
    using assms(1) by (auto simp: clean_pass_def reconcileEmitted_def split: prod.splits option.splits)
  obtain m where m: "ea_set_controller api t (ek_meta kind r) = Inr m" using emit_rendered_controllers [OF emit assms(2)] by blast
  have "sets_controller api" using assms(1) by (simp add: clean_pass_def)
  note p = prepare_facts [OF this m]
  show "meta_name (ek_meta kind (prepare api kind t r)) = meta_name (ek_meta kind r)"
    "generatedForTopology (ek_meta kind (prepare api kind t r)) t" by (rule p)+
  show "renderable r \<Longrightarrow> renderable (prepare api kind t r)" by (rule p)
qed

lemma pass_existing:
  assumes "clean_pass api kind content stored t rendered m existing calls" "(k, obj) \<in> set existing"
  shows "meta_name (ek_meta kind obj) = k" "generatedForTopology (ek_meta kind obj) t" "map_of m k = Some obj"
proof -
  have part: "generated_part (ek_meta kind) t m existing" using assms(1) by (simp add: clean_pass_def)
  then have "distinct (map fst existing)" by (simp add: generated_part_def)
  then have "map_of existing k = Some obj" using assms(2) by (rule map_of_is_SomeI)
  then show "generatedForTopology (ek_meta kind obj) t" "map_of m k = Some obj" using generated_part_lookup [OF part] by auto
  then show "meta_name (ek_meta kind obj) = k" using generated_part_name [OF part] by simp
qed

lemma pass_calls:
  assumes clean: "clean_pass api kind content stored t rendered m existing calls"
  defines "names \<equiv> (\<lambda>r. meta_name (ek_meta kind r)) ` set rendered"
  shows "calls = concat (map (emit_call kind existing) (map (prepare api kind t) rendered)) @
      map (\<lambda>(k, obj). CallDelete obj) (filter (\<lambda>(k, obj). k \<notin> names) existing)"
    and "distinct (map (\<lambda>c. meta_name (ek_meta kind (call_object c))) calls)"
    and "c \<in> set (concat (map (emit_call kind existing) (map (prepare api kind t) rendered))) \<Longrightarrow>
      meta_name (ek_meta kind (call_object c)) \<in> names"
proof -
  let ?p = "prepare api kind t" and ?n = "\<lambda>r. meta_name (ek_meta kind r)"
  let ?emits = "concat (map (emit_call kind existing) (map ?p rendered))"
  let ?extra = "filter (\<lambda>(k, obj). k \<notin> names) existing"
  from clean have run: "reconcileEmitted api kind t rendered existing = (None, calls)"
    and dist: "distinct (map ?n rendered)" and part: "generated_part (ek_meta kind) t m existing"
    by (simp_all add: clean_pass_def)
  note prep = pass_prepared [OF clean] and key = pass_existing [OF clean]
  have maps: "map (\<lambda>r. ?n (?p r)) rendered = map ?n rendered" "(\<lambda>r. ?n (?p r)) ` set rendered = names"
    using prep(1) by (auto simp: names_def intro: map_cong)
  show calls: "calls = ?emits @ map (\<lambda>(k, obj). CallDelete obj) ?extra"
    using reconcileEmitted_calls [OF run] dist unfolding maps by (simp add: comp_def)
  have emit_name: "?n (call_object c) \<in> names" if "c \<in> set ?emits" for c
    using that emit_call_name(1) prep(1) by (auto simp: names_def)
  then show "c \<in> set ?emits \<Longrightarrow> ?n (call_object c) \<in> names" .
  have dels: "map (\<lambda>c. ?n (call_object c)) (map (\<lambda>(k, obj). CallDelete obj) ?extra) = map fst ?extra"
    using key(1) by (auto intro!: map_cong)
  have dels_dist: "distinct (map fst ?extra)" using part by (simp add: generated_part_def distinct_map_filter)
  have "distinct (map ?n (map ?p rendered))" unfolding map_map comp_def maps(1) by (rule dist)
  then have emits_dist: "distinct (map (\<lambda>c. ?n (call_object c)) ?emits)" by (rule emit_calls_distinct)
  have "set (map (\<lambda>c. ?n (call_object c)) ?emits) \<subseteq> names" unfolding set_map using emit_name by blast
  moreover have "set (map fst ?extra) \<inter> names = {}" by auto
  ultimately have disj: "set (map (\<lambda>c. ?n (call_object c)) ?emits) \<inter> set (map fst ?extra) = {}" by blast
  show "distinct (map (\<lambda>c. ?n (call_object c)) calls)"
    unfolding calls map_append distinct_append dels using emits_dist dels_dist disj by blast
qed

lemma pass_no_call:
  assumes clean: "clean_pass api kind content stored t rendered m existing calls"
    and r: "r \<in> set rendered" "emit_call kind existing (prepare api kind t r) = []" and c: "c \<in> set calls"
  shows "meta_name (ek_meta kind (call_object c)) \<noteq> meta_name (ek_meta kind r)"
proof -
  let ?p = "prepare api kind t" and ?n = "\<lambda>r. meta_name (ek_meta kind r)"
  have names: "distinct (map ?n rendered)" using clean by (simp add: clean_pass_def)
  note calls = pass_calls [OF clean]
  show ?thesis
  proof (cases "c \<in> set (concat (map (emit_call kind existing) (map ?p rendered)))")
    case True
    then obtain x where x: "x \<in> set rendered" "c \<in> set (emit_call kind existing (?p x))" by auto
    with r have "x \<noteq> r" by auto
    with names x(1) r(1) have "?n x \<noteq> ?n r" by (auto simp: distinct_map dest: inj_onD)
    with emit_call_name(1) [OF x(2)] pass_prepared(1) [OF clean x(1)] show ?thesis by simp
  next
    case False
    with c obtain k obj where "(k, obj) \<in> set existing" "k \<notin> ?n ` set rendered" "c = CallDelete obj" unfolding calls(1) by auto
    with pass_existing(1) [OF clean] r show ?thesis by auto
  qed
qed

lemma pass_rendered:
  assumes clean: "clean_pass api kind content stored t rendered m existing calls"
    and r: "r \<in> set rendered" and rend: "renderable r"
  defines "m' \<equiv> fold (apply_call (ek_meta kind) stored) calls m"
    and "ex \<equiv> map_of existing (meta_name (ek_meta kind r))"
  shows "\<exists>obj. map_of m' (meta_name (ek_meta kind r)) = Some obj \<and>
      ek_conforms kind obj (prepare api kind t r) \<and> generatedForTopology (ek_meta kind obj) t \<and>
      (case ex of None \<Rightarrow> obj = stored (prepare api kind t r)
       | Some e \<Rightarrow> obj = e \<or> obj = stored (updated_object kind e (prepare api kind t r)))"
proof -
  let ?p = "prepare api kind t" and ?n = "\<lambda>r. meta_name (ek_meta kind r)"
  note calls = pass_calls [OF clean] and prep = pass_prepared [OF clean r]
  note look = apply_calls_lookup [OF calls(2), of stored m, folded m'_def]
  have store: "faithful_store kind content stored" and part: "generated_part (ek_meta kind) t m existing"
    using clean by (simp_all add: clean_pass_def)
  show ?thesis
  proof (cases "emit_call kind existing (?p r)")
    case Nil
    then obtain e where e: "ex = Some e" "ek_conforms kind e (?p r)"
      using prep(1) by (auto simp: emit_call_def ex_def split: option.splits if_splits)
    have "List.find (\<lambda>c. ?n (call_object c) = ?n r) calls = None" by (rule find_no_call) (rule pass_no_call [OF clean r Nil])
    then have "map_of m' (?n r) = map_of m (?n r)" unfolding look by simp
    moreover have "map_of m (?n r) = Some e" "generatedForTopology (ek_meta kind e) t"
      using e(1) generated_part_lookup [OF part, of "?n r" e] by (simp_all add: ex_def)
    ultimately show ?thesis using e by simp
  next
    case (Cons c cs)
    then have mem: "c \<in> set (emit_call kind existing (?p r))" by simp
    with r have "c \<in> set (concat (map (emit_call kind existing) (map ?p rendered)))" by (auto intro!: bexI [of _ r])
    then have c: "c \<in> set calls" "?n (call_object c) = ?n r"
      using emit_call_name(1) [OF mem] prep(1) by (simp_all add: calls(1))
    have "map_of m' (?n r) = (case c of CallDelete obj \<Rightarrow> None | CallCreate obj \<Rightarrow> Some (stored obj) | CallUpdate obj \<Rightarrow> Some (stored obj))"
      using find_call [OF calls(2) c(1)] unfolding look c(2) by simp
    with Cons prep stored_conforms [OF store] rend show ?thesis
      by (auto simp: ex_def emit_call_def updated_conforms updated_generated conforms_self split: option.splits if_splits)
  qed
qed

lemma pass_other:
  assumes clean: "clean_pass api kind content stored t rendered m existing calls"
    and k: "k \<notin> (\<lambda>r. meta_name (ek_meta kind r)) ` set rendered"
  shows "map_of (fold (apply_call (ek_meta kind) stored) calls m) k =
    Option.bind (map_of m k) (\<lambda>obj. if generatedForTopology (ek_meta kind obj) t then None else Some obj)"
proof -
  let ?n = "\<lambda>r. meta_name (ek_meta kind r)"
  note calls = pass_calls [OF clean] and key = pass_existing [OF clean]
  note look = apply_calls_lookup [OF calls(2), of stored m]
  have part: "generated_part (ek_meta kind) t m existing" using clean by (simp add: clean_pass_def)
  show ?thesis
  proof (cases "map_of existing k")
    case (Some obj)
    then have mem: "(k, obj) \<in> set existing" by (rule map_of_SomeD)
    then have c: "CallDelete obj \<in> set calls" using k unfolding calls(1) by force
    show ?thesis using find_call [OF calls(2) c] key [OF mem] unfolding look by simp
  next
    case None
    have none: "?n (call_object c) \<noteq> k" if c: "c \<in> set calls" for c
    proof (cases "c \<in> set (concat (map (emit_call kind existing) (map (prepare api kind t) rendered)))")
      case True
      with calls(3) k show ?thesis by metis
    next
      case False
      with c obtain k' obj where "(k', obj) \<in> set existing" "c = CallDelete obj" unfolding calls(1) by auto
      with key(1) None show ?thesis by (auto simp: map_of_eq_None_iff image_iff)
    qed
    have "List.find (\<lambda>c. ?n (call_object c) = k) calls = None" using none by (rule find_no_call)
    then have "map_of (fold (apply_call (ek_meta kind) stored) calls m) k = map_of m k" unfolding look by simp
    moreover have "\<not> generatedForTopology (ek_meta kind obj) t" if "map_of m k = Some obj" for obj
      using generated_part_lookup [OF part, of k obj] None that by auto
    ultimately show ?thesis by (cases "map_of m k") auto
  qed
qed

end

text \<open>A pass that finds every rendered object conforming, and no other generated object, sends nothing.\<close>

lemma emit_rendered_quiet:
  assumes "\<And>r. r \<in> set rendered \<Longrightarrow> \<exists>m. ea_set_controller api t (ek_meta kind r) = Inr m"
    and "\<And>r. r \<in> set rendered \<Longrightarrow> \<exists>obj. map_of existing (meta_name (ek_meta kind (prepare api kind t r))) = Some obj \<and>
      ek_conforms kind obj (prepare api kind t r)"
    and "distinct (map (\<lambda>r. meta_name (ek_meta kind (prepare api kind t r))) rendered)"
  shows "\<exists>existing'. emit_rendered api kind t rendered existing calls = (None, existing', calls) \<and>
    set existing' \<subseteq> {(k, obj) \<in> set existing. k \<notin> (\<lambda>r. meta_name (ek_meta kind (prepare api kind t r))) ` set rendered}"
  using assms
proof (induction rendered arbitrary: existing)
  case (Cons r rendered)
  let ?name = "\<lambda>r. meta_name (ek_meta kind (prepare api kind t r))"
  obtain m where m: "ea_set_controller api t (ek_meta kind r) = Inr m" using Cons.prems(1) [of r] by auto
  then have p: "prepare api kind t r = ek_with_meta kind m r" by (simp add: prepare_def)
  obtain obj where obj: "map_of existing (?name r) = Some obj" "ek_conforms kind obj (prepare api kind t r)"
    using Cons.prems(2) [of r] by auto
  have "\<exists>existing'. emit_rendered api kind t rendered (AList.delete (?name r) existing) calls = (None, existing', calls) \<and>
      set existing' \<subseteq> {(k, obj) \<in> set (AList.delete (?name r) existing). k \<notin> ?name ` set rendered}"
  proof (rule Cons.IH)
    fix x assume x: "x \<in> set rendered"
    show "\<exists>m. ea_set_controller api t (ek_meta kind x) = Inr m" using Cons.prems(1) x by simp
    show "\<exists>obj. map_of (AList.delete (?name r) existing) (?name x) = Some obj \<and> ek_conforms kind obj (prepare api kind t x)"
      using Cons.prems(2) [of x] x distinct_key_other [OF Cons.prems(3) x] by simp
  qed (use Cons.prems(3) in simp)
  then obtain existing' where "emit_rendered api kind t rendered (AList.delete (?name r) existing) calls = (None, existing', calls)"
    "set existing' \<subseteq> {(k, obj) \<in> set (AList.delete (?name r) existing). k \<notin> ?name ` set rendered}" by blast
  with m obj p show ?case by (auto simp: Let_def AList.delete_eq)
qed auto

lemma reconcileEmitted_quiet:
  assumes "\<And>r. r \<in> set rendered \<Longrightarrow> \<exists>m. ea_set_controller api t (ek_meta kind r) = Inr m"
    and "\<And>r. r \<in> set rendered \<Longrightarrow> \<exists>obj. map_of existing (meta_name (ek_meta kind (prepare api kind t r))) = Some obj \<and>
      ek_conforms kind obj (prepare api kind t r)"
    and "distinct (map (\<lambda>r. meta_name (ek_meta kind (prepare api kind t r))) rendered)"
    and "fst ` set existing \<subseteq> (\<lambda>r. meta_name (ek_meta kind (prepare api kind t r))) ` set rendered"
  shows "reconcileEmitted api kind t rendered existing = (None, [])"
proof -
  let ?names = "(\<lambda>r. meta_name (ek_meta kind (prepare api kind t r))) ` set rendered"
  obtain existing' where e: "emit_rendered api kind t rendered existing [] = (None, existing', [])"
    "set existing' \<subseteq> {(k, obj) \<in> set existing. k \<notin> ?names}"
    using emit_rendered_quiet [of rendered api t kind existing "[]", OF assms(1-3)] by blast
  have "existing' = []"
  proof (cases existing')
    case (Cons x xs)
    with e(2) have "x \<in> set existing" "fst x \<notin> ?names" by auto
    with assms(4) show ?thesis by blast
  qed simp
  with e(1) show ?thesis by (simp add: reconcileEmitted_def)
qed

text \<open>The stored objects of a pass are again a store by name.\<close>

definition named_store :: "('o \<Rightarrow> object_meta) \<Rightarrow> (string, 'o) gomap \<Rightarrow> bool" where
  "named_store meta m \<longleftrightarrow> distinct (map fst m) \<and> (\<forall>k obj. map_of m k = Some obj \<longrightarrow> meta_name (meta obj) = k)"

lemma named_store_update: "named_store meta m \<Longrightarrow> named_store meta (AList.update (meta_name (meta obj)) obj m)"
  unfolding named_store_def by (simp add: distinct_update)

lemma named_store_delete: "named_store meta m \<Longrightarrow> named_store meta (AList.delete k m)"
  unfolding named_store_def by (simp add: distinct_delete)

lemma apply_calls_named:
  assumes "named_store meta m" "\<And>obj. meta_name (meta (stored obj)) = meta_name (meta obj)"
  shows "named_store meta (fold (apply_call meta stored) calls m)"
  using assms(1)
proof (induction calls arbitrary: m)
  case (Cons c calls)
  have "named_store meta (apply_call meta stored c m)"
  proof (cases c)
    case (CallCreate obj)
    then show ?thesis using named_store_update [OF Cons.prems, of "stored obj"] assms(2) by simp
  next
    case (CallUpdate obj)
    then show ?thesis using named_store_update [OF Cons.prems, of "stored obj"] assms(2) by simp
  next
    case (CallDelete obj)
    then show ?thesis using named_store_delete [OF Cons.prems] by simp
  qed
  from Cons.IH [OF this] show ?case by simp
qed simp

lemma generated_objects_part:
  assumes "named_store meta m"
  shows "generated_part meta t m (generated_objects meta t (map snd m))"
proof -
  let ?step = "\<lambda>existing obj. if generatedForTopology (meta obj) t then AList.update (meta_name (meta obj)) obj existing else existing"
  have "distinct (map fst (foldl ?step e (map snd m))) \<and> (\<forall>k. map_of (foldl ?step e (map snd m)) k =
      (case map_of m k of None \<Rightarrow> map_of e k
       | Some obj \<Rightarrow> if generatedForTopology (meta obj) t then Some obj else map_of e k))" if "distinct (map fst e)" for e
    using assms that
  proof (induction m arbitrary: e)
    case (Cons x m)
    obtain k obj where x: "x = (k, obj)" by (cases x)
    have fresh: "map_of m k = None" and k: "meta_name (meta obj) = k"
      using Cons.prems(1) by (simp_all add: named_store_def x map_of_eq_None_iff)
    have "k \<notin> fst ` set m" using fresh by (simp add: map_of_eq_None_iff)
    then have "filter (\<lambda>(k', uu). k \<noteq> k') m = m" by (intro filter_True) force
    then have "m = AList.delete k (x # m)" by (simp add: x AList.delete_eq)
    then have m: "named_store meta m" using named_store_delete [OF Cons.prems(1), of k] by simp
    have e': "distinct (map fst (?step e obj))" using Cons.prems(2) by (simp add: distinct_update)
    show ?case using Cons.IH [OF m e'] fresh by (auto simp: x k split: option.split)
  qed simp
  from this [of "[]"] assms show ?thesis
    by (auto simp: generated_part_def generated_objects_def named_store_def split: option.splits)
qed

context emitted_objects
begin

text \<open>The generated objects a pass without error leaves all have rendered names.\<close>

lemma pass_left:
  assumes clean: "clean_pass api kind content stored t rendered m existing calls" and m: "named_store (ek_meta kind) m"
  defines "m' \<equiv> fold (apply_call (ek_meta kind) stored) calls m"
  shows "generated_part (ek_meta kind) t m' (generated_objects (ek_meta kind) t (map snd m'))"
    and "fst ` set (generated_objects (ek_meta kind) t (map snd m')) \<subseteq> (\<lambda>r. meta_name (ek_meta kind r)) ` set rendered"
proof -
  have "faithful_store kind content stored" using clean by (simp add: clean_pass_def)
  then have "named_store (ek_meta kind) m'" unfolding m'_def using apply_calls_named [OF m] stored_conforms(3) by blast
  then show part: "generated_part (ek_meta kind) t m' (generated_objects (ek_meta kind) t (map snd m'))"
    by (rule generated_objects_part)
  show "fst ` set (generated_objects (ek_meta kind) t (map snd m')) \<subseteq> (\<lambda>r. meta_name (ek_meta kind r)) ` set rendered"
  proof
    fix k assume "k \<in> fst ` set (generated_objects (ek_meta kind) t (map snd m'))"
    then obtain obj where "map_of (generated_objects (ek_meta kind) t (map snd m')) k = Some obj"
      by (metis map_of_eq_None_iff not_None_eq)
    then have "map_of m' k = Some obj" "generatedForTopology (ek_meta kind obj) t" using generated_part_lookup [OF part] by auto
    then show "k \<in> (\<lambda>r. meta_name (ek_meta kind r)) ` set rendered"
      using pass_other [OF clean, of k, folded m'_def]
      by (cases "k \<in> (\<lambda>r. meta_name (ek_meta kind r)) ` set rendered") (auto simp: bind_eq_Some_conv dest!: sym [of "Some obj"] split: if_splits)
  qed
qed

end

section \<open>The emitted kinds\<close>

lemma contains_expected_iff: "contains_expected existing expected \<longleftrightarrow> set expected \<subseteq> set existing"
  by (auto simp: contains_expected_def)

lemma meta_conforms_refl: "meta_conforms m m"
  by (simp add: meta_conforms_def ownerReferencesConform_def contains_expected_iff)

text \<open>A Node is rendered without the operational annotations, which only an operator sets.\<close>

definition plain_node :: "node \<Rightarrow> bool" where
  "plain_node n \<longleftrightarrow> distinct (map fst (nd_annotations n)) \<and>
     (\<forall>key \<in> set operationalNodeAnnotations. key \<notin> fst ` set (nd_annotations n))"

lemma update_fresh: "key \<notin> fst ` set m \<Longrightarrow> AList.update key value m = m @ [(key, value)]"
  by (induction m) auto

lemma carry_annotation_fields:
  "meta_name (carry_annotation a m key) = meta_name m" "meta_labels (carry_annotation a m key) = meta_labels m"
  "meta_owners (carry_annotation a m key) = meta_owners m"
  "key \<notin> fst ` set (meta_annotations m) \<Longrightarrow> set (meta_annotations m) \<subseteq> set (meta_annotations (carry_annotation a m key))"
  "fst ` set (meta_annotations (carry_annotation a m key)) \<subseteq> insert key (fst ` set (meta_annotations m))"
  "k \<noteq> key \<Longrightarrow> map_of (meta_annotations (carry_annotation a m key)) k = map_of (meta_annotations m) k"
  by (simp_all add: carry_annotation_def update_fresh dom_update subset_insertI split: option.splits)

lemma carryOverNode_meta:
  "meta_name (nd_meta (carryOverNode ex r)) = meta_name (nd_meta r)"
  "meta_labels (nd_meta (carryOverNode ex r)) = meta_labels (nd_meta r)"
  "meta_owners (nd_meta (carryOverNode ex r)) = meta_owners (nd_meta r)"
  "k \<notin> set operationalNodeAnnotations \<Longrightarrow> map_of (nd_annotations (carryOverNode ex r)) k = map_of (nd_annotations r) k"
  by (simp_all add: carryOverNode_def operationalNodeAnnotations_def carry_annotation_fields)

lemma carryOverNode_annotations:
  assumes "plain_node r"
  shows "set (nd_annotations r) \<subseteq> set (nd_annotations (carryOverNode ex r))"
proof -
  let ?m = "carry_annotation (nd_annotations ex) (nd_meta r) RestartRequestedAnnotation"
  have fresh: "RestartRequestedAnnotation \<notin> fst ` set (nd_annotations r)" "DeviceStateResetAnnotation \<notin> fst ` set (nd_annotations r)"
    using assms by (simp_all add: plain_node_def operationalNodeAnnotations_def)
  have "DeviceStateResetAnnotation \<noteq> RestartRequestedAnnotation"
    by (simp add: DeviceStateResetAnnotation_def RestartRequestedAnnotation_def)
  then have "DeviceStateResetAnnotation \<notin> fst ` set (meta_annotations ?m)"
    using fresh(2) carry_annotation_fields(5) [of "nd_annotations ex" "nd_meta r" RestartRequestedAnnotation] by blast
  from carry_annotation_fields(4) [OF this] carry_annotation_fields(4) [OF fresh(1)]
  have "set (nd_annotations r) \<subseteq> set (meta_annotations (carry_annotation (nd_annotations ex) ?m DeviceStateResetAnnotation))" by blast
  then show ?thesis by (simp add: carryOverNode_def operationalNodeAnnotations_def)
qed

interpretation nodes: emitted_objects node_kind nd_spec plain_node
proof (unfold_locales, goal_cases)
  case (3 a b r)
  then show ?case
    by (simp add: node_kind_def emittedNodeConforms_def node_object_conforms_def same_emitted_meta_conforms [of "nd_meta a" "nd_meta b"])
next
  case (4 r)
  show ?case
    by (simp add: node_kind_def emittedNodeConforms_def node_object_conforms_def specConforms_def meta_conforms_refl)
next
  case (5 r ex)
  then show ?case using carryOverNode_annotations [of r ex]
    by (simp add: node_kind_def emittedNodeConforms_def node_object_conforms_def specConforms_def meta_conforms_def
        ownerReferencesConform_def contains_expected_iff carryOverNode_meta)
      (simp add: carryOverNode_def)
qed (simp_all add: node_kind_def carryOverNode_meta plain_node_def)

interpretation links: emitted_objects link_kind lk_spec "\<lambda>l. True"
  by unfold_locales
    (auto simp: link_kind_def emittedLinkConforms_def specConforms_def meta_conforms_refl carryOverLink_def same_emitted_meta_conforms)

interpretation profiles: emitted_objects profile_kind np_spec "\<lambda>p. True"
  by unfold_locales
    (auto simp: profile_kind_def emittedProfileConforms_def specConforms_def meta_conforms_refl carryOverProfile_def same_emitted_meta_conforms)


section \<open>The pass over the Nodes\<close>

text \<open>The startup annotation a stamped Node carries under a key.\<close>

definition startup_value :: "topology \<Rightarrow> node option \<Rightarrow> string \<Rightarrow> string option" where
  "startup_value t existing key =
     (case existing of
        Some current \<Rightarrow> if gm_str (nd_annotations current) key \<noteq> '''' then Some (gm_str (nd_annotations current) key) else None
      | None \<Rightarrow> if key = AnnotationStartupHold \<and> startupBatchSize t > 0 then Some (tp_uid t) else None)"

lemma startup_keys:
  "AnnotationStartupHold \<noteq> AnnotationStartupAdmitted" "AnnotationStartupHold \<notin> set operationalNodeAnnotations"
  "AnnotationStartupAdmitted \<notin> set operationalNodeAnnotations"
  by (simp_all add: AnnotationStartupHold_def AnnotationStartupAdmitted_def operationalNodeAnnotations_def
      RestartRequestedAnnotation_def DeviceStateResetAnnotation_def)

lemma keep_annotation_fields [simp]:
  "meta_name (keep_annotation key c m) = meta_name m" "meta_labels (keep_annotation key c m) = meta_labels m"
  "meta_owners (keep_annotation key c m) = meta_owners m" "meta_namespace (keep_annotation key c m) = meta_namespace m"
  "distinct (map fst (meta_annotations m)) \<Longrightarrow> distinct (map fst (meta_annotations (keep_annotation key c m)))"
  "map_of (meta_annotations (keep_annotation key c m)) k =
     (if k = key \<and> gm_str (nd_annotations c) key \<noteq> '''' then Some (gm_str (nd_annotations c) key) else map_of (meta_annotations m) k)"
  by (simp_all add: keep_annotation_def distinct_update)

lemma stamp_startup_fields [simp]:
  "nd_name (stamp_startup t ex n) = nd_name n" "nd_spec (stamp_startup t ex n) = nd_spec n"
  "meta_labels (nd_meta (stamp_startup t ex n)) = meta_labels (nd_meta n)"
  "meta_owners (nd_meta (stamp_startup t ex n)) = meta_owners (nd_meta n)"
  "nd_namespace (stamp_startup t ex n) = nd_namespace n"
  by (simp_all add: stamp_startup_def Let_def split: option.split)

lemma stamp_startup_lookup:
  "map_of (nd_annotations (stamp_startup t ex n)) k =
     (if k = AnnotationStartupHold \<or> k = AnnotationStartupAdmitted then startup_value t (map_of ex (nd_name n)) k
      else map_of (nd_annotations n) k)"
  using startup_keys(1)
  by (auto simp: stamp_startup_def Let_def startup_value_def split: option.split)

lemma stamp_startup_distinct:
  "distinct (map fst (nd_annotations n)) \<Longrightarrow> distinct (map fst (nd_annotations (stamp_startup t ex n)))"
  by (simp add: stamp_startup_def Let_def distinct_update distinct_delete split: option.split)

lemma stamp_startup_plain: "plain_node n \<Longrightarrow> plain_node (stamp_startup t ex n)"
  using startup_keys stamp_startup_distinct [of n t ex] stamp_startup_lookup [of t ex n]
  unfolding plain_node_def map_of_eq_None_iff [symmetric] by auto

text \<open>The stored objects by name, and the list of them after a pass.\<close>

definition by_name :: "('o \<Rightarrow> object_meta) \<Rightarrow> 'o list \<Rightarrow> (string, 'o) gomap" where
  "by_name meta listed = map (\<lambda>obj. (meta_name (meta obj), obj)) listed"

definition after_pass :: "('o \<Rightarrow> object_meta) \<Rightarrow> ('o \<Rightarrow> 'o) \<Rightarrow> 'o emitted_call list \<Rightarrow> 'o list \<Rightarrow> (string, 'o) gomap" where
  "after_pass meta stored calls listed = fold (apply_call meta stored) calls (by_name meta listed)"

lemma by_name_store:
  assumes "distinct (map (\<lambda>obj. meta_name (meta obj)) listed)"
  shows "named_store meta (by_name meta listed)" "map snd (by_name meta listed) = listed"
  using assms by (auto simp: named_store_def by_name_def comp_def dest: map_of_SomeD)

text \<open>The hypotheses of a pass over the Nodes of one Topology.\<close>

definition node_pass :: "node emit_api \<Rightarrow> (node \<Rightarrow> node) \<Rightarrow> topology \<Rightarrow> node list \<Rightarrow> node list \<Rightarrow> node emitted_call list \<Rightarrow> bool" where
  "node_pass api stored t listed rendered calls \<longleftrightarrow>
     reconcileNodes api t (Inr listed) rendered = (None, calls) \<and> distinct (map nd_name listed) \<and> distinct (map nd_name rendered) \<and>
     sets_controller api \<and> faithful_store node_kind nd_spec stored \<and> list_all plain_node rendered"

lemma node_pass_clean:
  assumes "node_pass api stored t listed rendered calls"
  shows "clean_pass api node_kind nd_spec stored t
    (map (stamp_startup t (generated_objects nd_meta t listed)) rendered) (by_name nd_meta listed)
    (generated_objects nd_meta t listed) calls"
proof -
  have "distinct (map nd_name listed)" using assms by (simp add: node_pass_def)
  note store = by_name_store [OF this]
  have "generated_part nd_meta t (by_name nd_meta listed) (generated_objects nd_meta t listed)"
    using generated_objects_part [OF store(1), of t] store(2) by simp
  with assms show ?thesis by (simp add: node_pass_def clean_pass_def reconcileNodes_def Let_def node_kind_def comp_def)
qed


lemma node_kind_fields:
  "ek_meta node_kind = nd_meta" "ek_with_meta node_kind m n = n\<lparr> nd_meta := m \<rparr>"
  "ek_conforms node_kind = emittedNodeConforms" "ek_carry_over node_kind = carryOverNode"
  by (simp_all add: node_kind_def)

lemma node_pass_rendered:
  assumes pass: "node_pass api stored t listed rendered calls" and r: "r \<in> set rendered"
  defines "existing \<equiv> generated_objects nd_meta t listed"
  defines "p \<equiv> prepare api node_kind t (stamp_startup t existing r)"
  shows "\<exists>n. map_of (after_pass nd_meta stored calls listed) (nd_name r) = Some n \<and>
    emittedNodeConforms n p \<and> generatedForTopology (nd_meta n) t \<and>
    (case map_of existing (nd_name r) of None \<Rightarrow> n = stored p
     | Some e \<Rightarrow> n = e \<or> n = stored (updated_object node_kind e p))"
proof -
  note clean = node_pass_clean [OF pass]
  have "plain_node r" using pass r by (simp add: node_pass_def list_all_iff)
  then have "plain_node (stamp_startup t existing r)" by (rule stamp_startup_plain)
  moreover have "stamp_startup t existing r \<in> set (map (stamp_startup t existing) rendered)" using r by simp
  ultimately show ?thesis using nodes.pass_rendered [OF clean, of "stamp_startup t existing r"]
    unfolding existing_def p_def after_pass_def by (simp add: node_kind_fields)
qed

lemma node_prepared:
  assumes pass: "node_pass api stored t listed rendered calls" and r: "r \<in> set rendered"
  defines "existing \<equiv> generated_objects nd_meta t listed"
  shows "\<exists>m. ea_set_controller api t (nd_meta (stamp_startup t existing r)) = Inr m \<and>
    prepare api node_kind t (stamp_startup t existing r) = (stamp_startup t existing r)\<lparr> nd_meta := m \<rparr> \<and>
    meta_name m = nd_name r \<and> meta_labels m = meta_labels (nd_meta r) \<and>
    meta_annotations m = nd_annotations (stamp_startup t existing r)"
proof -
  have run: "reconcileEmitted api node_kind t (map (stamp_startup t existing) rendered) existing = (None, calls)" and
    ctl: "sets_controller api"
    using pass by (simp_all add: node_pass_def reconcileNodes_def Let_def existing_def)
  obtain e c where "emit_rendered api node_kind t (map (stamp_startup t existing) rendered) existing [] = (None, e, c)"
    using run by (auto simp: reconcileEmitted_def split: prod.splits option.splits)
  from emit_rendered_controllers [OF this, of "stamp_startup t existing r"] r
  obtain m where m: "ea_set_controller api t (nd_meta (stamp_startup t existing r)) = Inr m"
    by (auto simp: node_kind_def)
  with ctl show ?thesis by (auto simp: prepare_def node_kind_def sets_controller_def)
qed

lemma faithful_node:
  assumes "faithful_store node_kind nd_spec stored"
  shows "nd_spec (stored n) = nd_spec n" "nd_name (stored n) = nd_name n" "nd_annotations (stored n) = nd_annotations n"
  using assms by (simp_all add: faithful_store_def node_kind_def same_emitted_meta_def)

lemma updated_node:
  "nd_spec (updated_object node_kind ex r) = (nd_spec r)\<lparr> ns_run_state := ns_run_state (nd_spec ex) \<rparr>"
  "k \<notin> set operationalNodeAnnotations \<Longrightarrow>
     map_of (nd_annotations (updated_object node_kind ex r)) k = map_of (nd_annotations r) k"
  using carryOverNode_meta(4) [of k ex r]
  by (simp_all add: updated_object_def node_kind_def Let_def) (simp add: carryOverNode_def)



text \<open>
  \<open>SetControllerReference\<close> decides by the owner references and the namespace of the object alone.
\<close>

definition controller_by_owners :: "'o emit_api \<Rightarrow> bool" where
  "controller_by_owners api \<longleftrightarrow> (\<forall>t a b. meta_owners a = meta_owners b \<and> meta_namespace a = meta_namespace b \<longrightarrow>
     (case (ea_set_controller api t a, ea_set_controller api t b) of
        (Inr a', Inr b') \<Rightarrow> meta_owners a' = meta_owners b'
      | (Inl e, Inl e') \<Rightarrow> True
      | _ \<Rightarrow> False))"

lemma controller_again:
  assumes "controller_by_owners api" "ea_set_controller api t a = Inr a'" "meta_owners b = meta_owners a" "meta_namespace b = meta_namespace a"
  shows "\<exists>b'. ea_set_controller api t b = Inr b' \<and> meta_owners b' = meta_owners a'"
proof -
  note law = assms(1) [unfolded controller_by_owners_def, THEN spec, of t, THEN spec, of a, THEN spec, of b, THEN mp]
  have "case (ea_set_controller api t a, ea_set_controller api t b) of
      (Inr a', Inr b') \<Rightarrow> meta_owners a' = meta_owners b' | (Inl e, Inl e') \<Rightarrow> True | _ \<Rightarrow> False"
    by (rule law) (simp add: assms(3,4))
  with assms(2) show ?thesis by (auto split: sum.splits)
qed

lemma gm_str_lookup: "gm_str m k \<noteq> '''' \<Longrightarrow> map_of m k = Some (gm_str m k)"
  by (auto simp: gm_str_def split: option.splits)

text \<open>A stored Node conforms to its rendering stamped from that Node itself.\<close>

lemma stamp_again_conforms:
  assumes plain: "plain_node r" and conf: "emittedNodeConforms n ((stamp_startup t ex r)\<lparr> nd_meta := m \<rparr>)"
    and m: "meta_labels m = meta_labels (nd_meta r)" "meta_annotations m = nd_annotations (stamp_startup t ex r)"
    and m': "meta_labels m' = meta_labels m" "meta_owners m' = meta_owners m"
      "meta_annotations m' = nd_annotations (stamp_startup t ex' r)"
    and ex': "map_of ex' (nd_name r) = Some n"
  shows "emittedNodeConforms n ((stamp_startup t ex' r)\<lparr> nd_meta := m' \<rparr>)"
proof -
  have dist: "distinct (map fst (nd_annotations r))" using plain by (simp add: plain_node_def)
  note entry = map_of_eq_Some_iff [OF stamp_startup_distinct [OF dist], symmetric]
  have "set (nd_annotations (stamp_startup t ex' r)) \<subseteq> set (nd_annotations n)"
  proof
    fix kv assume "kv \<in> set (nd_annotations (stamp_startup t ex' r))"
    then obtain k v where kv: "kv = (k, v)" "map_of (nd_annotations (stamp_startup t ex' r)) k = Some v"
      by (metis entry surj_pair)
    show "kv \<in> set (nd_annotations n)"
    proof (cases "k = AnnotationStartupHold \<or> k = AnnotationStartupAdmitted")
      case True
      with kv ex' have "gm_str (nd_annotations n) k \<noteq> ''''" "v = gm_str (nd_annotations n) k"
        by (auto simp: stamp_startup_lookup startup_value_def split: if_splits)
      then have "map_of (nd_annotations n) k = Some v" using gm_str_lookup by simp
      then show ?thesis unfolding kv(1) by (rule map_of_SomeD)
    next
      case False
      with kv have "(k, v) \<in> set (nd_annotations (stamp_startup t ex r))" by (simp add: entry stamp_startup_lookup)
      moreover have "set (meta_annotations m) \<subseteq> set (nd_annotations n)"
        using conf by (simp add: emittedNodeConforms_def node_object_conforms_def meta_conforms_def contains_expected_iff)
      ultimately show ?thesis using m(2) kv(1) by auto
    qed
  qed
  with conf m m' show ?thesis
    by (simp add: emittedNodeConforms_def node_object_conforms_def meta_conforms_def ownerReferencesConform_def contains_expected_iff)
qed

lemma node_pass_left:
  assumes "node_pass api stored t listed rendered calls"
  defines "store \<equiv> after_pass nd_meta stored calls listed"
  shows "generated_part nd_meta t store (generated_objects nd_meta t (map snd store))"
    "fst ` set (generated_objects nd_meta t (map snd store)) \<subseteq> nd_name ` set rendered"
proof -
  have "distinct (map nd_name listed)" using assms(1) by (simp add: node_pass_def)
  note left = nodes.pass_left [OF node_pass_clean [OF assms(1)], unfolded node_kind_fields(1), OF by_name_store(1) [OF this]]
  show "generated_part nd_meta t store (generated_objects nd_meta t (map snd store))"
    using left(1) by (simp add: store_def after_pass_def)
  show "fst ` set (generated_objects nd_meta t (map snd store)) \<subseteq> nd_name ` set rendered"
    using left(2) by (simp add: store_def after_pass_def image_image)
qed

lemma node_pass_again:
  assumes pass: "node_pass api stored t listed rendered calls" and owners: "controller_by_owners api" and r: "r \<in> set rendered"
  defines "ex' \<equiv> generated_objects nd_meta t (map snd (after_pass nd_meta stored calls listed))"
  shows "\<exists>b n. ea_set_controller api t (nd_meta (stamp_startup t ex' r)) = Inr b \<and>
    prepare api node_kind t (stamp_startup t ex' r) = (stamp_startup t ex' r)\<lparr> nd_meta := b \<rparr> \<and> meta_name b = nd_name r \<and>
    map_of ex' (nd_name r) = Some n \<and> emittedNodeConforms n ((stamp_startup t ex' r)\<lparr> nd_meta := b \<rparr>)"
proof -
  let ?ex = "generated_objects nd_meta t listed"
  have ctl: "sets_controller api" and plain: "plain_node r" using pass r by (simp_all add: node_pass_def list_all_iff)
  obtain m where m: "ea_set_controller api t (nd_meta (stamp_startup t ?ex r)) = Inr m"
    "prepare api node_kind t (stamp_startup t ?ex r) = (stamp_startup t ?ex r)\<lparr> nd_meta := m \<rparr>"
    "meta_labels m = meta_labels (nd_meta r)" "meta_annotations m = nd_annotations (stamp_startup t ?ex r)"
    using node_prepared [OF pass r] by blast
  obtain n where n: "map_of (after_pass nd_meta stored calls listed) (nd_name r) = Some n"
    "emittedNodeConforms n ((stamp_startup t ?ex r)\<lparr> nd_meta := m \<rparr>)" "generatedForTopology (nd_meta n) t"
    using node_pass_rendered [OF pass r] unfolding m(2) by blast
  obtain b where b: "ea_set_controller api t (nd_meta (stamp_startup t ex' r)) = Inr b" "meta_owners b = meta_owners m"
    using controller_again [OF owners m(1), of "nd_meta (stamp_startup t ex' r)"] by auto
  from ctl b(1) have b': "meta_name b = nd_name r" "meta_labels b = meta_labels m"
    "meta_annotations b = nd_annotations (stamp_startup t ex' r)" by (auto simp: sets_controller_def m(3))
  have n': "map_of ex' (nd_name r) = Some n" using n(1,3) generated_part_lookup [OF node_pass_left(1) [OF pass]] by (simp add: ex'_def)
  from stamp_again_conforms [OF plain n(2) m(3,4) b'(2) b(2) b'(3) n']
  have "emittedNodeConforms n ((stamp_startup t ex' r)\<lparr> nd_meta := b \<rparr>)" .
  with b b' n' show ?thesis by (auto simp: prepare_def node_kind_fields)
qed

text \<open>
  The pass over the Nodes converges: run again on the Nodes a pass without error has left, with
  the same rendering, it succeeds and sends no create, update or delete.
\<close>

theorem nodes_pass_converges:
  assumes pass: "node_pass api stored t listed rendered calls" and owners: "controller_by_owners api"
  shows "reconcileNodes api t (Inr (map snd (after_pass nd_meta stored calls listed))) rendered = (None, [])"
proof -
  define ex' where "ex' = generated_objects nd_meta t (map snd (after_pass nd_meta stored calls listed))"
  let ?p = "\<lambda>r. prepare api node_kind t (stamp_startup t ex' r)"
  note again = node_pass_again [OF pass owners, folded ex'_def]
  have name: "nd_name (?p r) = nd_name r" if "r \<in> set rendered" for r using again [OF that] by auto
  have "map (\<lambda>r. nd_name (?p r)) rendered = map nd_name rendered" using name by (intro map_cong) auto
  moreover have "distinct (map nd_name rendered)" using pass by (simp add: node_pass_def)
  ultimately have dist: "distinct (map (\<lambda>r. nd_name (?p r)) rendered)" by presburger
  have "(\<lambda>r. nd_name (?p r)) ` set rendered = nd_name ` set rendered" using name by (intro image_cong) auto
  then have keys: "fst ` set ex' \<subseteq> (\<lambda>r. nd_name (?p r)) ` set rendered" using node_pass_left(2) [OF pass] by (simp add: ex'_def)
  have "reconcileEmitted api node_kind t (map (stamp_startup t ex') rendered) ex' = (None, [])"
  proof (rule reconcileEmitted_quiet)
    fix s assume "s \<in> set (map (stamp_startup t ex') rendered)"
    then obtain r where r: "r \<in> set rendered" "s = stamp_startup t ex' r" by auto
    show "\<exists>m. ea_set_controller api t (ek_meta node_kind s) = Inr m"
      using again [OF r(1)] unfolding r(2) node_kind_fields by blast
    show "\<exists>obj. map_of ex' (meta_name (ek_meta node_kind (prepare api node_kind t s))) = Some obj \<and>
        ek_conforms node_kind obj (prepare api node_kind t s)"
      using again [OF r(1)] unfolding r(2) by (auto simp: node_kind_fields)
  qed (use dist keys in \<open>simp_all add: node_kind_fields comp_def image_image\<close>)
  then show ?thesis by (simp add: reconcileNodes_def Let_def ex'_def)
qed



section \<open>The pass over the Links and the NodeProfiles\<close>

context emitted_objects
begin

text \<open>A pass whose rendering does not depend on the stored objects is idle when it runs again.\<close>

lemma pass_again:
  assumes run: "reconcileEmitted api kind t rendered (generated_objects (ek_meta kind) t listed) = (None, calls)"
    and names: "distinct (map (\<lambda>obj. meta_name (ek_meta kind obj)) listed)" "distinct (map (\<lambda>r. meta_name (ek_meta kind r)) rendered)"
    and api: "sets_controller api" "faithful_store kind content stored" and rend: "\<And>r. r \<in> set rendered \<Longrightarrow> renderable r"
  defines "store \<equiv> after_pass (ek_meta kind) stored calls listed"
  shows "clean_pass api kind content stored t rendered (by_name (ek_meta kind) listed) (generated_objects (ek_meta kind) t listed) calls"
    and "reconcileEmitted api kind t rendered (generated_objects (ek_meta kind) t (map snd store)) = (None, [])"
proof -
  let ?ex = "generated_objects (ek_meta kind) t listed" and ?ex' = "generated_objects (ek_meta kind) t (map snd store)"
  let ?n = "\<lambda>obj. meta_name (ek_meta kind obj)"
  note store = by_name_store [OF names(1)]
  have "generated_part (ek_meta kind) t (by_name (ek_meta kind) listed) ?ex"
    using generated_objects_part [OF store(1), of t] store(2) by simp
  with run names(2) api show clean: "clean_pass api kind content stored t rendered (by_name (ek_meta kind) listed) ?ex calls"
    by (simp add: clean_pass_def)
  note left = pass_left [OF clean store(1), folded after_pass_def, folded store_def]
  note prep = pass_prepared(1) [OF clean]
  have maps: "map (\<lambda>r. ?n (prepare api kind t r)) rendered = map ?n rendered"
    "(\<lambda>r. ?n (prepare api kind t r)) ` set rendered = ?n ` set rendered" using prep by (auto intro: map_cong)
  obtain e c where emit: "emit_rendered api kind t rendered ?ex [] = (None, e, c)"
    using run by (auto simp: reconcileEmitted_def split: prod.splits option.splits)
  show "reconcileEmitted api kind t rendered ?ex' = (None, [])"
  proof (rule reconcileEmitted_quiet)
    fix r assume r: "r \<in> set rendered"
    show "\<exists>m. ea_set_controller api t (ek_meta kind r) = Inr m" by (rule emit_rendered_controllers [OF emit r])
    obtain obj where "map_of store (?n r) = Some obj" "ek_conforms kind obj (prepare api kind t r)" "generatedForTopology (ek_meta kind obj) t"
      using pass_rendered [OF clean r rend [OF r]] unfolding store_def after_pass_def by blast
    then show "\<exists>obj. map_of ?ex' (?n (prepare api kind t r)) = Some obj \<and> ek_conforms kind obj (prepare api kind t r)"
      using generated_part_lookup [OF left(1)] prep [OF r] by simp
  next
    show "distinct (map (\<lambda>r. ?n (prepare api kind t r)) rendered)" unfolding maps by (rule names(2))
    show "fst ` set ?ex' \<subseteq> (\<lambda>r. ?n (prepare api kind t r)) ` set rendered" unfolding maps by (rule left(2))
  qed
qed

end

text \<open>
  A pass over the Links that reports no error leaves, under every rendered name, a Link generated
  for the Topology with the rendered spec, deletes every other generated Link, touches no Link of
  another origin under another name, and is idle when it runs again on what it left.
\<close>

theorem links_pass_converges:
  assumes run: "reconcileLinks api t (Inr listed) rendered = (None, calls)"
    and names: "distinct (map lk_name listed)" "distinct (map lk_name rendered)"
    and api: "sets_controller api" "faithful_store link_kind lk_spec stored"
  shows "(\<forall>r \<in> set rendered. \<exists>l. map_of (after_pass lk_meta stored calls listed) (lk_name r) = Some l \<and>
      lk_spec l = lk_spec r \<and> generatedForTopology (lk_meta l) t) \<and>
    (\<forall>k. k \<notin> lk_name ` set rendered \<longrightarrow> map_of (after_pass lk_meta stored calls listed) k =
      Option.bind (map_of (by_name lk_meta listed) k) (\<lambda>l. if generatedForTopology (lk_meta l) t then None else Some l)) \<and>
    reconcileLinks api t (Inr (map snd (after_pass lk_meta stored calls listed))) rendered = (None, [])"
proof -
  have kind: "ek_meta link_kind = lk_meta" by (simp add: link_kind_def)
  note again = links.pass_again [of api t rendered listed calls stored, unfolded kind, OF run [unfolded reconcileLinks_def sum.case] names api TrueI]
  have "\<exists>l. map_of (after_pass lk_meta stored calls listed) (lk_name r) = Some l \<and>
      lk_spec l = lk_spec r \<and> generatedForTopology (lk_meta l) t" if r: "r \<in> set rendered" for r
  proof -
    have "lk_spec (prepare api link_kind t r) = lk_spec r" by (simp add: prepare_def link_kind_def split: sum.split)
    moreover have "ek_conforms link_kind = emittedLinkConforms" by (simp add: link_kind_def)
    ultimately show ?thesis using links.pass_rendered [OF again(1) r TrueI]
      by (auto simp: kind after_pass_def emittedLinkConforms_def specConforms_def)
  qed
  moreover have "map_of (after_pass lk_meta stored calls listed) k =
      Option.bind (map_of (by_name lk_meta listed) k) (\<lambda>l. if generatedForTopology (lk_meta l) t then None else Some l)"
    if "k \<notin> lk_name ` set rendered" for k
    using links.pass_other [OF again(1), of k] that by (simp add: kind after_pass_def)
  ultimately show ?thesis using again(2) by (simp add: reconcileLinks_def)
qed

lemma profiles_pass_converges:
  assumes run: "reconcileNodeProfiles api t (Inr listed) rendered = (None, calls)"
    and names: "distinct (map (\<lambda>p. meta_name (np_meta p)) listed)" "distinct (map (\<lambda>p. meta_name (np_meta p)) rendered)"
    and api: "sets_controller api" "faithful_store profile_kind np_spec stored"
  shows "reconcileNodeProfiles api t (Inr (map snd (after_pass np_meta stored calls listed))) rendered = (None, [])"
proof -
  have kind: "ek_meta profile_kind = np_meta" by (simp add: profile_kind_def)
  show ?thesis using profiles.pass_again(2) [of api t rendered listed calls stored, unfolded kind, OF run [unfolded reconcileNodeProfiles_def sum.case] names api TrueI]
    by (simp add: reconcileNodeProfiles_def)
qed

section \<open>Conflicts\<close>

lemma child_conflicts_iff:
  "name \<in> set (child_conflicts t existing children seen) \<longleftrightarrow> name \<in> child_name ` set children \<and>
     (name \<in> set seen \<or> 2 \<le> count_list (map child_name children) name \<or>
      (\<exists>obj. map_of existing name = Some obj \<and> \<not> generatedForTopology obj t))"
proof (induction children arbitrary: seen)
  case (Cons child children)
  have "name \<in> child_name ` set children \<longleftrightarrow> 1 \<le> count_list (map child_name children) name"
    using count_list_0_iff [of "map child_name children" name] by (auto simp: Suc_le_eq)
  with Cons show ?case by (auto simp: Let_def split: option.splits)
qed simp

text \<open>The kinds of the children, which carry no slash, keep the child names of different kinds apart.\<close>

definition child_kinds :: "string list" where
  "child_kinds = [''nodeprofile'', ''link'', ''node'']"

lemma child_name_inj:
  "fst a \<in> set child_kinds \<Longrightarrow> fst b \<in> set child_kinds \<Longrightarrow>
     child_name a = child_name b \<longleftrightarrow> fst a = fst b \<and> meta_name (snd a) = meta_name (snd b)"
  by (auto simp: child_kinds_def child_name_def)

lemma inventory_fold:
  assumes "distinct (map meta_name objects)" "kind \<in> set child_kinds" "kind' \<in> set child_kinds"
  shows "map_of (foldl (\<lambda>m obj. AList.update (child_name (kind, obj)) obj m) m objects) (child_name (kind', meta)) = Some obj \<longleftrightarrow>
    (if kind' = kind \<and> meta_name meta \<in> meta_name ` set objects then obj \<in> set objects \<and> meta_name obj = meta_name meta
     else map_of m (child_name (kind', meta)) = Some obj)"
  using assms(1)
proof (induction objects arbitrary: m)
  case (Cons x objects)
  then have IH: "\<And>m. (map_of (foldl (\<lambda>m obj. AList.update (child_name (kind, obj)) obj m) m objects) (child_name (kind', meta)) = Some obj) =
      (if kind' = kind \<and> meta_name meta \<in> meta_name ` set objects then obj \<in> set objects \<and> meta_name obj = meta_name meta
       else map_of m (child_name (kind', meta)) = Some obj)" by simp
  have inj: "child_name (kind', meta) = child_name (kind, x) \<longleftrightarrow> kind' = kind \<and> meta_name meta = meta_name x"
    using child_name_inj [of "(kind', meta)" "(kind, x)"] assms(2,3) by simp
  have "meta_name x \<notin> meta_name ` set objects" using Cons.prems by simp
  then show ?case unfolding foldl_Cons IH using inj
    by (cases "kind' = kind"; cases "meta_name meta = meta_name x") (auto simp: eq_commute [of x], metis imageI)
qed simp


text \<open>The objects of a kind and name the API reader lists; the names of a kind are unique.\<close>

definition listed_object :: "(string \<Rightarrow> api_error + object_meta list) \<Rightarrow> string \<Rightarrow> string \<Rightarrow> object_meta \<Rightarrow> bool" where
  "listed_object lister kind name obj \<longleftrightarrow>
     (case lister kind of Inl e \<Rightarrow> False | Inr objects \<Rightarrow> obj \<in> set objects \<and> meta_name obj = name)"

definition unique_names :: "(string \<Rightarrow> api_error + object_meta list) \<Rightarrow> bool" where
  "unique_names lister \<longleftrightarrow> (\<forall>kind objects. lister kind = Inr objects \<longrightarrow> distinct (map meta_name objects))"

lemma list_inventory_lookup:
  assumes "list_inventory lister kind n e = Inr m'" "unique_names lister"
    and "kind \<in> set child_kinds" "kind' \<in> set child_kinds"
  shows "\<exists>m. e = Inr m \<and> (map_of m' (child_name (kind', meta)) = Some obj \<longleftrightarrow>
    (if kind' = kind \<and> 0 < n \<and> (\<exists>x. listed_object lister kind (meta_name meta) x)
     then listed_object lister kind (meta_name meta) obj else map_of m (child_name (kind', meta)) = Some obj))"
proof -
  obtain m where m: "e = Inr m" using assms(1) by (auto simp: list_inventory_def split: sum.splits)
  show ?thesis
  proof (cases "n = 0")
    case True
    with assms(1) m show ?thesis by (simp add: list_inventory_def)
  next
    case False
    with assms(1) m obtain objects where o: "lister kind = Inr objects"
      "m' = foldl (\<lambda>m obj. AList.update (child_name (kind, obj)) obj m) m objects"
      by (auto simp: list_inventory_def split: sum.splits)
    then have "distinct (map meta_name objects)" using assms(2) by (simp add: unique_names_def)
    note fold = inventory_fold [OF this assms(3,4), of m meta obj, folded o(2)]
    have "(\<exists>x. listed_object lister kind (meta_name meta) x) \<longleftrightarrow> meta_name meta \<in> meta_name ` set objects"
      by (simp add: listed_object_def o(1) image_iff) (metis)
    with fold False m show ?thesis by (simp add: listed_object_def o(1))
  qed
qed

lemma conflict_inventory:
  assumes "findChildResourceConflicts lister t rendered = Inr conflicts" "unique_names lister"
  shows "\<exists>existing. conflicts = sort (remdups (child_conflicts t existing (all_children rendered) [])) \<and>
    (\<forall>child \<in> set (all_children rendered). \<forall>obj. map_of existing (child_name child) = Some obj \<longleftrightarrow>
       listed_object lister (fst child) (meta_name (snd child)) obj)"
proof -
  let ?e1 = "list_inventory lister ''nodeprofile'' (length (rc_profiles rendered)) (Inr [])"
  let ?e2 = "list_inventory lister ''link'' (length (rc_links rendered)) ?e1"
  obtain m3 where m3: "list_inventory lister ''node'' (length (rc_nodes rendered)) ?e2 = Inr m3"
    "conflicts = sort (remdups (child_conflicts t m3 (all_children rendered) []))"
    using assms(1) by (auto simp: findChildResourceConflicts_def split: sum.splits)
  obtain m2 where m2: "?e2 = Inr m2" using m3(1) by (auto simp: list_inventory_def split: sum.splits)
  obtain m1 where m1: "?e1 = Inr m1" using m2 by (auto simp: list_inventory_def split: sum.splits)
  have "map_of m3 (child_name (kind, meta)) = Some obj \<longleftrightarrow> listed_object lister kind (meta_name meta) obj"
    if "(kind, meta) \<in> set (all_children rendered)" for kind meta obj
  proof -
    have kind: "kind \<in> set child_kinds" using that by (auto simp: all_children_def child_kinds_def)
    note l3 = list_inventory_lookup [OF m3(1) assms(2) _ kind, of meta obj]
      and l2 = list_inventory_lookup [OF m2 assms(2) _ kind, of meta obj]
      and l1 = list_inventory_lookup [OF m1 assms(2) _ kind, of meta obj]
    from that consider "kind = ''nodeprofile''" "rc_profiles rendered \<noteq> []" | "kind = ''link''" "rc_links rendered \<noteq> []"
      | "kind = ''node''" "rc_nodes rendered \<noteq> []" by (cases "rc_profiles rendered"; cases "rc_links rendered"; cases "rc_nodes rendered") (auto simp: all_children_def)
    then show ?thesis using l3 l2 l1 m2 m1 by cases (auto simp: child_kinds_def)
  qed
  with m3(2) show ?thesis by (intro exI [of _ m3]) auto
qed

text \<open>
  The reported conflicts are exactly the child names that are rendered more than once in their
  kind, or that an object not generated for the Topology already holds. They are reported sorted and
  without repetition, so the status of a conflicted Topology does not flap.
\<close>

theorem child_conflicts_exact:
  assumes "findChildResourceConflicts lister t rendered = Inr conflicts" "unique_names lister"
  shows "set conflicts = {name. \<exists>child. child \<in> set (all_children rendered) \<and> child_name child = name \<and>
      (2 \<le> count_list (map child_name (all_children rendered)) name \<or>
       (\<exists>obj. listed_object lister (fst child) (meta_name (snd child)) obj \<and> \<not> generatedForTopology obj t))} \<and>
    sorted conflicts \<and> distinct conflicts"
proof -
  obtain existing where e: "conflicts = sort (remdups (child_conflicts t existing (all_children rendered) []))"
    "\<And>child obj. child \<in> set (all_children rendered) \<Longrightarrow> map_of existing (child_name child) = Some obj \<longleftrightarrow>
       listed_object lister (fst child) (meta_name (snd child)) obj"
    using conflict_inventory [OF assms] by blast
  have "name \<in> set conflicts \<longleftrightarrow> (\<exists>child. child \<in> set (all_children rendered) \<and> child_name child = name \<and>
      (2 \<le> count_list (map child_name (all_children rendered)) name \<or>
       (\<exists>obj. listed_object lister (fst child) (meta_name (snd child)) obj \<and> \<not> generatedForTopology obj t)))" for name
    unfolding e(1) set_sort set_remdups child_conflicts_iff using e(2) by (fastforce simp del: split_paired_Ex split_paired_All)
  then show ?thesis by (auto simp: e(1))
qed


section \<open>Sample passes\<close>

definition sample_emit_api :: "'o emit_api" where
  "sample_emit_api = \<lparr> ea_call = (\<lambda>calls c. None),
     ea_set_controller = (\<lambda>t m. Inr (m\<lparr> meta_owners := [\<lparr> ref_api_version = ''c9s.run/v1alpha1'', ref_kind = ''Topology'',
       ref_name = tp_name t, ref_uid = tp_uid t, ref_controller = Some True \<rparr>] \<rparr>)) \<rparr>"

definition sample_stored :: "node list" where
  "sample_stored = [sample_owned ''a'' [(AnnotationStartupAdmitted, ''true'')], sample_owned ''old'' [], sample_node ''x'' '''']"

definition sample_rendered :: "node list" where
  "sample_rendered = [sample_node ''a'' ''container:b'', sample_node ''b'' '''']"

definition sample_calls :: "node emitted_call list" where
  "sample_calls = snd (reconcileNodes sample_emit_api sample_topology (Inr sample_stored) sample_rendered)"

lemma sample_emit_api_laws: "sets_controller sample_emit_api" "controller_by_owners sample_emit_api"
  by (auto simp: sets_controller_def controller_by_owners_def sample_emit_api_def ownedBy_def)

lemma sample_faithful: "faithful_store node_kind nd_spec id"
  by (simp add: faithful_store_def same_emitted_meta_def)

lemma sample_nodes_run:
  "reconcileNodes sample_emit_api sample_topology (Inr sample_stored) sample_rendered = (None, sample_calls)"
  "distinct (map nd_name sample_stored)" "distinct (map nd_name sample_rendered)" "list_all plain_node sample_rendered"
  by code_simp+

lemma sample_node_pass: "node_pass sample_emit_api id sample_topology sample_stored sample_rendered sample_calls"
  unfolding node_pass_def using sample_nodes_run sample_emit_api_laws(1) sample_faithful by blast

lemma sample_lookups:
  "''old'' \<notin> nd_name ` set sample_rendered" "''x'' \<notin> nd_name ` set sample_rendered" "sample_node ''b'' '''' \<in> set sample_rendered"
  "map_of (by_name nd_meta sample_stored) ''old'' = Some (sample_owned ''old'' [])"
  "map_of (by_name nd_meta sample_stored) ''x'' = Some (sample_node ''x'' '''')"
  "generatedForTopology (nd_meta (sample_owned ''old'' [])) sample_topology"
  "\<not> generatedForTopology (nd_meta (sample_node ''x'' '''')) sample_topology"
  "map_of (generated_objects nd_meta sample_topology sample_stored) ''b'' = None"
  "startupBatchSize sample_topology > 0" "nd_name (sample_node ''b'' '''') = ''b''"
  by code_simp+



theorem nodes_pass_converges_witness:
  "node_pass sample_emit_api id sample_topology sample_stored sample_rendered sample_calls \<and>
   controller_by_owners (sample_emit_api :: node emit_api) \<and> length sample_calls = 3 \<and>
   reconcileNodes sample_emit_api sample_topology (Inr (map snd (after_pass nd_meta id sample_calls sample_stored))) sample_rendered = (None, [])"
proof -
  have "length sample_calls = 3" by code_simp
  with nodes_pass_converges [OF sample_node_pass sample_emit_api_laws(2)] sample_node_pass sample_emit_api_laws(2) show ?thesis by simp
qed


text \<open>Two rendered Nodes of one name and a Link name that a foreign Link holds.\<close>

definition sample_lister :: "string \<Rightarrow> api_error + object_meta list" where
  "sample_lister kind = Inr (if kind = ''link'' then [sample_meta ''l1''] else [])"

definition sample_children :: renderedChildren where
  "sample_children = \<lparr> rc_profiles = [], rc_links = [sample_link ''l1'' ''a'' ''e1'' ''b'' ''e1'' 0],
     rc_nodes = [sample_node ''a'' '''', sample_node ''b'' '''', sample_node ''a'' ''''] \<rparr>"

theorem child_conflicts_exact_witness:
  "findChildResourceConflicts sample_lister sample_topology sample_children = Inr [''link/l1'', ''node/a''] \<and>
   unique_names sample_lister \<and> sorted [''link/l1'', ''node/a''] \<and>
   2 \<le> count_list (map child_name (all_children sample_children)) ''node/a''"
proof -
  have run: "findChildResourceConflicts sample_lister sample_topology sample_children = Inr [''link/l1'', ''node/a'']" by code_simp
  have unique: "unique_names sample_lister" by (auto simp: unique_names_def sample_lister_def)
  have "2 \<le> count_list (map child_name (all_children sample_children)) ''node/a''" by code_simp
  with child_conflicts_exact [OF run unique] run unique show ?thesis by blast
qed

definition sample_link_calls :: "link emitted_call list" where
  "sample_link_calls = snd (reconcileLinks sample_emit_api sample_topology (Inr []) (rc_links sample_children))"

theorem links_pass_converges_witness:
  "reconcileLinks sample_emit_api sample_topology (Inr []) (rc_links sample_children) = (None, sample_link_calls) \<and>
   sets_controller (sample_emit_api :: link emit_api) \<and> faithful_store link_kind lk_spec id \<and> length sample_link_calls = 1 \<and>
   reconcileLinks sample_emit_api sample_topology (Inr (map snd (after_pass lk_meta id sample_link_calls []))) (rc_links sample_children) = (None, [])"
proof -
  have run: "reconcileLinks sample_emit_api sample_topology (Inr []) (rc_links sample_children) = (None, sample_link_calls)"
    "length sample_link_calls = 1" by code_simp+
  have names: "distinct (map lk_name [])" "distinct (map lk_name (rc_links sample_children))" by code_simp+
  have store: "faithful_store link_kind lk_spec id" by (simp add: faithful_store_def same_emitted_meta_def)
  show ?thesis using links_pass_converges [OF run(1) names sample_emit_api_laws(1) store] run store sample_emit_api_laws(1) by simp
qed

end
