(* ===== verification/Topology_Status.thy ===== *)
theory Topology_Status
  imports Topology_Types
begin

text \<open>
  The aggregated status of a Topology (\<open>src/controllers/topology/status.go\<close>): the desired status, the
  lifecycle state, the coalescing of progress updates and the status write with its retry on
  conflict.
\<close>

section \<open>Definitions\<close>

definition NodeStatusReady :: string where "NodeStatusReady = ''ready''"
definition NodeStatusNotReady :: string where "NodeStatusNotReady = ''notready''"
definition TopologyReadyStatus :: string where "TopologyReadyStatus = ''TopologyReady''"
definition TopologyChildResourceConflictReason :: string where
  "TopologyChildResourceConflictReason = ''ChildResourceConflict''"

text \<open>
  A merge patch of the status: the resource version it requires and the fields it sets, \<open>None\<close> being a
  JSON null. \<open>sa_unstructured\<close> is \<open>DefaultUnstructuredConverter.ToUnstructured\<close>: the fields of a status
  as JSON, optional ones left out when empty.
\<close>

record status_patch =
  spa_version :: string
  spa_status :: "(string, string option) gomap"

datatype status_call = StatusGet | StatusPatch topology status_patch

text \<open>
  The answers of the API, which may depend on the calls before, \<open>apimachinerymeta.SetStatusCondition\<close>,
  and the clock at the three places it is read, in nanoseconds since 1970.
\<close>

record status_api =
  sa_nodes :: "api_error + node list"
  sa_get :: "status_call list \<Rightarrow> api_error + topology"
  sa_patch :: "status_call list \<Rightarrow> topology \<Rightarrow> status_patch \<Rightarrow> api_error + topology"
  sa_unstructured :: "topology_status \<Rightarrow> api_error + (string, string) gomap"
  sa_set_condition :: "string condition list \<Rightarrow> string condition \<Rightarrow> string condition list"
  sa_checked_at :: int
  sa_written_at :: int
  sa_requeued_at :: int

record statusWrite =
  sw_uid :: string
  sw_at :: int
  sw_pending :: bool

type_synonym status_writes = "(string \<times> string, statusWrite) gomap"

text \<open>The zero value a missing entry reads as; the zero time is the first instant of the year 1.\<close>

definition zero_write :: statusWrite where
  "zero_write = \<lparr> sw_uid = '''', sw_at = -62135596800000000000, sw_pending = False \<rparr>"

definition status_write :: "status_writes \<Rightarrow> topology \<Rightarrow> statusWrite" where
  "status_write writes topology =
     (case map_of writes (tp_namespace topology, tp_name topology) of None \<Rightarrow> zero_write | Some w \<Rightarrow> w)"

definition topologyProgressInterval :: int where
  "topologyProgressInterval = 2000000000"

definition statusProgressDelay :: "int \<Rightarrow> status_writes \<Rightarrow> topology \<Rightarrow> int" where
  "statusProgressDelay now writes topology =
     (let prior = status_write writes topology in
      if sw_uid prior \<noteq> tp_uid topology then 0 else max 0 (sw_at prior + topologyProgressInterval - now))"

definition recordStatusWrite :: "int \<Rightarrow> status_writes \<Rightarrow> topology \<Rightarrow> status_writes" where
  "recordStatusWrite now writes topology =
     AList.update (tp_namespace topology, tp_name topology)
       \<lparr> sw_uid = tp_uid topology, sw_at = now, sw_pending = False \<rparr> writes"

definition forgetStatusWrite :: "status_writes \<Rightarrow> string \<times> string \<Rightarrow> status_writes" where
  "forgetStatusWrite writes key = AList.delete key writes"

definition setStatusProgressPending :: "status_writes \<Rightarrow> topology \<Rightarrow> bool \<Rightarrow> status_writes" where
  "setStatusProgressPending writes topology pending =
     (let key = (tp_namespace topology, tp_name topology) in
      case map_of writes key of
        None \<Rightarrow> writes
      | Some prior \<Rightarrow> AList.update key (prior\<lparr> sw_pending := pending \<rparr>) writes)"

definition pendingStatusDelay :: "int \<Rightarrow> status_writes \<Rightarrow> topology \<Rightarrow> int" where
  "pendingStatusDelay now writes topology =
     (let prior = status_write writes topology in
      if \<not> sw_pending prior \<or> sw_uid prior \<noteq> tp_uid topology then 0
      else max 1000000 (sw_at prior + topologyProgressInterval - now))"

definition resolveTopologyState :: "topology \<Rightarrow> topology_status \<Rightarrow> topology_state" where
  "resolveTopologyState topology desiredStatus =
     (if tst_ready desiredStatus then TopologyStateRunning
      else let previousState = tst_state (tp_status topology) in
        if previousState = TopologyStateRunning \<or> previousState = TopologyStateDegraded
        then TopologyStateDegraded else TopologyStateDeploying)"

definition topologyStatusPatch :: "status_api \<Rightarrow> topology \<Rightarrow> topology_status \<Rightarrow> api_error + status_patch" where
  "topologyStatusPatch api current desired =
     (case sa_unstructured api desired of
        Inl e \<Rightarrow> Inl e
      | Inr status \<Rightarrow>
          (case sa_unstructured api (tp_status current) of
             Inl e \<Rightarrow> Inl e
           | Inr previous \<Rightarrow>
               Inr \<lparr> spa_version = meta_resource_version (tp_meta current),
                 spa_status = foldl (\<lambda>st key. if map_of st key = None then AList.update key None st else st)
                   (map (\<lambda>(k, v). (k, Some v)) status) (map fst previous) \<rparr>))"

text \<open>
  One run of the function \<open>RetryOnConflict\<close> is given: its error, the object it reports as updated, and
  the calls so far. \<open>refresh\<close> is false only for a first run on a cached object.
\<close>

definition status_attempt :: "status_api \<Rightarrow> topology \<Rightarrow> topology_status \<Rightarrow> bool \<Rightarrow> status_call list
    \<Rightarrow> api_error option \<times> topology option \<times> status_call list" where
  "status_attempt api topology desired refresh calls =
     (let read = (if refresh then (sa_get api calls, calls @ [StatusGet]) else (Inr topology, calls)) in
      case read of
        (Inl e, calls') \<Rightarrow> (Some e, None, calls')
      | (Inr current, calls') \<Rightarrow>
          if meta_uid (tp_meta current) \<noteq> tp_uid topology \<or>
             meta_generation (tp_meta current) \<noteq> meta_generation (tp_meta topology)
          then (None, None, calls')
          else if tp_status current = desired then (None, Some current, calls')
          else (case topologyStatusPatch api current desired of
                  Inl e \<Rightarrow> (Some e, None, calls')
                | Inr patch \<Rightarrow>
                    let current' = current\<lparr> tp_status := desired \<rparr>; calls'' = calls' @ [StatusPatch current' patch] in
                    (case sa_patch api calls' current' patch of
                       Inl e \<Rightarrow> (Some e, None, calls'')
                     | Inr stored \<Rightarrow> (None, Some stored, calls''))))"

text \<open>
  \<open>RetryOnConflict\<close> of client-go: the function runs again while it returns a conflict and retries
  remain; \<open>retries\<close> is one less than the steps of the backoff.
\<close>

fun status_retry :: "status_api \<Rightarrow> topology \<Rightarrow> topology_status \<Rightarrow> nat \<Rightarrow> bool \<Rightarrow> status_call list
    \<Rightarrow> api_error option \<times> topology option \<times> status_call list" where
  "status_retry api topology desired 0 refresh calls = status_attempt api topology desired refresh calls"
| "status_retry api topology desired (Suc retries) refresh calls =
     (case status_attempt api topology desired refresh calls of
        (Some Conflict, updated, calls') \<Rightarrow> status_retry api topology desired retries True calls'
      | result \<Rightarrow> result)"

text \<open>The error, the Topology as the caller sees it afterwards, the status writes and the calls.\<close>

definition updateTopologyStatus :: "status_api \<Rightarrow> nat \<Rightarrow> status_writes \<Rightarrow> topology \<Rightarrow> topology_status
    \<Rightarrow> api_error option \<times> topology \<times> status_writes \<times> status_call list" where
  "updateTopologyStatus api retries writes topology desired =
     (if tp_status topology = desired then (None, topology, setStatusProgressPending writes topology False, [])
      else if (tp_status topology)\<lparr> tst_ready_node_count := tst_ready_node_count desired \<rparr> = desired \<and>
        statusProgressDelay (sa_checked_at api) writes topology > 0
      then (None, topology, setStatusProgressPending writes topology True, [])
      else case status_retry api topology desired retries (meta_resource_version (tp_meta topology) = '''') [] of
             (None, Some updated, calls) \<Rightarrow>
               let topology' = topology\<lparr> tp_status := tp_status updated,
                     tp_meta := (tp_meta topology)\<lparr> meta_resource_version := meta_resource_version (tp_meta updated) \<rparr> \<rparr>
               in (None, topology', recordStatusWrite (sa_written_at api) writes topology', calls)
           | (err, updated, calls) \<Rightarrow> (err, topology, writes, calls))"

definition ready_condition :: "string \<Rightarrow> bool \<Rightarrow> string condition" where
  "ready_condition topologyError ready =
     (let c = (\<lambda>status reason message. \<lparr> cond_type = TopologyReadyStatus, cond_status = status, cond_generation = 0,
            cond_transition = 0, cond_reason = reason, cond_message = message \<rparr>) in
      if topologyError \<noteq> '''' then c ConditionFalse TopologyChildResourceConflictReason topologyError
      else if ready then c ConditionTrue NodeStatusReady ''all nodes report ready''
      else c ConditionFalse NodeStatusNotReady
             ''one or more nodes report not ready, check the node objects for more information'')"

definition desired_status :: "status_api \<Rightarrow> topology \<Rightarrow> CompiledTopology \<Rightarrow> string \<Rightarrow> node list \<Rightarrow> topology_status" where
  "desired_status api topology compiled topologyError ownedNodes =
     (let readyNodeCount = length (filter (\<lambda>n. ownedBy (nd_meta n) topology \<and> nst_readiness (nd_status n) = NodeStatusReady) ownedNodes);
          ready = (topologyError = '''' \<and> length (ct_nodes compiled) > 0 \<and> readyNodeCount = length (ct_nodes compiled));
          desired = \<lparr> tst_kind = ct_kind compiled, tst_observed_generation = meta_generation (tp_meta topology),
            tst_node_count = int (length (ct_nodes compiled)), tst_ready_node_count = int readyNodeCount,
            tst_link_count = int (length (ct_links compiled)), tst_ready = ready, tst_state = TopologyStateUnset,
            tst_error = topologyError, tst_conditions = tst_conditions (tp_status topology) \<rparr>
      in desired\<lparr> tst_state := resolveTopologyState topology desired,
           tst_conditions := sa_set_condition api (tst_conditions desired) (ready_condition topologyError ready) \<rparr>)"

definition reconcileStatusWithError :: "status_api \<Rightarrow> nat \<Rightarrow> status_writes \<Rightarrow> topology \<Rightarrow> CompiledTopology \<Rightarrow> string
    \<Rightarrow> api_error option \<times> topology \<times> status_writes \<times> status_call list" where
  "reconcileStatusWithError api retries writes topology compiled topologyError =
     (case sa_nodes api of
        Inl e \<Rightarrow> (Some e, topology, writes, [])
      | Inr ownedNodes \<Rightarrow>
          updateTopologyStatus api retries writes topology (desired_status api topology compiled topologyError ownedNodes))"

definition reconcileStatus :: "status_api \<Rightarrow> nat \<Rightarrow> status_writes \<Rightarrow> topology \<Rightarrow> CompiledTopology
    \<Rightarrow> api_error option \<times> topology \<times> status_writes \<times> status_call list" where
  "reconcileStatus api retries writes topology compiled = reconcileStatusWithError api retries writes topology compiled ''''"


section \<open>The status patch\<close>

text \<open>A JSON merge patch on the fields of a flat object: a null removes a field, a value sets it.\<close>

definition merge_patch :: "(string, string) gomap \<Rightarrow> (string, string option) gomap \<Rightarrow> (string, string) gomap" where
  "merge_patch doc patch =
     foldl (\<lambda>d (k, v). case v of None \<Rightarrow> AList.delete k d | Some x \<Rightarrow> AList.update k x d) doc patch"

lemma merge_patch_lookup:
  "distinct (map fst patch) \<Longrightarrow>
     map_of (merge_patch doc patch) k = (case map_of patch k of None \<Rightarrow> map_of doc k | Some v \<Rightarrow> v)"
  unfolding merge_patch_def
proof (induction patch arbitrary: doc)
  case (Cons kv patch)
  obtain k' v where kv: "kv = (k', v)" by (cases kv)
  show ?case
  proof (cases "k = k'")
    case True
    with Cons.prems kv have "map_of patch k = None" by (simp add: map_of_eq_None_iff)
    with Cons kv True show ?thesis by (simp split: option.split)
  next
    case False
    with Cons kv show ?thesis by (simp split: option.split)
  qed
qed simp

lemma cleared_fields:
  fixes st :: "(string, string option) gomap"
  assumes "distinct (map fst st)"
  defines "clear \<equiv> foldl (\<lambda>st key. if map_of st key = None then AList.update key None st else st)"
  shows "distinct (map fst (clear st keys)) \<and>
    map_of (clear st keys) k = (case map_of st k of Some v \<Rightarrow> Some v | None \<Rightarrow> if k \<in> set keys then Some None else None)"
  using assms(1) unfolding clear_def
proof (induction keys arbitrary: st)
  case (Cons key keys)
  let ?st = "if map_of st key = None then AList.update key None st else st"
  have "distinct (map fst ?st)" using Cons.prems by (simp add: distinct_update)
  from Cons.IH [OF this] show ?case by (auto split: option.split)
qed (simp split: option.split)

text \<open>
  The status patch is exact. Merged into the fields of the current status it gives the fields of
  the desired status: optional fields the desired status leaves out are cleared, and the patch
  requires the resource version it was computed from.
\<close>

theorem status_patch_exact:
  assumes "topologyStatusPatch api current desired = Inr patch"
    and "sa_unstructured api desired = Inr status" "sa_unstructured api (tp_status current) = Inr previous"
    and "distinct (map fst status)"
  shows "map_of (merge_patch previous (spa_status patch)) = map_of status \<and>
    spa_version patch = meta_resource_version (tp_meta current)"
proof -
  let ?st = "map (\<lambda>(k, v). (k, Some v)) status"
  have p: "spa_status patch = foldl (\<lambda>st key. if map_of st key = None then AList.update key None st else st) ?st (map fst previous)"
    "spa_version patch = meta_resource_version (tp_meta current)"
    using assms(1-3) by (auto simp: topologyStatusPatch_def)
  have "map fst ?st = map fst status" by (simp add: split_def comp_def)
  then have "distinct (map fst ?st)" using assms(4) by (simp only:)
  note c = cleared_fields [OF this, where keys = "map fst previous", folded p(1)]
  have look: "map_of ?st k = map_option Some (map_of status k)" for k by (induction status) auto
  have "map_of (merge_patch previous (spa_status patch)) k = map_of status k" for k
  proof (cases "map_of status k")
    case None
    have "k \<in> set (map fst previous) \<longleftrightarrow> map_of previous k \<noteq> None" by (simp add: map_of_eq_None_iff)
    with c [of k] None show ?thesis by (cases "map_of previous k") (simp_all add: merge_patch_lookup look)
  next
    case (Some v)
    with c [of k] show ?thesis by (simp add: merge_patch_lookup look)
  qed
  with p(2) show ?thesis by auto
qed

section \<open>The status write\<close>

text \<open>The answer to a status patch carries the patched status.\<close>

definition keeps_patched_status :: "status_api \<Rightarrow> bool" where
  "keeps_patched_status api \<longleftrightarrow> (\<forall>calls current patch stored. sa_patch api calls current patch = Inr stored \<longrightarrow>
     tp_status stored = tp_status current)"

lemma status_attempt_updated:
  assumes "keeps_patched_status api" "status_attempt api t desired refresh calls = (err, Some u, calls')"
  shows "tp_status u = desired \<and> err = None"
  using assms
  by (auto simp: status_attempt_def Let_def keeps_patched_status_def split: if_splits sum.splits prod.splits)

lemma status_retry_updated:
  assumes "keeps_patched_status api" "status_retry api t desired retries refresh calls = (err, Some u, calls')"
  shows "tp_status u = desired \<and> err = None"
  using assms(2)
proof (induction retries arbitrary: refresh calls)
  case 0
  with status_attempt_updated [OF assms(1)] show ?case by simp
next
  case (Suc retries)
  obtain e w c where a: "status_attempt api t desired refresh calls = (e, w, c)" by (metis prod_cases3)
  show ?case
  proof (cases "e = Some Conflict")
    case True
    with Suc a show ?thesis by simp
  next
    case False
    then have "status_retry api t desired (Suc retries) refresh calls = (e, w, c)"
      using a by (cases e) (auto split: api_error.split)
    with Suc.prems have "w = Some u" "err = e" by simp_all
    with status_attempt_updated [OF assms(1), of t desired refresh calls e u c] a show ?thesis by simp
  qed
qed

lemma updateTopologyStatus_effect:
  assumes "keeps_patched_status api" "updateTopologyStatus api retries writes t desired = (err, t', writes', calls)"
  shows "(t' = t \<or> tp_status t' = desired) \<and> tp_uid t' = tp_uid t \<and> tp_namespace t' = tp_namespace t \<and> tp_name t' = tp_name t \<and>
    meta_generation (tp_meta t') = meta_generation (tp_meta t) \<and> tp_spec t' = tp_spec t"
proof -
  obtain e w c where r: "status_retry api t desired retries (meta_resource_version (tp_meta t) = '''') [] = (e, w, c)"
    by (metis prod_cases3)
  show ?thesis
  proof (cases w)
    case None
    with assms(2) r show ?thesis by (auto simp: updateTopologyStatus_def split: if_splits option.splits)
  next
    case (Some u)
    with status_retry_updated [OF assms(1)] r have "tp_status u = desired" "e = None" by auto
    with assms(2) r Some show ?thesis by (auto simp: updateTopologyStatus_def Let_def split: if_splits)
  qed
qed

text \<open>A write that reports neither an error nor an updated object met another generation or another object.\<close>

definition object_replaced :: "status_api \<Rightarrow> topology \<Rightarrow> bool" where
  "object_replaced api t \<longleftrightarrow> (\<exists>calls current. sa_get api calls = Inr current \<and>
     (tp_uid current \<noteq> tp_uid t \<or> meta_generation (tp_meta current) \<noteq> meta_generation (tp_meta t)))"

lemma status_attempt_skipped:
  "status_attempt api t desired refresh calls = (None, None, calls') \<Longrightarrow> object_replaced api t"
  by (auto simp: status_attempt_def Let_def object_replaced_def split: if_splits sum.splits prod.splits)

lemma status_retry_skipped:
  "status_retry api t desired retries refresh calls = (None, None, calls') \<Longrightarrow> object_replaced api t"
proof (induction retries arbitrary: refresh calls)
  case 0
  then show ?case using status_attempt_skipped by simp
next
  case (Suc retries)
  obtain e w c where a: "status_attempt api t desired refresh calls = (e, w, c)" by (metis prod_cases3)
  show ?case
  proof (cases e)
    case None
    with Suc.prems a show ?thesis using status_attempt_skipped by simp
  next
    case (Some x)
    with Suc a show ?thesis by (cases x) auto
  qed
qed

text \<open>
  A write without error: the status is the desired one, the object was replaced, or only the ready
  count differs and the difference is marked pending.
\<close>

lemma updateTopologyStatus_done:
  assumes "keeps_patched_status api" "updateTopologyStatus api retries writes t desired = (None, t', writes', calls)"
  shows "tp_status t' = desired \<or> object_replaced api t \<or>
    (tp_status t)\<lparr> tst_ready_node_count := tst_ready_node_count desired \<rparr> = desired \<and> t' = t \<and>
    statusProgressDelay (sa_checked_at api) writes t > 0 \<and> writes' = setStatusProgressPending writes t True"
proof -
  obtain e w c where r: "status_retry api t desired retries (meta_resource_version (tp_meta t) = '''') [] = (e, w, c)"
    by (metis prod_cases3)
  show ?thesis
  proof (cases w)
    case None
    with assms(2) r show ?thesis using status_retry_skipped [of api t desired retries _ "[]" c]
      by (auto simp: updateTopologyStatus_def split: if_splits option.splits)
  next
    case (Some u)
    with status_retry_updated [OF assms(1)] r have "tp_status u = desired" "e = None" by auto
    with assms(2) r Some show ?thesis by (auto simp: updateTopologyStatus_def Let_def split: if_splits)
  qed
qed

text \<open>A pending difference is due within the coalescing interval.\<close>

lemma pending_delay_bounded:
  assumes "statusProgressDelay now writes t > 0" "0 < now" "sw_at (status_write writes t) \<le> now'"
  shows "0 < pendingStatusDelay now' (setStatusProgressPending writes t True) t \<and>
    pendingStatusDelay now' (setStatusProgressPending writes t True) t \<le> topologyProgressInterval"
proof (cases "map_of writes (tp_namespace t, tp_name t)")
  case None
  with assms(1,2) show ?thesis
    by (simp add: statusProgressDelay_def status_write_def zero_write_def topologyProgressInterval_def Let_def split: if_splits)
next
  case (Some w)
  with assms(1,3) show ?thesis
    by (simp add: statusProgressDelay_def pendingStatusDelay_def status_write_def setStatusProgressPending_def
        topologyProgressInterval_def Let_def split: if_splits)
qed

lemma reconcileStatus_effect:
  assumes "keeps_patched_status api" "reconcileStatusWithError api retries writes t compiled topologyError = (err, t', writes', calls)"
  shows "t' = t \<or> (\<exists>ownedNodes. sa_nodes api = Inr ownedNodes \<and>
    tp_status t' = desired_status api t compiled topologyError ownedNodes)"
  using assms(2) updateTopologyStatus_effect [OF assms(1)]
  by (auto simp: reconcileStatusWithError_def split: sum.splits)

text \<open>
  The life of a Topology: status passes of any outcome, over any compilation, Nodes and error, and
  between them edits that leave the status subresource alone.
\<close>

inductive status_run :: "topology \<Rightarrow> topology \<Rightarrow> bool" where
  start: "status_run t t"
| edit: "status_run t u \<Longrightarrow> tp_status v = tp_status u \<Longrightarrow> status_run t v"
| pass: "status_run t u \<Longrightarrow> keeps_patched_status api \<Longrightarrow>
    reconcileStatusWithError api retries writes u compiled topologyError = (err, v, writes', calls) \<Longrightarrow> status_run t v"

definition ever_ran :: "topology \<Rightarrow> bool" where
  "ever_ran t \<longleftrightarrow> tst_state (tp_status t) \<in> {TopologyStateRunning, TopologyStateDegraded}"

definition status_consistent :: "topology_status \<Rightarrow> bool" where
  "status_consistent s \<longleftrightarrow> (tst_state s = TopologyStateRunning \<longleftrightarrow> tst_ready s) \<and>
     (tst_ready s \<longrightarrow> tst_error s = '''' \<and> 0 < tst_node_count s \<and> tst_ready_node_count s = tst_node_count s)"

lemma desired_status_lifecycle:
  "status_consistent (desired_status api t compiled topologyError ownedNodes)"
  "ever_ran t \<Longrightarrow> tst_state (desired_status api t compiled topologyError ownedNodes) \<in> {TopologyStateRunning, TopologyStateDegraded}"
  "tst_state (desired_status api t compiled topologyError ownedNodes) \<noteq> TopologyStateDeployFailed"
  by (auto simp: desired_status_def Let_def status_consistent_def resolveTopologyState_def ever_ran_def)


section \<open>Sample passes\<close>

definition sample_status_api :: "node list \<Rightarrow> status_api" where
  "sample_status_api nodes = \<lparr> sa_nodes = Inr nodes, sa_get = (\<lambda>calls. Inl NotFound), sa_patch = (\<lambda>calls current patch. Inr current),
     sa_unstructured = (\<lambda>s. Inr ((''kind'', tst_kind s) # (if tst_error s = '''' then [] else [(''error'', tst_error s)]))),
     sa_set_condition = (\<lambda>cs c. [c]), sa_checked_at = 1000000000, sa_written_at = 1000000000, sa_requeued_at = 1000000001 \<rparr>"

definition sample_one_node :: CompiledTopology where
  "sample_one_node = \<lparr> ct_kind = ''containerlab'', ct_nodes = [(''a'', '''')], ct_links = [] \<rparr>"

definition sample_ready_node :: node where
  "sample_ready_node = (sample_owned ''a'' [])\<lparr> nd_status := \<lparr> nst_readiness = ''ready'', nst_observed = '''' \<rparr> \<rparr>"

definition sample_running :: topology where
  "sample_running = fst (snd (reconcileStatus (sample_status_api [sample_ready_node]) 4 [] sample_topology sample_one_node))"

definition sample_degraded :: topology where
  "sample_degraded = fst (snd (reconcileStatus (sample_status_api []) 4 [] sample_running sample_one_node))"

lemma sample_status_keeps: "keeps_patched_status (sample_status_api nodes)"
  by (simp add: keeps_patched_status_def sample_status_api_def)

lemma reconcileStatus_run:
  assumes "keeps_patched_status api" "status_run t u"
  shows "status_run t (fst (snd (reconcileStatus api retries writes u compiled)))"
proof -
  obtain e v w c where "reconcileStatusWithError api retries writes u compiled '''' = (e, v, w, c)" by (metis prod_cases4)
  with status_run.pass [OF assms(2,1) this] show ?thesis by (simp add: reconcileStatus_def)
qed


theorem status_patch_exact_witness:
  "topologyStatusPatch (sample_status_api []) (sample_topology\<lparr> tp_status := (tp_status sample_topology)\<lparr> tst_error := ''old'' \<rparr> \<rparr>)
     (tp_status sample_topology) = Inr \<lparr> spa_version = ''1'', spa_status = [(''kind'', Some ''containerlab''), (''error'', None)] \<rparr> \<and>
   map_of (merge_patch [(''kind'', ''containerlab''), (''error'', ''old'')] [(''kind'', Some ''containerlab''), (''error'', None)]) =
   map_of [(''kind'', ''containerlab'')]"
proof -
  let ?c = "sample_topology\<lparr> tp_status := (tp_status sample_topology)\<lparr> tst_error := ''old'' \<rparr> \<rparr>"
  have "topologyStatusPatch (sample_status_api []) ?c (tp_status sample_topology) =
      Inr \<lparr> spa_version = ''1'', spa_status = [(''kind'', Some ''containerlab''), (''error'', None)] \<rparr>"
    "sa_unstructured (sample_status_api []) (tp_status sample_topology) = Inr [(''kind'', ''containerlab'')]"
    "sa_unstructured (sample_status_api []) (tp_status ?c) = Inr [(''kind'', ''containerlab''), (''error'', ''old'')]"
    "distinct (map fst [(''kind'', ''containerlab'')])" by code_simp+
  from status_patch_exact [OF this] this(1) show ?thesis by simp
qed

end
