(* ===== verification/Observation_Cache.thy ===== *)
theory Observation_Cache
  imports Api_Types
begin

text \<open>
  The cache of desired-state observations the controllers keep between events
  (\<open>src/controllers/observationcache.go\<close>): epochs per key, the test that tells input changes from
  status noise, and the event handlers that invalidate.
\<close>

section \<open>Definitions\<close>

type_synonym object_key = "string \<times> string"

text \<open>
  \<open>ObservationCache[T]\<close>. The value of an entry that was never stored is the zero value of \<open>T\<close>, here
  \<open>None\<close>. The counter of epochs is a \<open>uint64\<close>.
\<close>

record 'v observationEntry =
  oe_token :: "64 word"
  oe_value :: "'v option"
  oe_valid :: bool

record 'v ObservationCache =
  oc_next :: "64 word"
  oc_entries :: "(object_key, 'v observationEntry) gomap"

definition Load :: "'v ObservationCache \<Rightarrow> object_key
    \<Rightarrow> 'v option \<times> 64 word \<times> bool \<times> 'v ObservationCache" where
  "Load c key =
     (case map_of (oc_entries c) key of
        Some e \<Rightarrow> (oe_value e, oe_token e, oe_valid e, c)
      | None \<Rightarrow>
          let next = oc_next c + 1; e = \<lparr> oe_token = next, oe_value = None, oe_valid = False \<rparr> in
          (oe_value e, oe_token e, oe_valid e,
           c\<lparr> oc_next := next, oc_entries := AList.update key e (oc_entries c) \<rparr>))"

definition Store :: "'v ObservationCache \<Rightarrow> object_key \<Rightarrow> 64 word \<Rightarrow> 'v \<Rightarrow> 'v ObservationCache" where
  "Store c key token value =
     (case map_of (oc_entries c) key of
        None \<Rightarrow> c
      | Some e \<Rightarrow>
          if oe_token e = token
          then c\<lparr> oc_entries := AList.update key \<lparr> oe_token = token, oe_value = Some value, oe_valid = True \<rparr> (oc_entries c) \<rparr>
          else c)"

definition Invalidate :: "'v ObservationCache \<Rightarrow> object_key \<Rightarrow> 'v ObservationCache" where
  "Invalidate c key = c\<lparr> oc_entries := AList.delete key (oc_entries c) \<rparr>"

text \<open>
  The Kubernetes objects \<open>DesiredStateChanged\<close> compares, by concrete type. Specs and statuses it
  compares as a whole are opaque. \<open>apiequality.Semantic.DeepEqual\<close> does not distinguish an absent map
  from an empty one, so maps are compared by their entries.
\<close>

datatype kube_payload =
    PayloadConfigMap "(string, string) gomap" "(string, string) gomap" "bool option"
  | PayloadSecret string "(string, string) gomap" "bool option"
  | PayloadService string string
  | PayloadSpec string string
  | PayloadBare string

record kube_object =
  ko_meta :: object_meta
  ko_payload :: kube_payload

definition object_key_of :: "kube_object \<Rightarrow> object_key" where
  "object_key_of obj = (meta_namespace (ko_meta obj), meta_name (ko_meta obj))"

fun same_type :: "kube_payload \<Rightarrow> kube_payload \<Rightarrow> bool" where
  "same_type (PayloadConfigMap _ _ _) (PayloadConfigMap _ _ _) = True"
| "same_type (PayloadSecret _ _ _) (PayloadSecret _ _ _) = True"
| "same_type (PayloadService _ _) (PayloadService _ _) = True"
| "same_type (PayloadSpec kind _) (PayloadSpec kind' _) = (kind = kind')"
| "same_type (PayloadBare kind) (PayloadBare kind') = (kind = kind')"
| "same_type _ _ = False"

fun payload_changed :: "kube_payload \<Rightarrow> kube_payload \<Rightarrow> bool" where
  "payload_changed (PayloadConfigMap d b i) (PayloadConfigMap d' b' i') = (\<not> gm_eq d d' \<or> \<not> gm_eq b b' \<or> i \<noteq> i')"
| "payload_changed (PayloadSecret t d i) (PayloadSecret t' d' i') = (t \<noteq> t' \<or> \<not> gm_eq d d' \<or> i \<noteq> i')"
| "payload_changed (PayloadService s st) (PayloadService s' st') = (s \<noteq> s' \<or> st \<noteq> st')"
| "payload_changed (PayloadSpec _ s) (PayloadSpec _ s') = (s \<noteq> s')"
| "payload_changed _ _ = False"

definition objectMetadataChanged :: "object_meta \<Rightarrow> object_meta \<Rightarrow> bool" where
  "objectMetadataChanged old current \<longleftrightarrow>
     meta_uid old \<noteq> meta_uid current \<or> meta_generation old \<noteq> meta_generation current \<or>
     \<not> gm_eq (meta_labels old) (meta_labels current) \<or> \<not> gm_eq (meta_annotations old) (meta_annotations current) \<or>
     meta_owners old \<noteq> meta_owners current \<or> meta_deletion old \<noteq> meta_deletion current"

definition DesiredStateChanged :: "kube_object option \<Rightarrow> kube_object option \<Rightarrow> bool" where
  "DesiredStateChanged old current =
     (case (old, current) of
        (Some o1, Some o2) \<Rightarrow>
          \<not> same_type (ko_payload o1) (ko_payload o2) \<or> objectMetadataChanged (ko_meta o1) (ko_meta o2) \<or>
          payload_changed (ko_payload o1) (ko_payload o2)
      | _ \<Rightarrow> True)"

datatype watch_event =
    CreateEvent "kube_object option"
  | UpdateEvent "kube_object option" "kube_object option"
  | DeleteEvent "kube_object option"
  | GenericEvent "kube_object option"

text \<open>\<open>mark\<close> and \<open>ObservationPredicate\<close>, whose functions all return \<open>true\<close>: no event is filtered out.\<close>

definition mark :: "'v ObservationCache \<Rightarrow> kube_object option \<Rightarrow> 'v ObservationCache" where
  "mark c obj = (case obj of None \<Rightarrow> c | Some o' \<Rightarrow> Invalidate c (object_key_of o'))"

fun ObservationPredicate :: "'v ObservationCache \<Rightarrow> watch_event \<Rightarrow> bool \<times> 'v ObservationCache" where
  "ObservationPredicate c (CreateEvent obj) = (True, mark c obj)"
| "ObservationPredicate c (UpdateEvent old new) = (True, if DesiredStateChanged old new then mark c new else c)"
| "ObservationPredicate c (DeleteEvent obj) = (True, mark c obj)"
| "ObservationPredicate c (GenericEvent obj) = (True, mark c obj)"

text \<open>
  \<open>ObserveWith\<close> around a handler that maps an event to the requests it adds: the wrapped queue
  invalidates the key of every request it is given.
\<close>

fun event_is_input :: "watch_event \<Rightarrow> bool" where
  "event_is_input (UpdateEvent old new) = DesiredStateChanged old new"
| "event_is_input _ = True"

definition invalidating_add :: "'v ObservationCache \<times> object_key list \<Rightarrow> object_key \<Rightarrow> 'v ObservationCache \<times> object_key list" where
  "invalidating_add s request = (Invalidate (fst s) request, snd s @ [request])"

definition ObserveWith :: "(watch_event \<Rightarrow> object_key list) \<Rightarrow> watch_event
    \<Rightarrow> 'v ObservationCache \<times> object_key list \<Rightarrow> 'v ObservationCache \<times> object_key list" where
  "ObserveWith handler e s =
     (if event_is_input e then foldl invalidating_add s (handler e)
      else (fst s, snd s @ handler e))"

section \<open>The contract of an epoch cache\<close>

text \<open>
  Interleavings of reconciles and events are sequences of operations. \<open>run_cache\<close> takes the cache's
  operations as arguments.
\<close>

datatype ('k, 't, 'v) cache_op = OpLoad 'k | OpStore 'k 't 'v | OpInvalidate 'k

fun run_cache :: "('c \<Rightarrow> 'k \<Rightarrow> 'c) \<Rightarrow> ('c \<Rightarrow> 'k \<Rightarrow> 't \<Rightarrow> 'v \<Rightarrow> 'c) \<Rightarrow> ('c \<Rightarrow> 'k \<Rightarrow> 'c)
    \<Rightarrow> ('k, 't, 'v) cache_op list \<Rightarrow> 'c \<Rightarrow> 'c" where
  "run_cache ld st inval [] c = c"
| "run_cache ld st inval (OpLoad k # ops) c = run_cache ld st inval ops (ld c k)"
| "run_cache ld st inval (OpStore k t v # ops) c = run_cache ld st inval ops (st c k t v)"
| "run_cache ld st inval (OpInvalidate k # ops) c = run_cache ld st inval ops (inval c k)"

text \<open>
  What a client relies on: a key has at most one open epoch, epochs are numbered by a clock that
  stays below \<open>bound\<close>, opening one draws a new number, storing never opens or closes one and does
  nothing for a closed one, and invalidating closes the key's epoch.
\<close>

locale epoch_cache =
  fixes epoch :: "'c \<Rightarrow> 'k \<Rightarrow> 't option" and number :: "'t \<Rightarrow> nat" and clock :: "'c \<Rightarrow> nat" and bound :: nat
    and ld :: "'c \<Rightarrow> 'k \<Rightarrow> 'c" and st :: "'c \<Rightarrow> 'k \<Rightarrow> 't \<Rightarrow> 'v \<Rightarrow> 'c" and inval :: "'c \<Rightarrow> 'k \<Rightarrow> 'c"
  assumes ld_other: "j \<noteq> k \<Longrightarrow> epoch (ld c k) j = epoch c j"
    and ld_open: "epoch c k = Some t \<Longrightarrow> epoch (ld c k) k = Some t"
    and ld_new: "epoch c k = None \<Longrightarrow> Suc (clock c) < bound \<Longrightarrow>
      \<exists>t. epoch (ld c k) k = Some t \<and> number t = Suc (clock c)"
    and ld_clock: "Suc (clock c) < bound \<Longrightarrow> clock c \<le> clock (ld c k) \<and> clock (ld c k) \<le> Suc (clock c)"
    and st_epoch: "epoch (st c k t v) j = epoch c j" "clock (st c k t v) = clock c"
    and st_closed: "epoch c k \<noteq> Some t \<Longrightarrow> st c k t v = c"
    and inval_epoch: "epoch (inval c k) j = (if j = k then None else epoch c j)" "clock (inval c k) = clock c"
begin

lemma later_epoch:
  assumes "clock c + length ops < bound" "n \<le> clock c"
    and "case epoch c k of None \<Rightarrow> True | Some t' \<Rightarrow> n < number t'"
  shows "case epoch (run_cache ld st inval ops c) k of None \<Rightarrow> True | Some t' \<Rightarrow> n < number t'"
  using assms
proof (induction ops arbitrary: c)
  case (Cons x ops)
  show ?case
  proof (cases x)
    case (OpLoad j)
    have clk: "clock c \<le> clock (ld c j)" "clock (ld c j) \<le> Suc (clock c)" using ld_clock [of c j] Cons.prems(1) by auto
    have "case epoch (ld c j) k of None \<Rightarrow> True | Some t' \<Rightarrow> n < number t'"
    proof (cases "j = k")
      case False
      with Cons.prems(3) show ?thesis by (simp add: ld_other)
    next
      case True
      show ?thesis
      proof (cases "epoch c k")
        case None
        with ld_new [of c k] Cons.prems(1,2) True show ?thesis by auto
      next
        case (Some t')
        with ld_open [of c k] Cons.prems(3) True show ?thesis by simp
      qed
    qed
    with Cons.IH [of "ld c j"] Cons.prems clk OpLoad show ?thesis by simp
  next
    case (OpStore j t v)
    with Cons.IH [of "st c j t v"] Cons.prems show ?thesis by (simp add: st_epoch)
  next
    case (OpInvalidate j)
    with Cons.IH [of "inval c j"] Cons.prems show ?thesis by (cases "j = k") (simp_all add: inval_epoch)
  qed
qed simp

lemma clock_run:
  assumes "clock c + length ops < bound"
  shows "clock c \<le> clock (run_cache ld st inval ops c) \<and> clock (run_cache ld st inval ops c) \<le> clock c + length ops"
  using assms
proof (induction ops arbitrary: c)
  case (Cons x ops)
  have le: "clock c \<le> clock (ld c j)" "clock (ld c j) \<le> Suc (clock c)" for j
    using ld_clock [of c j] Cons.prems by auto
  show ?case
  proof (cases x)
    case (OpLoad j)
    with Cons.IH [of "ld c j"] le [of j] Cons.prems show ?thesis by simp
  next
    case (OpStore j t v)
    with Cons.IH [of "st c j t v"] Cons.prems show ?thesis by (simp add: st_epoch)
  next
    case (OpInvalidate j)
    with Cons.IH [of "inval c j"] Cons.prems show ?thesis by (simp add: inval_epoch)
  qed
qed simp

text \<open>A result computed in an epoch that was closed since is not stored.\<close>

lemma stale_store:
  assumes "epoch c k = Some t" "number t \<le> clock c" "OpInvalidate k \<in> set ops" "clock c + length ops < bound"
  shows "st (run_cache ld st inval ops c) k t v = run_cache ld st inval ops c"
proof -
  from assms(3) obtain before after where ops: "ops = before @ OpInvalidate k # after" by (meson split_list)
  define c1 where "c1 = run_cache ld st inval before c"
  have split: "run_cache ld st inval (xs @ ys) c = run_cache ld st inval ys (run_cache ld st inval xs c)" for xs ys c
    by (induction ld st inval xs c rule: run_cache.induct) simp_all
  have clk: "clock c \<le> clock c1" "clock c1 \<le> clock c + length before"
    using clock_run [of c before] assms(4) by (simp_all add: c1_def ops)
  have "case epoch (run_cache ld st inval after (inval c1 k)) k of None \<Rightarrow> True | Some t' \<Rightarrow> number t < number t'"
    by (rule later_epoch) (use clk assms(2,4) in \<open>simp_all add: inval_epoch ops\<close>)
  moreover have "run_cache ld st inval ops c = run_cache ld st inval after (inval c1 k)"
    by (simp add: ops split c1_def)
  ultimately have "epoch (run_cache ld st inval ops c) k \<noteq> Some t" by auto
  then show ?thesis by (rule st_closed)
qed

end

section \<open>The observation cache is an epoch cache\<close>

definition open_epoch :: "'v ObservationCache \<Rightarrow> object_key \<Rightarrow> 64 word option" where
  "open_epoch c key = map_option oe_token (map_of (oc_entries c) key)"

definition load_state :: "'v ObservationCache \<Rightarrow> object_key \<Rightarrow> 'v ObservationCache" where
  "load_state c key = snd (snd (snd (Load c key)))"

lemma unat_next: "Suc (unat (oc_next c)) < 2 ^ 64 \<Longrightarrow> unat (oc_next c + 1) = Suc (unat (oc_next c))"
  by (simp add: unat_plus_if')

lemma epoch_load:
  "open_epoch (load_state c k) j =
     (if j = k \<and> open_epoch c k = None then Some (oc_next c + 1) else open_epoch c j)"
  "oc_next (load_state c k) = (if open_epoch c k = None then oc_next c + 1 else oc_next c)"
  by (auto simp: load_state_def Load_def open_epoch_def Let_def split: option.splits)

lemma epoch_store:
  "open_epoch (Store c k t v) j = open_epoch c j" "oc_next (Store c k t v) = oc_next c"
  "open_epoch c k \<noteq> Some t \<Longrightarrow> Store c k t v = c"
  by (auto simp: Store_def open_epoch_def split: option.splits)

lemma epoch_invalidate:
  "open_epoch (Invalidate c k) j = (if j = k then None else open_epoch c j)" "oc_next (Invalidate c k) = oc_next c"
  by (simp_all add: Invalidate_def open_epoch_def)

interpretation observations: epoch_cache open_epoch unat "\<lambda>c. unat (oc_next c)" "2 ^ 64" load_state Store Invalidate
  by unfold_locales (auto simp: epoch_load epoch_store epoch_invalidate unat_next)

section \<open>Properties\<close>

text \<open>Every open epoch carries a number the counter has already given out.\<close>

definition cache_wf :: "'v ObservationCache \<Rightarrow> bool" where
  "cache_wf c \<longleftrightarrow> (\<forall>e \<in> snd ` set (oc_entries c). unat (oe_token e) \<le> unat (oc_next c))"

text \<open>Controller steps: a reconcile loads or stores, and an event passes the predicate.\<close>

datatype 'v controller_step = StepLoad object_key | StepStore object_key "64 word" 'v | StepEvent watch_event

fun event_keys :: "watch_event \<Rightarrow> object_key list" where
  "event_keys (CreateEvent obj) = (case obj of None \<Rightarrow> [] | Some o' \<Rightarrow> [object_key_of o'])"
| "event_keys (UpdateEvent old new) =
     (if DesiredStateChanged old new then (case new of None \<Rightarrow> [] | Some o' \<Rightarrow> [object_key_of o']) else [])"
| "event_keys (DeleteEvent obj) = (case obj of None \<Rightarrow> [] | Some o' \<Rightarrow> [object_key_of o'])"
| "event_keys (GenericEvent obj) = (case obj of None \<Rightarrow> [] | Some o' \<Rightarrow> [object_key_of o'])"

fun cache_step :: "'v controller_step \<Rightarrow> 'v ObservationCache \<Rightarrow> 'v ObservationCache" where
  "cache_step (StepLoad k) c = load_state c k"
| "cache_step (StepStore k t v) c = Store c k t v"
| "cache_step (StepEvent e) c = snd (ObservationPredicate c e)"

fun step_ops :: "'v controller_step \<Rightarrow> (object_key, 64 word, 'v) cache_op list" where
  "step_ops (StepLoad k) = [OpLoad k]"
| "step_ops (StepStore k t v) = [OpStore k t v]"
| "step_ops (StepEvent e) = map OpInvalidate (event_keys e)"

lemma predicate_invalidates: "snd (ObservationPredicate c e) = foldl Invalidate c (event_keys e)"
  by (cases e) (auto simp: mark_def split: option.split)

lemma cache_step_ops: "cache_step x c = run_cache load_state Store Invalidate (step_ops x) c"
proof (cases x)
  case (StepEvent e)
  have "run_cache load_state Store Invalidate (map OpInvalidate ks) c = foldl Invalidate c ks" for ks
    by (induction ks arbitrary: c) simp_all
  then show ?thesis by (simp add: StepEvent predicate_invalidates)
qed simp_all

lemma step_ops_length: "length (step_ops x) \<le> 1"
proof -
  have "length (event_keys e) \<le> 1" for e by (cases e) (auto split: option.split)
  then show ?thesis by (cases x) simp_all
qed

lemma run_cache_append:
  "run_cache ld st inval (xs @ ys) c = run_cache ld st inval ys (run_cache ld st inval xs c)"
  by (induction ld st inval xs c rule: run_cache.induct) simp_all

lemma cache_steps_ops:
  "fold cache_step steps c = run_cache load_state Store Invalidate (concat (map step_ops steps)) c"
  by (induction steps arbitrary: c) (simp_all add: cache_step_ops run_cache_append)

lemma cache_steps_length: "length (concat (map step_ops steps)) \<le> length steps"
  by (induction steps) (auto intro: order_trans [OF add_mono [OF step_ops_length]])

text \<open>
  C20: A reconcile that loaded its key before an event changed the key's input cannot publish its
  snapshot: after any interleaving of loads, stores and events that contains such an event, storing
  with the token of the load leaves the cache as it is, even when the key was opened again in
  between, as long as the 64-bit epoch counter does not wrap around.
\<close>

theorem stale_observation_not_stored:
  assumes wf: "cache_wf c" and load: "Load c key = (value, token, valid, c1)"
    and event: "StepEvent e \<in> set steps" "key \<in> set (event_keys e)"
    and no_wrap: "unat (oc_next c) + length steps + 1 < 2 ^ 64"
  shows "Store (fold cache_step steps c1) key token result = fold cache_step steps c1"
proof -
  let ?ops = "concat (map step_ops steps) :: (object_key, 64 word, 'a) cache_op list"
  have c1: "c1 = load_state c key" using load by (simp add: load_state_def)
  have open': "open_epoch c1 key = Some token"
    using load by (auto simp: open_epoch_def Load_def Let_def split: option.splits)
  have "unat token \<le> unat (oc_next c1)"
  proof (cases "map_of (oc_entries c) key")
    case None
    with load show ?thesis by (auto simp: Load_def Let_def)
  next
    case (Some e')
    with load wf show ?thesis by (force simp: Load_def cache_wf_def dest: map_of_SomeD)
  qed
  moreover have "OpInvalidate key \<in> set ?ops" using event by force
  moreover have "unat (oc_next c1) + length ?ops < 2 ^ 64"
  proof -
    have "unat (oc_next c1) \<le> Suc (unat (oc_next c))"
      using no_wrap by (simp add: c1 epoch_load unat_next)
    with no_wrap cache_steps_length [of steps] show ?thesis by simp
  qed
  ultimately show ?thesis
    unfolding cache_steps_ops using observations.stale_store [OF open', of ?ops result] by simp
qed

definition sample_object :: "string \<Rightarrow> kube_object" where
  "sample_object spec = \<lparr> ko_meta = sample_meta ''topo'', ko_payload = PayloadSpec ''Topology'' spec \<rparr>"

definition sample_cache :: "string ObservationCache" where
  "sample_cache = \<lparr> oc_next = 0, oc_entries = [] \<rparr>"

theorem stale_observation_not_stored_witness:
  "\<exists>c1. Load sample_cache (''lab'', ''topo'') = (None, 1, False, c1) \<and>
     Store (fold cache_step [StepEvent (UpdateEvent (Some (sample_object ''v1'')) (Some (sample_object ''v2''))),
         StepLoad (''lab'', ''topo'')] c1) (''lab'', ''topo'') 1 ''old'' =
       fold cache_step [StepEvent (UpdateEvent (Some (sample_object ''v1'')) (Some (sample_object ''v2''))),
         StepLoad (''lab'', ''topo'')] c1"
proof -
  let ?e = "UpdateEvent (Some (sample_object ''v1'')) (Some (sample_object ''v2''))"
  obtain c1 where c1: "Load sample_cache (''lab'', ''topo'') = (None, 1, False, c1)"
    by (simp add: Load_def sample_cache_def Let_def)
  let ?steps = "[StepEvent ?e, StepLoad (''lab'', ''topo'')] :: string controller_step list"
  have wf: "cache_wf sample_cache" by (simp add: cache_wf_def sample_cache_def)
  have room: "unat (oc_next sample_cache) + length ?steps + 1 < 2 ^ 64" by (simp add: sample_cache_def)
  have key: "(''lab'', ''topo'') \<in> set (event_keys ?e)"
    by (simp add: sample_object_def DesiredStateChanged_def object_key_of_def sample_meta_def)
  have mem: "StepEvent ?e \<in> set ?steps" by simp
  have "Store (fold cache_step ?steps c1) (''lab'', ''topo'') 1 ''old'' = fold cache_step ?steps c1"
    by (rule stale_observation_not_stored [OF wf c1 mem key room])
  with c1 show ?thesis by blast
qed

end
