(* ===== verification/Topology_Reconcile.thy ===== *)
theory Topology_Reconcile
  imports Topology_Rollout Topology_Emit Topology_Status Observation_Cache
begin

text \<open>
  The topology controller (\<open>Reconcile\<close> and \<open>observeTopology\<close> of \<open>src/controllers/topology/reconcile.go\<close>):
  the observation cache, compilation, conflict detection, the three emit passes, the startup batch
  and the status, composed as the code composes them.
\<close>

section \<open>Definitions\<close>

record topologyObservation =
  to_topology :: topology
  to_compiled :: CompiledTopology
  to_checked_at :: int

text \<open>The state of a reconciler: the optional observation cache and the status writes.\<close>

record topology_reconciler =
  tr_observations :: "topologyObservation ObservationCache option"
  tr_writes :: status_writes

text \<open>
  What one pass is answered: the object itself, the compiler and the renderer
  (\<open>CompileTopology\<close>, \<open>RenderAll\<close>), the metadata lists of the conflict check, the lists and the calls of
  the three emit passes, the startup batch, the status write, the retries of \<open>RetryOnConflict\<close>, and the
  clock when the cache is read and written.
\<close>

record topology_env =
  te_get :: "api_error + topology"
  te_compile :: "topology \<Rightarrow> api_error + CompiledTopology"
  te_render :: "topology \<Rightarrow> CompiledTopology \<Rightarrow> api_error + renderedChildren"
  te_lister :: "string \<Rightarrow> api_error + object_meta list"
  te_profiles_api :: "node_profile emit_api"
  te_profiles :: "api_error + node_profile list"
  te_links_api :: "link emit_api"
  te_links :: "api_error + link list"
  te_nodes_api :: "node emit_api"
  te_nodes :: "api_error + node list"
  te_rollout :: rollout_api
  te_status :: status_api
  te_retries :: nat
  te_loaded_at :: int
  te_stored_at :: int

datatype topology_error = InvalidBatchSize | TopologyApiError api_error | TopologyRolloutError rollout_error

text \<open>The calls of one pass, by the object they go to; the passes send them in this order.\<close>

record topology_calls =
  tc_profiles :: "node_profile emitted_call list"
  tc_links :: "link emitted_call list"
  tc_nodes :: "node emitted_call list"
  tc_patches :: "node patches"
  tc_status :: "status_call list"

definition no_calls :: topology_calls where
  "no_calls = \<lparr> tc_profiles = [], tc_links = [], tc_nodes = [], tc_patches = [], tc_status = [] \<rparr>"

record topology_result =
  tres_error :: "topology_error option"
  tres_requeue :: int
  tres_topology :: topology
  tres_state :: topology_reconciler
  tres_calls :: topology_calls

definition topologyChildConflictRequeueAfter :: int where
  "topologyChildConflictRequeueAfter = 10000000000"

definition formatChildResourceConflicts :: "string \<Rightarrow> string list \<Rightarrow> string" where
  "formatChildResourceConflicts namespace conflicts =
     ''duplicate resources found in the '' @ namespace @ '' namespace: '' @ join conflicts '', '' @ [CHR 0x0A] @
     ''create the topology in a different namespace or disambiguate node names.''"

definition observeTopology :: "topology_env \<Rightarrow> topology_reconciler \<Rightarrow> topology_calls \<Rightarrow> topology \<Rightarrow> CompiledTopology
    \<Rightarrow> topology_result" where
  "observeTopology env s calls topology compiled =
     (case advanceStartupBatch (te_rollout env) topology compiled of
        (pending, Some e, patches) \<Rightarrow>
          \<lparr> tres_error = Some (TopologyRolloutError e), tres_requeue = 0, tres_topology = topology, tres_state = s,
            tres_calls = calls\<lparr> tc_patches := patches \<rparr> \<rparr>
      | (pending, None, patches) \<Rightarrow>
          (case reconcileStatus (te_status env) (te_retries env) (tr_writes s) topology compiled of
             (err, topology', writes', scalls) \<Rightarrow>
               let requeue = (if pending then 1000000000 else 60000000000);
                   delay = pendingStatusDelay (sa_requeued_at (te_status env)) writes' topology'
               in \<lparr> tres_error = map_option TopologyApiError err,
                    tres_requeue = (if 0 < delay \<and> delay < requeue then delay else requeue), tres_topology = topology',
                    tres_state = s\<lparr> tr_writes := writes' \<rparr>,
                    tres_calls = calls\<lparr> tc_patches := patches, tc_status := scalls \<rparr> \<rparr>))"

text \<open>\<open>DesiredStateChanged\<close> on two Topologies: the metadata test and the comparison of the specs.\<close>

definition topology_changed :: "topology \<Rightarrow> topology \<Rightarrow> bool" where
  "topology_changed old current \<longleftrightarrow> objectMetadataChanged (tp_meta old) (tp_meta current) \<or> tp_spec old \<noteq> tp_spec current"

definition topology_key :: "topology \<Rightarrow> object_key" where
  "topology_key t = (tp_namespace t, tp_name t)"

text \<open>The cached compilation a pass may reuse, the token of the epoch and the cache afterwards.\<close>

definition load_observation :: "topology_env \<Rightarrow> topology_reconciler \<Rightarrow> topology
    \<Rightarrow> CompiledTopology option \<times> 64 word \<times> topology_reconciler" where
  "load_observation env s topology =
     (case tr_observations s of
        None \<Rightarrow> (None, 0, s)
      | Some cache \<Rightarrow>
          (case Load cache (topology_key topology) of
             (cached, token, valid, cache') \<Rightarrow>
               ((case cached of
                   None \<Rightarrow> None
                 | Some obs \<Rightarrow>
                     if valid \<and> te_loaded_at env - to_checked_at obs < 300000000000 \<and> \<not> topology_changed (to_topology obs) topology
                     then Some (to_compiled obs) else None),
                token, s\<lparr> tr_observations := Some cache' \<rparr>)))"

definition failed :: "topology_error \<Rightarrow> topology \<Rightarrow> topology_reconciler \<Rightarrow> topology_calls \<Rightarrow> topology_result" where
  "failed e topology s calls =
     \<lparr> tres_error = Some e, tres_requeue = 0, tres_topology = topology, tres_state = s, tres_calls = calls \<rparr>"

text \<open>The three emit passes, in order; a pass runs only when the one before reported no error.\<close>

definition emit_all :: "topology_env \<Rightarrow> topology \<Rightarrow> renderedChildren \<Rightarrow> api_error option \<times> topology_calls" where
  "emit_all env topology rendered =
     (case reconcileNodeProfiles (te_profiles_api env) topology (te_profiles env) (rc_profiles rendered) of
        (Some e, pcalls) \<Rightarrow> (Some e, no_calls\<lparr> tc_profiles := pcalls \<rparr>)
      | (None, pcalls) \<Rightarrow>
          (case reconcileLinks (te_links_api env) topology (te_links env) (rc_links rendered) of
             (Some e, lcalls) \<Rightarrow> (Some e, no_calls\<lparr> tc_profiles := pcalls, tc_links := lcalls \<rparr>)
           | (None, lcalls) \<Rightarrow>
               (case reconcileNodes (te_nodes_api env) topology (te_nodes env) (rc_nodes rendered) of
                  (err, ncalls) \<Rightarrow> (err, no_calls\<lparr> tc_profiles := pcalls, tc_links := lcalls, tc_nodes := ncalls \<rparr>))))"

definition store_observation :: "topology_env \<Rightarrow> 64 word \<Rightarrow> topology \<Rightarrow> CompiledTopology \<Rightarrow> topology_reconciler \<Rightarrow> topology_reconciler" where
  "store_observation env token topology compiled s =
     (case tr_observations s of
        None \<Rightarrow> s
      | Some cache \<Rightarrow> s\<lparr> tr_observations := Some (Store cache (topology_key topology) token
          \<lparr> to_topology = topology, to_compiled = compiled, to_checked_at = te_stored_at env \<rparr>) \<rparr>)"

definition Reconcile_topology :: "topology_env \<Rightarrow> topology_reconciler \<Rightarrow> topology \<Rightarrow> topology_result" where
  "Reconcile_topology env s topology =
     (if startupBatchSize topology < 0 then failed InvalidBatchSize topology s no_calls
      else case load_observation env s topology of
        (Some compiled, token, s) \<Rightarrow> observeTopology env s no_calls topology compiled
      | (None, token, s) \<Rightarrow>
          (case te_compile env topology of
             Inl e \<Rightarrow> failed (TopologyApiError e) topology s no_calls
           | Inr compiled \<Rightarrow>
               (case te_render env topology compiled of
                  Inl e \<Rightarrow> failed (TopologyApiError e) topology s no_calls
                | Inr rendered \<Rightarrow>
                    (case findChildResourceConflicts (te_lister env) topology rendered of
                       Inl e \<Rightarrow> failed (TopologyApiError e) topology s no_calls
                     | Inr conflicts \<Rightarrow>
                         if conflicts \<noteq> []
                         then (case reconcileStatusWithError (te_status env) (te_retries env) (tr_writes s) topology compiled
                                      (formatChildResourceConflicts (tp_namespace topology) conflicts) of
                                 (err, topology', writes', scalls) \<Rightarrow>
                                   \<lparr> tres_error = map_option TopologyApiError err,
                                     tres_requeue = (if err = None then topologyChildConflictRequeueAfter else 0),
                                     tres_topology = topology', tres_state = s\<lparr> tr_writes := writes' \<rparr>,
                                     tres_calls = no_calls\<lparr> tc_status := scalls \<rparr> \<rparr>)
                         else (case emit_all env topology rendered of
                                 (Some e, calls) \<Rightarrow> failed (TopologyApiError e) topology s calls
                               | (None, calls) \<Rightarrow>
                                   observeTopology env (store_observation env token topology compiled s) calls topology compiled)))))"

text \<open>The handler of a request: the error, the requeue delay and the state of the reconciler.\<close>

definition Reconcile_topology_request :: "topology_env \<Rightarrow> topology_reconciler \<Rightarrow> object_key
    \<Rightarrow> topology_error option \<times> int \<times> topology_reconciler \<times> topology_calls" where
  "Reconcile_topology_request env s key =
     (case te_get env of
        Inl e \<Rightarrow>
          if e = NotFound
          then (None, 0, \<lparr> tr_observations = map_option (\<lambda>c. Invalidate c key) (tr_observations s),
                  tr_writes = forgetStatusWrite (tr_writes s) key \<rparr>, no_calls)
          else (Some (TopologyApiError e), 0, s, no_calls)
      | Inr topology \<Rightarrow>
          if meta_deletion (tp_meta topology) \<noteq> None \<or> ShouldIgnoreReconcile (tp_meta topology) then (None, 0, s, no_calls)
          else let r = Reconcile_topology env s topology in (tres_error r, tres_requeue r, tres_state r, tres_calls r))"


section \<open>What a pass may touch\<close>

lemma observe_calls [simp]:
  "tc_profiles (tres_calls (observeTopology env s calls t compiled)) = tc_profiles calls"
  "tc_links (tres_calls (observeTopology env s calls t compiled)) = tc_links calls"
  "tc_nodes (tres_calls (observeTopology env s calls t compiled)) = tc_nodes calls"
  by (simp_all add: observeTopology_def Let_def split: prod.split option.split)

lemma failed_fields [simp]:
  "tres_calls (failed e t s calls) = calls" "tres_error (failed e t s calls) = Some e" "tres_topology (failed e t s calls) = t"
  by (simp_all add: failed_def)

lemma no_calls_fields [simp]:
  "tc_profiles no_calls = []" "tc_links no_calls = []" "tc_nodes no_calls = []" "tc_patches no_calls = []" "tc_status no_calls = []"
  by (simp_all add: no_calls_def)

lemma emit_all_order:
  assumes "emit_all env t rendered = (err, calls)"
  shows "tc_links calls \<noteq> [] \<or> tc_nodes calls \<noteq> [] \<Longrightarrow>
      fst (reconcileNodeProfiles (te_profiles_api env) t (te_profiles env) (rc_profiles rendered)) = None"
    and "tc_nodes calls \<noteq> [] \<Longrightarrow> fst (reconcileLinks (te_links_api env) t (te_links env) (rc_links rendered)) = None"
  using assms by (auto simp: emit_all_def split: prod.splits option.splits)

text \<open>The emitting branch of a pass, and the only one.\<close>

lemma Reconcile_topology_emits:
  assumes "tc_profiles (tres_calls (Reconcile_topology env s t)) \<noteq> [] \<or> tc_links (tres_calls (Reconcile_topology env s t)) \<noteq> [] \<or>
    tc_nodes (tres_calls (Reconcile_topology env s t)) \<noteq> []"
  shows "\<exists>compiled rendered err calls. 0 \<le> startupBatchSize t \<and> te_compile env t = Inr compiled \<and>
    te_render env t compiled = Inr rendered \<and> findChildResourceConflicts (te_lister env) t rendered = Inr [] \<and>
    emit_all env t rendered = (err, calls) \<and> tc_profiles (tres_calls (Reconcile_topology env s t)) = tc_profiles calls \<and>
    tc_links (tres_calls (Reconcile_topology env s t)) = tc_links calls \<and>
    tc_nodes (tres_calls (Reconcile_topology env s t)) = tc_nodes calls"
proof -
  obtain hit token s' where l: "load_observation env s t = (hit, token, s')" by (metis prod_cases3)
  have size: "0 \<le> startupBatchSize t" and miss: "hit = None"
    using assms l by (auto simp: Reconcile_topology_def split: option.splits if_splits)
  obtain compiled where c: "te_compile env t = Inr compiled"
    using assms l size miss by (cases "te_compile env t") (simp_all add: Reconcile_topology_def)
  obtain rendered where r: "te_render env t compiled = Inr rendered"
    using assms l size miss c by (cases "te_render env t compiled") (simp_all add: Reconcile_topology_def)
  have f: "findChildResourceConflicts (te_lister env) t rendered = Inr []"
    using assms l size miss c r by (auto simp: Reconcile_topology_def split: sum.splits if_splits prod.splits)
  obtain err calls where e: "emit_all env t rendered = (err, calls)" by fastforce
  have "Reconcile_topology env s t =
      (case err of Some e \<Rightarrow> failed (TopologyApiError e) t s' calls
       | None \<Rightarrow> observeTopology env (store_observation env token t compiled s') calls t compiled)"
    using l size miss c r f e by (simp add: Reconcile_topology_def split: option.split)
  with size c r f e show ?thesis by (cases err) auto
qed





section \<open>Sample passes\<close>

definition sample_env :: "(string \<Rightarrow> api_error + object_meta list) \<Rightarrow> node list \<Rightarrow> renderedChildren \<Rightarrow> topology_env" where
  "sample_env lister ready rendered = \<lparr> te_get = Inr sample_topology, te_compile = (\<lambda>t. Inr
       \<lparr> ct_kind = ''containerlab'', ct_nodes = [(''a'', ''''), (''b'', '''')], ct_links = [''l1''] \<rparr>),
     te_render = (\<lambda>t compiled. Inr rendered), te_lister = lister, te_profiles_api = sample_emit_api, te_profiles = Inr [],
     te_links_api = sample_emit_api, te_links = Inr [], te_nodes_api = sample_emit_api, te_nodes = Inr [],
     te_rollout = \<lparr> ra_nodes = Inr [], ra_pods = Inr [], ra_patch = (\<lambda>calls n. Inr n) \<rparr>,
     te_status = sample_status_api ready, te_retries = 4, te_loaded_at = 0, te_stored_at = 0 \<rparr>"

definition sample_state :: topology_reconciler where
  "sample_state = \<lparr> tr_observations = None, tr_writes = [] \<rparr>"

definition sample_emission :: topology_env where
  "sample_emission = sample_env (\<lambda>kind. Inr []) [] (sample_children\<lparr> rc_nodes := sample_rendered \<rparr>)"


definition sample_conflicted :: topology_env where
  "sample_conflicted = sample_env sample_lister [] sample_children"


text \<open>A first pass writes the status; the second finds one Node ready within the coalescing interval.\<close>

definition sample_first :: topology_result where
  "sample_first = observeTopology (sample_env sample_lister [] sample_children) sample_state no_calls sample_topology
     \<lparr> ct_kind = ''containerlab'', ct_nodes = [(''a'', ''''), (''b'', '''')], ct_links = [''l1''] \<rparr>"

definition sample_second :: topology_result where
  "sample_second = observeTopology (sample_env sample_lister [sample_ready_node] sample_children) (tres_state sample_first) no_calls
     (tres_topology sample_first) \<lparr> ct_kind = ''containerlab'', ct_nodes = [(''a'', ''''), (''b'', '''')], ct_links = [''l1''] \<rparr>"


end
