(* ===== verification/Netip.thy ===== *)
theory Netip
  imports Prelude
begin

text \<open>
  The part of Go's \<open>net/netip\<close> that the management address code uses: addresses, prefixes, their
  parsers and their printers. The printers are injective, which the uniqueness of printed addresses
  rests on.
\<close>

unbundle bit_operations_syntax

section \<open>Definitions\<close>

text \<open>An address is the zero value, an IPv4 address, or an IPv6 address with its zone.\<close>

datatype addr = NoAddr | Addr4 "32 word" | Addr6 "128 word" string

text \<open>A prefix and its bits; the bits of an invalid prefix are \<open>-1\<close>.\<close>

datatype prefix = Prefix (prefix_addr: addr) (prefix_bits: int)

fun Is4 :: "addr \<Rightarrow> bool" where
  "Is4 (Addr4 a) = True"
| "Is4 _ = False"

fun bit_len :: "addr \<Rightarrow> nat" where
  "bit_len NoAddr = 0"
| "bit_len (Addr4 a) = 32"
| "bit_len (Addr6 a zone) = 128"

fun without_zone :: "addr \<Rightarrow> addr" where
  "without_zone (Addr6 a zone) = Addr6 a ''''"
| "without_zone a = a"

definition PrefixFrom :: "addr \<Rightarrow> int \<Rightarrow> prefix" where
  "PrefixFrom a bits =
     Prefix (without_zone a) (if a \<noteq> NoAddr \<and> 0 \<le> bits \<and> bits \<le> int (bit_len a) then bits else -1)"

subsection \<open>Words\<close>

text \<open>The first \<open>bits\<close> bits of a word, counted from the most significant one, and the words that share them.\<close>

definition mask_word :: "nat \<Rightarrow> 'a::len word \<Rightarrow> 'a word" where
  "mask_word bits a = push_bit (LENGTH('a) - bits) (drop_bit (LENGTH('a) - bits) a)"

definition contains_word :: "nat \<Rightarrow> 'a::len word \<Rightarrow> 'a word \<Rightarrow> bool" where
  "contains_word bits p a \<longleftrightarrow> drop_bit (LENGTH('a) - bits) (a XOR p) = 0"

fun Masked :: "prefix \<Rightarrow> prefix" where
  "Masked (Prefix (Addr4 a) bits) = (if bits < 0 then Prefix NoAddr (-1) else Prefix (Addr4 (mask_word (nat bits) a)) bits)"
| "Masked (Prefix (Addr6 a zone) bits) = (if bits < 0 then Prefix NoAddr (-1) else Prefix (Addr6 (mask_word (nat bits) a) '''') bits)"
| "Masked (Prefix NoAddr bits) = Prefix NoAddr (-1)"

fun Contains :: "prefix \<Rightarrow> addr \<Rightarrow> bool" where
  "Contains (Prefix (Addr4 p) bits) (Addr4 a) = (0 \<le> bits \<and> contains_word (nat bits) p a)"
| "Contains (Prefix (Addr6 p pz) bits) (Addr6 a zone) = (0 \<le> bits \<and> zone = '''' \<and> contains_word (nat bits) p a)"
| "Contains _ _ = False"

text \<open>\<open>Addr.Next\<close>: the zero value after the last address of the family.\<close>

fun Next :: "addr \<Rightarrow> addr" where
  "Next NoAddr = NoAddr"
| "Next (Addr4 a) = (if a = - 1 then NoAddr else Addr4 (a + 1))"
| "Next (Addr6 a zone) = (if a = - 1 then NoAddr else Addr6 (a + 1) zone)"

subsection \<open>Parsing\<close>

definition word_of_bytes :: "nat list \<Rightarrow> 'a::len word" where
  "word_of_bytes bs = foldl (\<lambda>w b. push_bit 8 w OR of_nat b) 0 bs"

text \<open>\<open>parseIPv4Fields\<close>: the rest of the text, the value and the number of digits of the current field, the fields before.\<close>

fun parseIPv4Fields :: "string \<Rightarrow> nat \<Rightarrow> nat \<Rightarrow> nat list \<Rightarrow> nat list option" where
  "parseIPv4Fields [] val digLen fields = (if length fields < 3 then None else Some (fields @ [val]))"
| "parseIPv4Fields (c # cs) val digLen fields =
     (if is_digit c
      then (if digLen = 1 \<and> val = 0 then None
            else let val' = val * 10 + digit_val c in
                 if val' > 255 then None else parseIPv4Fields cs val' (Suc digLen) fields)
      else if c = CHR ''.''
      then (if digLen = 0 \<or> cs = [] \<or> length fields = 3 then None else parseIPv4Fields cs 0 0 (fields @ [val]))
      else None)"

definition parseIPv4 :: "string \<Rightarrow> addr option" where
  "parseIPv4 s = map_option (\<lambda>fields. Addr4 (word_of_bytes fields)) (parseIPv4Fields s 0 0 [])"

definition hex_val :: "char \<Rightarrow> nat option" where
  "hex_val c =
     (let n = (of_char c :: nat) in
      if 48 \<le> n \<and> n \<le> 57 then Some (n - 48)
      else if 97 \<le> n \<and> n \<le> 102 then Some (n - 87)
      else if 65 \<le> n \<and> n \<le> 70 then Some (n - 55) else None)"

definition is_hex :: "char \<Rightarrow> bool" where
  "is_hex c \<longleftrightarrow> hex_val c \<noteq> None"

definition hex_value :: "string \<Rightarrow> nat" where
  "hex_value s = foldl (\<lambda>acc c. 16 * acc + the (hex_val c)) 0 s"

text \<open>
  The loop of \<open>parseIPv6\<close>: the rest of the text, the bytes so far and the position of the ellipsis. The
  result is the bytes and the ellipsis when all of the text was used.
\<close>

function parseIPv6_loop :: "string \<Rightarrow> nat list \<Rightarrow> nat option \<Rightarrow> (nat list \<times> nat option) option" where
  "parseIPv6_loop s ip ellipsis =
     (if length ip \<ge> 16 then (if s = [] then Some (ip, ellipsis) else None)
      else let hs = takeWhile is_hex s; rest = dropWhile is_hex s in
        if length hs > 4 \<or> hs = [] then None
        else case rest of
          [] \<Rightarrow> Some (ip @ [hex_value hs div 256, hex_value hs mod 256], ellipsis)
        | c # cs \<Rightarrow>
            if c = CHR ''.''
            then (if (ellipsis = None \<and> length ip \<noteq> 12) \<or> length ip + 4 > 16 then None
                  else map_option (\<lambda>fields. (ip @ fields, ellipsis)) (parseIPv4Fields s 0 0 []))
            else let ip' = ip @ [hex_value hs div 256, hex_value hs mod 256] in
              if c \<noteq> CHR '':'' \<or> cs = [] then None
              else if hd cs = CHR '':''
              then (if ellipsis \<noteq> None then None
                    else if tl cs = [] then Some (ip', Some (length ip'))
                    else parseIPv6_loop (tl cs) ip' (Some (length ip')))
              else parseIPv6_loop cs ip' ellipsis)"
  by pat_completeness auto
termination
proof (relation "measure (\<lambda>(s, ip, e). length s)", simp, goal_cases)
  case (1 s ip e hs rest c cs ip')
  then have "c # cs = dropWhile is_hex s" by simp
  from arg_cong [OF this, of length] have "Suc (length cs) \<le> length s" using length_dropWhile_le [of is_hex s] by simp
  then show ?case by simp
next
  case (2 s ip e hs rest c cs ip')
  then have "c # cs = dropWhile is_hex s" by simp
  from arg_cong [OF this, of length] have "Suc (length cs) \<le> length s" using length_dropWhile_le [of is_hex s] by simp
  then show ?case by simp
qed

text \<open>The end of \<open>parseIPv6\<close>: the ellipsis stands for at least one group of zeros.\<close>

definition expand_ellipsis :: "nat list \<times> nat option \<Rightarrow> nat list option" where
  "expand_ellipsis r =
     (case r of (ip, ellipsis) \<Rightarrow>
        if length ip < 16
        then (case ellipsis of
                None \<Rightarrow> None
              | Some e \<Rightarrow> Some (take e ip @ replicate (16 - length ip) 0 @ drop e ip))
        else if ellipsis \<noteq> None then None else Some ip)"

definition parseIPv6 :: "string \<Rightarrow> addr option" where
  "parseIPv6 text =
     (case cut CHR ''%'' text of (s, zone, zoned) \<Rightarrow>
        if zoned \<and> zone = '''' then None
        else let leading = has_prefix s ''::''; s' = (if leading then drop 2 s else s) in
          if leading \<and> s' = '''' then Some (Addr6 0 zone)
          else map_option (\<lambda>bytes. Addr6 (word_of_bytes bytes) zone)
                 (Option.bind (parseIPv6_loop s' [] (if leading then Some 0 else None)) expand_ellipsis))"

definition ParseAddr :: "string \<Rightarrow> addr option" where
  "ParseAddr s =
     (case List.find (\<lambda>c. c \<in> {CHR ''.'', CHR '':'', CHR ''%''}) s of
        Some c \<Rightarrow> if c = CHR ''.'' then parseIPv4 s else if c = CHR '':'' then parseIPv6 s else None
      | None \<Rightarrow> None)"

definition ParsePrefix :: "string \<Rightarrow> prefix option" where
  "ParsePrefix s =
     (case cut CHR ''/'' (rev s) of
        (_, _, False) \<Rightarrow> None
      | (revBits, revAddr, True) \<Rightarrow>
          (case ParseAddr (rev revAddr) of
             None \<Rightarrow> None
           | Some a \<Rightarrow>
               let bitsStr = rev revBits in
               if without_zone a \<noteq> a then None
               else if length bitsStr > 1 \<and> \<not> (CHR ''1'' \<le> hd bitsStr \<and> hd bitsStr \<le> CHR ''9'') then None
               else (case atoi bitsStr of
                       None \<Rightarrow> None
                     | Some bits \<Rightarrow> if bits < 0 \<or> int (bit_len a) < bits then None else Some (PrefixFrom a bits))))"

subsection \<open>Printing\<close>

definition octets4 :: "32 word \<Rightarrow> nat list" where
  "octets4 a = map (\<lambda>i. unat (drop_bit (24 - 8 * i) a AND 255)) [0..<4]"

definition string4 :: "32 word \<Rightarrow> string" where
  "string4 a = join (map itoa_nat (octets4 a)) ''.''"

definition hex_char :: "nat \<Rightarrow> char" where
  "hex_char d = char_of (if d < 10 then 48 + d else 87 + d)"

fun appendHex :: "nat \<Rightarrow> string" where
  "appendHex n = (if n < 16 then [hex_char n] else appendHex (n div 16) @ [hex_char (n mod 16)])"

declare appendHex.simps [simp del]

definition groups6 :: "128 word \<Rightarrow> nat list" where
  "groups6 a = map (\<lambda>i. unat (drop_bit (112 - 16 * i) a AND 0xFFFF)) [0..<8]"

text \<open>The first longest run of at least two zero groups, as its start and its end.\<close>

definition zero_run :: "nat list \<Rightarrow> (nat \<times> nat) option" where
  "zero_run gs =
     foldl (\<lambda>best i.
        let l = length (takeWhile (\<lambda>g. g = 0) (drop i gs)) in
        if l \<ge> 2 \<and> (case best of None \<Rightarrow> True | Some (s, e) \<Rightarrow> l > e - s) then Some (i, i + l) else best)
       None [0..<length gs]"

definition string6 :: "128 word \<Rightarrow> string" where
  "string6 a =
     (let gs = groups6 a in
      case zero_run gs of
        None \<Rightarrow> join (map appendHex gs) '':''
      | Some (s, e) \<Rightarrow> join (map appendHex (take s gs)) '':'' @ ''::'' @ join (map appendHex (drop e gs)) '':'')"

definition is_4in6 :: "128 word \<Rightarrow> bool" where
  "is_4in6 a \<longleftrightarrow> drop_bit 32 a = 0xFFFF"

fun Unmap :: "addr \<Rightarrow> addr" where
  "Unmap (Addr6 a zone) = (if is_4in6 a then Addr4 (ucast a) else Addr6 a zone)"
| "Unmap a = a"

fun addr_string :: "addr \<Rightarrow> string" where
  "addr_string NoAddr = ''invalid IP''"
| "addr_string (Addr4 a) = string4 a"
| "addr_string (Addr6 a zone) =
     (if is_4in6 a then ''::ffff:'' @ string4 (ucast a) else string6 a) @ (if zone = '''' then '''' else ''%'' @ zone)"

fun prefix_string :: "prefix \<Rightarrow> string" where
  "prefix_string (Prefix a bits) = (if bits < 0 then ''invalid Prefix'' else addr_string a @ ''/'' @ itoa_nat (nat bits))"


subsection \<open>Bytes\<close>

text \<open>\<open>As4\<close> and \<open>As16\<close>, and \<open>AddrFrom4\<close> and \<open>AddrFrom16\<close>: the bytes of an address, the most significant first.\<close>

definition word_bytes :: "'a::len word \<Rightarrow> 8 word list" where
  "word_bytes a = map (\<lambda>i. ucast (drop_bit (LENGTH('a) - 8 - 8 * i) a)) [0..<LENGTH('a) div 8]"

definition bytes_word :: "8 word list \<Rightarrow> 'a::len word" where
  "bytes_word bs = foldl (\<lambda>w b. push_bit 8 w OR ucast b) 0 bs"

text \<open>A bit of a byte array, counted from the most significant one.\<close>

definition byte_bit :: "8 word list \<Rightarrow> nat \<Rightarrow> bool" where
  "byte_bit bs k \<longleftrightarrow> bit (bs ! (k div 8)) (7 - k mod 8)"

section \<open>Bits of prefixes\<close>

lemma bit_mask_word: "bit (mask_word bits (a :: 'a::len word)) n \<longleftrightarrow> LENGTH('a) - bits \<le> n \<and> bit a n"
  by (auto simp: mask_word_def bit_push_bit_iff bit_drop_bit_eq dest: bit_imp_le_length)

lemma contains_word_iff:
  "contains_word bits p (a :: 'a::len word) \<longleftrightarrow> (\<forall>n. LENGTH('a) - bits \<le> n \<longrightarrow> bit a n = bit p n)"
proof -
  have "contains_word bits p a \<longleftrightarrow> (\<forall>n. \<not> bit (drop_bit (LENGTH('a) - bits) (a XOR p)) n)"
    unfolding contains_word_def by (auto intro: bit_word_eqI simp del: drop_bit_xor)
  also have "\<dots> \<longleftrightarrow> (\<forall>n. \<not> bit (a XOR p) (LENGTH('a) - bits + n))" by (simp add: bit_drop_bit_eq del: drop_bit_xor)
  also have "\<dots> \<longleftrightarrow> (\<forall>n. LENGTH('a) - bits \<le> n \<longrightarrow> \<not> bit (a XOR p) n)" by (metis le_add1 le_add_diff_inverse)
  finally show ?thesis by (auto simp: bit_xor_iff)
qed

lemma contains_mask_word: "contains_word bits (mask_word bits p) a = contains_word bits p a"
  by (auto simp: contains_word_iff bit_mask_word)

lemma bit_bytes_word:
  "bit (bytes_word bs :: 'a::len word) n \<longleftrightarrow> n < LENGTH('a) \<and> n < 8 * length bs \<and> byte_bit bs (8 * length bs - 1 - n)"
proof (induction bs arbitrary: n rule: rev_induct)
  case Nil
  then show ?case by (simp add: bytes_word_def)
next
  case (snoc b bs)
  have step: "bytes_word (bs @ [b]) = (push_bit 8 (bytes_word bs) OR ucast b :: 'a word)" by (simp add: bytes_word_def)
  show ?case
  proof (cases "n < 8")
    case True
    then have k: "8 * length (bs @ [b]) - 1 - n = (7 - n) + length bs * 8" by simp
    have "(8 * length (bs @ [b]) - 1 - n) div 8 = length bs" "7 - (8 * length (bs @ [b]) - 1 - n) mod 8 = n"
      unfolding k using True by (simp_all only: div_mult_self1 mod_mult_self1) simp_all
    with True show ?thesis
      by (simp add: step bit_or_iff bit_push_bit_iff bit_ucast_iff byte_bit_def)
  next
    case False
    then have k: "8 * length (bs @ [b]) - 1 - n = 8 * length bs - 1 - (n - 8)" by simp
    have "byte_bit (bs @ [b]) (8 * length bs - 1 - (n - 8)) = byte_bit bs (8 * length bs - 1 - (n - 8))" if "n - 8 < 8 * length bs"
    proof -
      have "(8 * length bs - 1 - (n - 8)) div 8 < length bs" using that by simp
      then show ?thesis by (simp add: byte_bit_def nth_append)
    qed
    moreover have "bit (ucast b :: 'a word) n = False" using False by (auto simp: bit_ucast_iff dest: bit_imp_le_length)
    moreover have "n < 8 * length (bs @ [b]) \<longleftrightarrow> n - 8 < 8 * length bs" using False by auto
    ultimately show ?thesis
      unfolding step k using False snoc [of "n - 8"] by (auto simp: bit_or_iff bit_push_bit_iff)
  qed
qed

lemma length_word_bytes [simp]: "length (word_bytes (a :: 'a::len word)) = LENGTH('a) div 8"
  by (simp add: word_bytes_def)

lemma byte_bit_word_bytes:
  assumes "LENGTH('a) = 8 * m" "k < LENGTH('a)"
  shows "byte_bit (word_bytes (a :: 'a::len word)) k = bit a (LENGTH('a) - 1 - k)"
proof -
  have "k div 8 < m" using assms by (simp add: less_mult_imp_div_less)
  moreover have "LENGTH('a) - 8 - 8 * (k div 8) + (7 - k mod 8) = LENGTH('a) - 1 - k"
  proof -
    have "8 * (k div 8) + k mod 8 = k" by simp
    moreover have "k mod 8 < 8" by simp
    moreover have "8 * (k div 8) + 8 \<le> 8 * m" using \<open>k div 8 < m\<close> by simp
    ultimately show ?thesis using assms by linarith
  qed
  moreover have "7 - k mod 8 < 8" by simp
  ultimately show ?thesis using assms by (simp add: byte_bit_def word_bytes_def bit_ucast_iff bit_drop_bit_eq del: diff_less_Suc)
qed

section \<open>The printers are injective\<close>

lemma split_on_append: "split_on c (u @ c # v) = split_on c u @ split_on c v"
  by (induction u) (auto split: list.split)

lemma split_on_join:
  assumes "fields \<noteq> []" "\<And>f. f \<in> set fields \<Longrightarrow> c \<notin> set f"
  shows "split_on c (join fields [c]) = fields"
  using assms
proof (induction fields "[c]" rule: join.induct)
  case (2 x)
  then show ?case by (simp add: split_on_no_sep)
next
  case (3 x y ys)
  then show ?case by (simp add: split_on_append_sep)
qed simp

text \<open>Equal chunks make equal words.\<close>

lemma equal_chunks:
  fixes a b :: "'a::len word"
  assumes "0 < w" "LENGTH('a) = w * m"
    and "\<And>i. i < m \<Longrightarrow> drop_bit (w * (m - 1 - i)) a AND mask w = drop_bit (w * (m - 1 - i)) b AND mask w"
  shows "a = b"
proof (rule bit_word_eqI)
  fix n assume "n < LENGTH('a)"
  then have "n div w < m" using assms(1,2) by (simp add: less_mult_imp_div_less mult.commute)
  then have q: "m - 1 - (m - 1 - n div w) = n div w" "m - 1 - n div w < m" by auto
  have "bit (drop_bit (w * (n div w)) a AND mask w) (n mod w) = bit (drop_bit (w * (n div w)) b AND mask w) (n mod w)"
    using assms(3) [OF q(2)] unfolding q(1) by simp
  moreover have "n mod w < w" "w * (n div w) + n mod w = n" using assms(1) by simp_all
  ultimately show "bit a n = bit b n"
    using \<open>n < LENGTH('a)\<close> by (simp add: bit_and_iff bit_mask_iff bit_drop_bit_eq)
qed

lemma octets4_inject: "octets4 a = octets4 b \<longleftrightarrow> a = b"
proof
  assume eq: "octets4 a = octets4 b"
  have "unat (drop_bit (24 - 8 * i) a AND 255) = unat (drop_bit (24 - 8 * i) b AND 255)" if "i < 4" for i
    using that arg_cong [OF eq, of "\<lambda>xs. xs ! i"] by (simp add: octets4_def)
  then have "drop_bit (24 - 8 * i) a AND 255 = drop_bit (24 - 8 * i) b AND 255" if "i < 4" for i
    using that unfolding word_unat_eq_iff by blast
  then have "drop_bit (8 * (4 - 1 - i)) a AND mask 8 = drop_bit (8 * (4 - 1 - i)) b AND mask 8" if "i < 4" for i
    using that by (simp add: mask_eq_exp_minus_1 right_diff_distrib')
  then show "a = b" by (rule equal_chunks [of 8 4, rotated 2]) simp_all
qed simp

lemma groups6_inject: "groups6 a = groups6 b \<longleftrightarrow> a = b"
proof
  assume eq: "groups6 a = groups6 b"
  have "unat (drop_bit (112 - 16 * i) a AND 0xFFFF) = unat (drop_bit (112 - 16 * i) b AND 0xFFFF)" if "i < 8" for i
    using that arg_cong [OF eq, of "\<lambda>xs. xs ! i"] by (simp add: groups6_def)
  then have "drop_bit (112 - 16 * i) a AND 0xFFFF = drop_bit (112 - 16 * i) b AND 0xFFFF" if "i < 8" for i
    using that unfolding word_unat_eq_iff by blast
  then have "drop_bit (16 * (8 - 1 - i)) a AND mask 16 = drop_bit (16 * (8 - 1 - i)) b AND mask 16" if "i < 8" for i
    using that by (simp add: mask_eq_exp_minus_1 right_diff_distrib')
  then show "a = b" by (rule equal_chunks [of 16 8, rotated 2]) simp_all
qed simp

lemma is_digit_not: "is_digit c \<Longrightarrow> c \<noteq> CHR ''.'' \<and> c \<noteq> CHR '':'' \<and> c \<noteq> CHR ''/'' \<and> c \<noteq> CHR ''%''"
  by (auto simp: is_digit_def)

lemma itoa_nat_chars: "c \<in> set (itoa_nat n) \<Longrightarrow> is_digit c"
  using itoa_nat_digits [of n] by (auto simp: list_all_iff)

lemma string4_inject: "string4 a = string4 b \<longleftrightarrow> a = b"
proof
  assume eq: "string4 a = string4 b"
  have "split_on CHR ''.'' (string4 x) = map itoa_nat (octets4 x)" for x
    unfolding string4_def by (rule split_on_join) (auto simp: octets4_def dest: itoa_nat_chars is_digit_not)
  with eq have "map itoa_nat (octets4 a) = map itoa_nat (octets4 b)" by metis
  then have "octets4 a = octets4 b" by (rule map_injective) (simp add: inj_def)
  then show "a = b" by (simp add: octets4_inject)
qed simp

lemma join_chars: "c \<in> set (join fields sep) \<Longrightarrow> c \<in> set sep \<or> (\<exists>f \<in> set fields. c \<in> set f)"
  by (induction fields sep rule: join.induct) auto

lemma string4_chars: "c \<in> set (string4 a) \<Longrightarrow> is_digit c \<or> c = CHR ''.''"
  unfolding string4_def by (drule join_chars) (auto dest: itoa_nat_chars)

lemma string4_dot: "CHR ''.'' \<in> set (string4 a)"
  by (simp add: string4_def octets4_def upt_rec)

lemma of_char_hex: "d < 16 \<Longrightarrow> (of_char (hex_char d) :: nat) = (if d < 10 then 48 + d else 87 + d)"
  by (simp add: hex_char_def)

lemma hex_char_inject: "d < 16 \<Longrightarrow> e < 16 \<Longrightarrow> hex_char d = hex_char e \<longleftrightarrow> d = e"
proof
  assume le: "d < 16" "e < 16" and "hex_char d = hex_char e"
  then have "(of_char (hex_char d) :: nat) = of_char (hex_char e)" by simp
  then have "(if d < 10 then 48 + d else 87 + d) = (if e < 10 then 48 + e else 87 + e)"
    unfolding of_char_hex [OF le(1)] of_char_hex [OF le(2)] .
  then show "d = e" using le by (simp split: if_split_asm)
qed simp

lemma hex_char_not: "d < 16 \<Longrightarrow> hex_char d \<noteq> CHR ''.'' \<and> hex_char d \<noteq> CHR '':'' \<and> hex_char d \<noteq> CHR ''/'' \<and> hex_char d \<noteq> CHR ''%''"
proof -
  assume "d < 16"
  note code = of_char_hex [OF this]
  have "hex_char d \<noteq> c" if "(of_char c :: nat) \<in> {46, 58, 47, 37}" for c
  proof
    assume "hex_char d = c"
    with code that show False by (auto split: if_split_asm)
  qed
  from this [of "CHR ''.''"] this [of "CHR '':''"] this [of "CHR ''/''"] this [of "CHR ''%''"] show ?thesis by simp
qed

lemma appendHex_nonempty [simp]: "appendHex n \<noteq> []" "[] \<noteq> appendHex n"
  by (subst appendHex.simps, simp)+

lemma appendHex_chars: "c \<in> set (appendHex n) \<Longrightarrow> \<exists>d < 16. c = hex_char d"
proof (induction n rule: appendHex.induct)
  case (1 n)
  have last: "\<exists>d < 16. hex_char (n mod 16) = hex_char d" by (rule exI [of _ "n mod 16"]) simp
  from 1(2) show ?case
    by (subst (asm) appendHex.simps) (use 1(1) last in \<open>auto split: if_splits\<close>)
qed

lemma appendHex_inject: "appendHex m = appendHex n \<longleftrightarrow> m = n"
proof (induction m arbitrary: n rule: appendHex.induct)
  case (1 m)
  have unfold: "appendHex k = (if k < 16 then [] else appendHex (k div 16)) @ [hex_char (k mod 16)]" for k
    by (subst appendHex.simps) simp
  show ?case
  proof
    assume "appendHex m = appendHex n"
    then have "(if m < 16 then [] else appendHex (m div 16)) @ [hex_char (m mod 16)] =
        (if n < 16 then [] else appendHex (n div 16)) @ [hex_char (n mod 16)]"
      unfolding unfold [of m] unfold [of n] .
    then have rest: "(if m < 16 then [] else appendHex (m div 16)) = (if n < 16 then [] else appendHex (n div 16))"
      and "hex_char (m mod 16) = hex_char (n mod 16)" by (simp_all only: append1_eq_conv)
    then have "m mod 16 = n mod 16" using hex_char_inject [of "m mod 16" "n mod 16"] by simp
    moreover have "m div 16 = n div 16"
    proof (cases "m < 16")
      case True
      with rest have "n < 16" by (cases "n < 16") simp_all
      with True show ?thesis by simp
    next
      case False
      with rest have "\<not> n < 16" by (cases "n < 16") simp_all
      with False rest 1 [of "n div 16"] show ?thesis by simp
    qed
    ultimately show "m = n" by (metis div_mult_mod_eq)
  qed simp
qed

lemma appendHex_no_sep: "c \<in> {CHR '':'', CHR ''.'', CHR ''/'', CHR ''%''} \<Longrightarrow> c \<notin> set (appendHex n)"
  using appendHex_chars [of c n] hex_char_not by fastforce

lemma zero_run_zeros:
  assumes "zero_run gs = Some (s, e)"
  shows "gs = take s gs @ replicate (e - s) 0 @ drop e gs"
proof -
  let ?l = "\<lambda>i. length (takeWhile (\<lambda>g. g = 0) (drop i gs))"
  have "e = s + ?l s"
    if "foldl (\<lambda>best i. let l = ?l i in
        if l \<ge> 2 \<and> (case best of None \<Rightarrow> True | Some (s, e) \<Rightarrow> l > e - s) then Some (i, i + l) else best) best is = Some (s, e)"
      and "\<And>s e. best = Some (s, e) \<Longrightarrow> e = s + ?l s" for best "is"
    using that by (induction "is" arbitrary: best) (auto simp: Let_def split: if_splits)
  then have e: "e = s + ?l s" using assms unfolding zero_run_def by blast
  have "takeWhile (\<lambda>g. g = 0) (drop s gs) = replicate (?l s) 0"
    by (rule replicate_eqI) (auto dest: set_takeWhileD)
  moreover have "drop (?l s) (drop s gs) = drop e gs" using e by (simp add: add.commute)
  ultimately have "drop s gs = replicate (e - s) 0 @ drop e gs"
    using takeWhile_dropWhile_id [of "\<lambda>g. g = 0" "drop s gs"] e by (simp add: dropWhile_eq_drop)
  then show ?thesis by (metis append_take_drop_id)
qed

text \<open>The fields of a printed address between its colons.\<close>

definition hex_fields :: "nat list \<Rightarrow> string list" where
  "hex_fields gs = (if gs = [] then [[]] else map appendHex gs)"

lemma split_on_hex: "split_on CHR '':'' (join (map appendHex gs) '':'') = hex_fields gs"
proof (cases "gs = []")
  case False
  then show ?thesis
    unfolding hex_fields_def by (simp) (rule split_on_join, auto simp: appendHex_no_sep)
qed (simp add: hex_fields_def)

lemma hex_fields_inject: "hex_fields xs = hex_fields ys \<longleftrightarrow> xs = ys"
proof -
  have "map appendHex xs = map appendHex ys \<longleftrightarrow> xs = ys"
    by (simp add: inj_map_eq_map inj_def appendHex_inject)
  then show ?thesis by (auto simp: hex_fields_def Cons_eq_map_conv map_eq_Cons_conv)
qed

lemma compressed_inject:
  "hex_fields xs @ [] # hex_fields ys = hex_fields us @ [] # hex_fields vs \<longleftrightarrow> xs = us \<and> ys = vs"
proof
  assume eq: "hex_fields xs @ [] # hex_fields ys = hex_fields us @ [] # hex_fields vs"
  have head: "takeWhile (\<lambda>f. f \<noteq> []) (hex_fields zs @ [] # ws) = map appendHex zs" for zs ws
  proof -
    have "takeWhile (\<lambda>f. f \<noteq> []) (map appendHex zs @ [] # ws) = map appendHex zs" by (induction zs) simp_all
    then show ?thesis by (simp add: hex_fields_def)
  qed
  have "xs = us"
    using arg_cong [OF eq, of "takeWhile (\<lambda>f. f \<noteq> [])"] unfolding head by (simp add: inj_map_eq_map inj_def appendHex_inject)
  with eq show "xs = us \<and> ys = vs" by (simp add: hex_fields_inject)
qed simp

lemma string6_fields:
  "split_on CHR '':'' (string6 a) =
     (case zero_run (groups6 a) of
        None \<Rightarrow> map appendHex (groups6 a)
      | Some (s, e) \<Rightarrow> hex_fields (take s (groups6 a)) @ [] # hex_fields (drop e (groups6 a)))"
proof -
  have "groups6 a \<noteq> []" by (simp add: groups6_def)
  then have "split_on CHR '':'' (join (map appendHex (groups6 a)) '':'') = map appendHex (groups6 a)"
    by (simp add: split_on_hex hex_fields_def)
  then show ?thesis
    by (auto simp: string6_def Let_def split_on_append split_on_hex split: option.split)
qed

lemma string6_inject: "string6 a = string6 b \<longleftrightarrow> a = b"
proof
  assume "string6 a = string6 b"
  then have eq: "split_on CHR '':'' (string6 a) = split_on CHR '':'' (string6 b)" by simp
  have plain: "[] \<notin> set (map appendHex gs)" for gs by auto
  have "groups6 a = groups6 b"
  proof (cases "zero_run (groups6 a)")
    case None
    with eq plain have "zero_run (groups6 b) = None"
      unfolding string6_fields by (metis (no_types, lifting) case_prod_conv in_set_conv_decomp option.case option.exhaust surj_pair)
    with eq None show ?thesis unfolding string6_fields by (simp add: inj_map_eq_map inj_def appendHex_inject)
  next
    case (Some r)
    then obtain s e where r: "zero_run (groups6 a) = Some (s, e)" by (cases r) simp
    with eq plain obtain s' e' where r': "zero_run (groups6 b) = Some (s', e')"
      unfolding string6_fields by (metis (no_types, lifting) case_prod_conv in_set_conv_decomp option.case option.exhaust surj_pair)
    have parts: "take s (groups6 a) = take s' (groups6 b)" "drop e (groups6 a) = drop e' (groups6 b)"
      using eq unfolding string6_fields r r' by (simp_all add: compressed_inject)
    have len: "length (groups6 a) = length (groups6 b)" by (simp add: groups6_def)
    note za = zero_run_zeros [OF r] and zb = zero_run_zeros [OF r']
    have "e - s = e' - s'"
      using arg_cong [OF za, of length] arg_cong [OF zb, of length] len arg_cong [OF parts(1), of length] arg_cong [OF parts(2), of length]
      unfolding length_append length_replicate by linarith
    with za zb parts show ?thesis by simp
  qed
  then show "a = b" by (simp add: groups6_inject)
qed simp

lemma string6_chars: "c \<in> {CHR ''.'', CHR ''/'', CHR ''%''} \<Longrightarrow> c \<notin> set (string6 a)"
proof
  assume c: "c \<in> {CHR ''.'', CHR ''/'', CHR ''%''}" and "c \<in> set (string6 a)"
  then have "\<exists>gs. c \<in> set (join (map appendHex gs) '':'')"
    by (auto simp: string6_def Let_def split: option.splits)
  then show False using c by (auto dest!: join_chars simp: appendHex_no_sep)
qed

lemma ucast_4in6:
  assumes "is_4in6 a" "is_4in6 b" "(ucast a :: 32 word) = ucast b"
  shows "a = b"
proof (rule bit_word_eqI)
  fix n assume "n < LENGTH(128)"
  show "bit a n = bit b n"
  proof (cases "n < 32")
    case True
    then show ?thesis using arg_cong [OF assms(3), of "\<lambda>w. bit w n"] by (simp add: bit_ucast_iff)
  next
    case False
    have "drop_bit 32 a = drop_bit 32 b" using assms(1,2) by (simp add: is_4in6_def)
    from arg_cong [OF this, of "\<lambda>w. bit w (n - 32)"] False show ?thesis by (simp add: bit_drop_bit_eq)
  qed
qed

text \<open>Addresses without a zone print differently, within one family.\<close>

theorem addr_string_inject:
  assumes "a \<noteq> NoAddr" "b \<noteq> NoAddr" "without_zone a = a" "without_zone b = b" "Is4 a = Is4 b"
  shows "addr_string a = addr_string b \<longleftrightarrow> a = b"
proof (cases a)
  case (Addr4 x)
  with assms obtain y where "b = Addr4 y" by (cases b) auto
  with Addr4 show ?thesis by (simp add: string4_inject)
next
  case (Addr6 x z)
  with assms obtain y where b: "b = Addr6 y ''''" by (cases b) auto
  from Addr6 assms have a: "a = Addr6 x ''''" by simp
  have dot: "string6 u \<noteq> CHR '':'' # CHR '':'' # CHR ''f'' # CHR ''f'' # CHR ''f'' # CHR ''f'' # CHR '':'' # string4 v" for u v
    using string6_chars [of "CHR ''.''" u] string4_dot [of v] by (metis insertI1 list.set_intros(2))
  show ?thesis
    unfolding a b using dot [symmetric] by (auto simp: dot string4_inject string6_inject dest: ucast_4in6)
qed (use assms in simp)

lemma addr_string_no_slash:
  assumes "a \<noteq> NoAddr" "without_zone a = a"
  shows "CHR ''/'' \<notin> set (addr_string a)"
proof -
  have "CHR ''/'' \<notin> set (string4 x)" for x by (auto dest!: string4_chars simp: is_digit_def)
  with assms show ?thesis by (cases a) (auto simp: string6_chars)
qed

end
