(* ===== verification/Peer_Directory.thy ===== *)
theory Peer_Directory
  imports Netip "HOL-Library.Countable"
begin

text \<open>
  The peer directory (\<open>src/internal/directruntime/peerdirectory.go\<close> and \<open>peerdirectoryreader.go\<close>): the
  identities of the nodes of a namespace, the eight shards they are written in, the directory a Pod
  reads back from the shard files, and the reader that parses them again only when a file changed.

  \<open>json.Marshal\<close> and \<open>json.Unmarshal\<close> at the type of a directory are the two functions of a codec,
  which is a parameter; the file system is the argument \<open>readFile\<close>, as in the source, and the result of
  \<open>os.Stat\<close>. The roots are the two constant mount points, which are clean paths, so \<open>filepath.Join\<close>
  puts one slash between its arguments.
\<close>

unbundle bit_operations_syntax

section \<open>Definitions\<close>

record peer_identity =
  peer_name :: string
  peer_ipv4 :: string
  peer_ipv6 :: string
  peer_aliases :: "string list"
  peer_pod :: string

record peer_directory =
  dir_schema :: int
  dir_peers :: "peer_identity list"

record peer_codec =
  pc_marshal :: "peer_directory \<Rightarrow> string + string"
  pc_unmarshal :: "string \<Rightarrow> string + peer_directory"

definition PeerDirectoryConfigMapName :: string where
  "PeerDirectoryConfigMapName = ''c9s-peer-directory''"

definition PeerDirectoryConfigMapKey :: string where
  "PeerDirectoryConfigMapKey = ''peers.json''"

definition PeerDirectoryShardCount :: nat where
  "PeerDirectoryShardCount = 8"

definition peerDirectorySchemaVersion :: int where
  "peerDirectorySchemaVersion = 1"

definition PeerDirectoryShardConfigMapName :: "nat \<Rightarrow> string" where
  "PeerDirectoryShardConfigMapName shard = PeerDirectoryConfigMapName @ ''-'' @ itoa_nat shard"

definition PeerDirectoryShardFileName :: "nat \<Rightarrow> string" where
  "PeerDirectoryShardFileName shard = ''peers-'' @ itoa_nat shard @ ''.json''"

text \<open>\<open>hash/fnv\<close>: the 32-bit FNV-1a hash.\<close>

definition fnv32a :: "string \<Rightarrow> 32 word" where
  "fnv32a s = foldl (\<lambda>h c. (h XOR of_nat (of_char c)) * 16777619) 2166136261 s"

definition PeerDirectoryShard :: "string \<Rightarrow> nat" where
  "PeerDirectoryShard name = unat (fnv32a name mod of_nat PeerDirectoryShardCount)"

definition RenderPeerDirectory :: "peer_codec \<Rightarrow> peer_identity list \<Rightarrow> string + string" where
  "RenderPeerDirectory codec peers =
     pc_marshal codec \<lparr> dir_schema = peerDirectorySchemaVersion, dir_peers = sort_key peer_name peers \<rparr>"

definition peers_by_shard :: "peer_identity list \<Rightarrow> peer_identity list list" where
  "peers_by_shard peers =
     foldl (\<lambda>byShard peer. let shard = PeerDirectoryShard (peer_name peer) in byShard[shard := byShard ! shard @ [peer]])
       (replicate PeerDirectoryShardCount []) peers"

fun render_shards :: "peer_codec \<Rightarrow> peer_identity list list \<Rightarrow> string + string list" where
  "render_shards codec [] = Inr []"
| "render_shards codec (shard # shards) =
     (case RenderPeerDirectory codec shard of
        Inl e \<Rightarrow> Inl e
      | Inr content \<Rightarrow> (case render_shards codec shards of Inl e \<Rightarrow> Inl e | Inr contents \<Rightarrow> Inr (content # contents)))"

definition RenderPeerDirectoryShards :: "peer_codec \<Rightarrow> peer_identity list \<Rightarrow> string + string list" where
  "RenderPeerDirectoryShards codec peers = render_shards codec (peers_by_shard peers)"

datatype parse_error = Malformed string | UnsupportedSchema int

definition ParsePeerDirectory :: "peer_codec \<Rightarrow> string \<Rightarrow> parse_error + peer_identity list" where
  "ParsePeerDirectory codec content =
     (case pc_unmarshal codec content of
        Inl e \<Rightarrow> Inl (Malformed e)
      | Inr directory \<Rightarrow>
          if dir_schema directory \<noteq> peerDirectorySchemaVersion then Inl (UnsupportedSchema (dir_schema directory))
          else Inr (dir_peers directory))"

definition join_path :: "string \<Rightarrow> string \<Rightarrow> string" where
  "join_path root name = root @ ''/'' @ name"

definition base_path :: "string \<Rightarrow> string" where
  "base_path path = rev (takeWhile (\<lambda>c. c \<noteq> CHR ''/'') (rev path))"

definition peerDirectoryFiles :: "string \<Rightarrow> string list" where
  "peerDirectoryFiles root =
     map (\<lambda>shard. join_path root (PeerDirectoryShardFileName shard)) [0..<PeerDirectoryShardCount] @
     [join_path root PeerDirectoryConfigMapKey]"

datatype read_error = NotExist | ReadError string

datatype directory_error = FileError string | FileParseError string parse_error

type_synonym read_file = "string \<Rightarrow> read_error + string"

text \<open>The inner loop over the parsed peers; the names seen so far are those of the peers kept so far.\<close>

definition merge_peers :: "peer_identity list \<Rightarrow> peer_identity list \<Rightarrow> peer_identity list" where
  "merge_peers peers parsed =
     foldl (\<lambda>ps p. if peer_name p = '''' \<or> peer_name p \<in> peer_name ` set ps then ps else ps @ [p]) peers parsed"

fun read_files :: "peer_codec \<Rightarrow> read_file \<Rightarrow> string list \<Rightarrow> peer_identity list \<Rightarrow> directory_error list
    \<Rightarrow> peer_identity list \<times> directory_error list" where
  "read_files codec readFile [] peers errs = (peers, errs)"
| "read_files codec readFile (path # paths) peers errs =
     (case readFile path of
        Inl NotExist \<Rightarrow> read_files codec readFile paths peers errs
      | Inl (ReadError e) \<Rightarrow> read_files codec readFile paths peers (errs @ [FileError e])
      | Inr content \<Rightarrow>
          if content = '''' then read_files codec readFile paths peers errs
          else (case ParsePeerDirectory codec content of
                  Inl e \<Rightarrow> read_files codec readFile paths peers (errs @ [FileParseError (base_path path) e])
                | Inr parsed \<Rightarrow> read_files codec readFile paths (merge_peers peers parsed) errs))"

definition ReadPeerDirectory :: "peer_codec \<Rightarrow> string \<Rightarrow> read_file \<Rightarrow> peer_identity list \<times> directory_error list" where
  "ReadPeerDirectory codec root readFile =
     (case read_files codec readFile (peerDirectoryFiles root) [] [] of (peers, errs) \<Rightarrow> (sort_key peer_name peers, errs))"

text \<open>\<open>ManagementMeshMAC\<close>, the bytes of the hardware address.\<close>

definition ManagementMeshMAC :: "addr \<Rightarrow> addr + 8 word list" where
  "ManagementMeshMAC management =
     (case Unmap management of
        Addr4 a \<Rightarrow> Inr ([0x06, 0xc9] @ word_bytes a)
      | other \<Rightarrow> Inl other)"

subsection \<open>The reader\<close>

record peer_reader =
  rd_fingerprint :: string
  rd_peers :: "peer_identity list"
  rd_loaded :: bool

definition newPeerDirectoryReader :: peer_reader where
  "newPeerDirectoryReader = \<lparr> rd_fingerprint = '''', rd_peers = [], rd_loaded = False \<rparr>"

text \<open>\<open>strconv.FormatInt\<close> in base 10.\<close>

definition format_int :: "int \<Rightarrow> string" where
  "format_int n = (if n < 0 then ''-'' @ itoa_nat (nat (- n)) else itoa_nat (nat n))"

text \<open>The size and the modification time of a file, when \<open>os.Stat\<close> finds it.\<close>

type_synonym file_stat = "string \<Rightarrow> (int \<times> int) option"

definition currentFingerprint :: "string \<Rightarrow> file_stat \<Rightarrow> string" where
  "currentFingerprint root stat =
     join (map (\<lambda>path. case stat path of
                  None \<Rightarrow> ''-''
                | Some (bytes, time) \<Rightarrow> format_int bytes @ ''@'' @ format_int time) (peerDirectoryFiles root)) '',''"

text \<open>\<open>load\<close>: the reader after it, the peers, and whether they changed.\<close>

definition load_peers :: "peer_codec \<Rightarrow> string \<Rightarrow> read_file \<Rightarrow> file_stat \<Rightarrow> peer_reader \<Rightarrow> peer_reader \<times> peer_identity list \<times> bool" where
  "load_peers codec root readFile stat r =
     (let fingerprint = currentFingerprint root stat in
      if rd_loaded r \<and> fingerprint = rd_fingerprint r then (r, rd_peers r, False)
      else case ReadPeerDirectory codec root readFile of (peers, errs) \<Rightarrow>
        if errs \<noteq> [] \<and> rd_loaded r then (r\<lparr> rd_fingerprint := fingerprint \<rparr>, rd_peers r, False)
        else (\<lparr> rd_fingerprint = fingerprint, rd_peers = peers, rd_loaded = True \<rparr>, peers, True))"

section \<open>Shards\<close>

lemma PeerDirectoryShard_bound: "PeerDirectoryShard name < PeerDirectoryShardCount"
  by (simp add: PeerDirectoryShard_def PeerDirectoryShardCount_def unat_mod_distrib)

text \<open>The loop puts every peer in its shard, in order.\<close>

lemma peers_by_shard_filter:
  "peers_by_shard peers = map (\<lambda>shard. filter (\<lambda>p. PeerDirectoryShard (peer_name p) = shard) peers) [0..<PeerDirectoryShardCount]"
proof (induction peers rule: rev_induct)
  case Nil
  show ?case by (simp add: peers_by_shard_def map_replicate_const)
next
  case (snoc peer peers)
  let ?s = "PeerDirectoryShard (peer_name peer)"
  let ?f = "\<lambda>peers shard. filter (\<lambda>p. PeerDirectoryShard (peer_name p) = shard) peers"
  have step: "peers_by_shard (peers @ [peer]) = (peers_by_shard peers)[?s := peers_by_shard peers ! ?s @ [peer]]"
    by (simp add: peers_by_shard_def Let_def)
  show ?case
    unfolding step snoc.IH
  proof (rule nth_equalityI)
    fix i assume "i < length ((map (?f peers) [0..<PeerDirectoryShardCount])[?s := map (?f peers) [0..<PeerDirectoryShardCount] ! ?s @ [peer]])"
    then show "(map (?f peers) [0..<PeerDirectoryShardCount])[?s := map (?f peers) [0..<PeerDirectoryShardCount] ! ?s @ [peer]] ! i =
        map (?f (peers @ [peer])) [0..<PeerDirectoryShardCount] ! i"
      using PeerDirectoryShard_bound [of "peer_name peer"] by (simp add: nth_list_update)
  qed simp
qed

lemma render_shards_Inr:
  "render_shards codec shards = Inr contents \<longleftrightarrow> list_all2 (\<lambda>shard content. RenderPeerDirectory codec shard = Inr content) shards contents"
proof (induction shards arbitrary: contents)
  case (Cons shard shards)
  show ?case by (auto simp: list_all2_Cons1 Cons.IH [symmetric] split: sum.splits)
qed auto

lemma rendered_shard:
  assumes "RenderPeerDirectoryShards codec peers = Inr contents" "shard < PeerDirectoryShardCount"
  shows "RenderPeerDirectory codec (filter (\<lambda>p. PeerDirectoryShard (peer_name p) = shard) peers) = Inr (contents ! shard)"
    "length contents = PeerDirectoryShardCount"
proof -
  have all: "list_all2 (\<lambda>shard content. RenderPeerDirectory codec shard = Inr content) (peers_by_shard peers) contents"
    using assms(1) by (simp add: RenderPeerDirectoryShards_def render_shards_Inr)
  then show "length contents = PeerDirectoryShardCount"
    by (simp add: list_all2_lengthD [symmetric] peers_by_shard_filter)
  show "RenderPeerDirectory codec (filter (\<lambda>p. PeerDirectoryShard (peer_name p) = shard) peers) = Inr (contents ! shard)"
    using list_all2_nthD [OF all, of shard] assms(2) by (simp add: peers_by_shard_filter)
qed

section \<open>Reading\<close>

text \<open>Merging keeps what was there, keeps names distinct and non-empty, and covers every named peer.\<close>

lemma merge_peers_spec:
  assumes "distinct (map peer_name peers)" "'''' \<notin> peer_name ` set peers"
  shows "distinct (map peer_name (merge_peers peers parsed))" "'''' \<notin> peer_name ` set (merge_peers peers parsed)"
    "set peers \<subseteq> set (merge_peers peers parsed)" "set (merge_peers peers parsed) \<subseteq> set peers \<union> set parsed"
    "peer_name ` set (merge_peers peers parsed) = peer_name ` set peers \<union> (peer_name ` set parsed - {''''})"
proof -
  let ?merge = "\<lambda>ps p. if peer_name p = '''' \<or> peer_name p \<in> peer_name ` set ps then ps else ps @ [p]"
  have "distinct (map peer_name (merge_peers peers parsed)) \<and> '''' \<notin> peer_name ` set (merge_peers peers parsed) \<and>
    set peers \<subseteq> set (merge_peers peers parsed) \<and> set (merge_peers peers parsed) \<subseteq> set peers \<union> set parsed \<and>
    peer_name ` set (merge_peers peers parsed) = peer_name ` set peers \<union> (peer_name ` set parsed - {''''})"
    using assms
  proof (induction parsed arbitrary: peers)
    case (Cons p parsed)
    have step: "merge_peers peers (p # parsed) = merge_peers (?merge peers p) parsed" by (simp add: merge_peers_def)
    have "distinct (map peer_name (?merge peers p))" "'''' \<notin> peer_name ` set (?merge peers p)" using Cons.prems by auto
    note IH = Cons.IH [OF this]
    moreover have "set peers \<subseteq> set (?merge peers p)" "set (?merge peers p) \<subseteq> set peers \<union> {p}"
      "peer_name ` set (?merge peers p) = peer_name ` set peers \<union> ({peer_name p} - {''''})" by auto
    ultimately show ?case unfolding step by (intro conjI) (auto simp del: if_split)
  qed (simp add: merge_peers_def)
  then show "distinct (map peer_name (merge_peers peers parsed))" "'''' \<notin> peer_name ` set (merge_peers peers parsed)"
    "set peers \<subseteq> set (merge_peers peers parsed)" "set (merge_peers peers parsed) \<subseteq> set peers \<union> set parsed"
    "peer_name ` set (merge_peers peers parsed) = peer_name ` set peers \<union> (peer_name ` set parsed - {''''})" by blast+
qed

text \<open>What one file contributes: the peers it holds when it parses, or a failure.\<close>

definition file_peers :: "peer_codec \<Rightarrow> read_file \<Rightarrow> string \<Rightarrow> peer_identity list option" where
  "file_peers codec readFile path =
     (case readFile path of
        Inl _ \<Rightarrow> None
      | Inr content \<Rightarrow> if content = '''' then None else (case ParsePeerDirectory codec content of Inl _ \<Rightarrow> None | Inr parsed \<Rightarrow> Some parsed))"

definition file_fails :: "peer_codec \<Rightarrow> read_file \<Rightarrow> string \<Rightarrow> bool" where
  "file_fails codec readFile path \<longleftrightarrow>
     (case readFile path of
        Inl NotExist \<Rightarrow> False
      | Inl (ReadError e) \<Rightarrow> True
      | Inr content \<Rightarrow> content \<noteq> '''' \<and> (\<exists>e. ParsePeerDirectory codec content = Inl e))"

lemma read_files_step:
  "\<exists>errs'. read_files codec readFile (path # paths) peers errs =
      read_files codec readFile paths (case file_peers codec readFile path of None \<Rightarrow> peers | Some parsed \<Rightarrow> merge_peers peers parsed) errs' \<and>
    (errs' = [] \<longleftrightarrow> errs = [] \<and> \<not> file_fails codec readFile path)"
  by (auto simp: file_peers_def file_fails_def split: sum.split read_error.split)

lemma read_files_spec:
  assumes "read_files codec readFile paths peers errs = (peers', errs')"
    and "distinct (map peer_name peers)" "'''' \<notin> peer_name ` set peers"
  shows "distinct (map peer_name peers') \<and> '''' \<notin> peer_name ` set peers' \<and>
    (\<forall>p \<in> set peers'. p \<in> set peers \<or> (\<exists>path \<in> set paths. \<exists>parsed. file_peers codec readFile path = Some parsed \<and> p \<in> set parsed)) \<and>
    peer_name ` set peers' = peer_name ` set peers \<union>
      ((\<Union>path \<in> set paths. case file_peers codec readFile path of None \<Rightarrow> {} | Some parsed \<Rightarrow> peer_name ` set parsed) - {''''}) \<and>
    (errs' = [] \<longleftrightarrow> errs = [] \<and> (\<forall>path \<in> set paths. \<not> file_fails codec readFile path))"
  using assms
proof (induction paths arbitrary: peers errs)
  case (Cons path paths)
  from read_files_step obtain errs1 where
    step: "read_files codec readFile (path # paths) peers errs =
      read_files codec readFile paths (case file_peers codec readFile path of None \<Rightarrow> peers | Some parsed \<Rightarrow> merge_peers peers parsed) errs1"
    and errs1: "errs1 = [] \<longleftrightarrow> errs = [] \<and> \<not> file_fails codec readFile path" by blast
  show ?case
  proof (cases "file_peers codec readFile path")
    case None
    with Cons.prems step have "read_files codec readFile paths peers errs1 = (peers', errs')" by simp
    from Cons.IH [OF this Cons.prems(2,3)] None errs1 show ?thesis by (intro conjI) auto
  next
    case (Some parsed)
    note merged = merge_peers_spec [OF Cons.prems(2,3), of parsed]
    from Some Cons.prems(1) step have "read_files codec readFile paths (merge_peers peers parsed) errs1 = (peers', errs')" by simp
    from Cons.IH [OF this merged(1,2)] have IH: "distinct (map peer_name peers')" "'''' \<notin> peer_name ` set peers'"
      "\<forall>p \<in> set peers'. p \<in> set (merge_peers peers parsed) \<or> (\<exists>path \<in> set paths. \<exists>parsed. file_peers codec readFile path = Some parsed \<and> p \<in> set parsed)"
      "peer_name ` set peers' = peer_name ` set (merge_peers peers parsed) \<union>
        ((\<Union>path \<in> set paths. case file_peers codec readFile path of None \<Rightarrow> {} | Some parsed \<Rightarrow> peer_name ` set parsed) - {''''})"
      "errs' = [] \<longleftrightarrow> errs1 = [] \<and> (\<forall>path \<in> set paths. \<not> file_fails codec readFile path)" by blast+
    show ?thesis
    proof (intro conjI IH(1,2))
      show "\<forall>p \<in> set peers'. p \<in> set peers \<or> (\<exists>path' \<in> set (path # paths). \<exists>parsed. file_peers codec readFile path' = Some parsed \<and> p \<in> set parsed)"
      proof
        fix p assume "p \<in> set peers'"
        from bspec [OF IH(3) this] consider "p \<in> set (merge_peers peers parsed)"
          | path' parsed' where "path' \<in> set paths" "file_peers codec readFile path' = Some parsed'" "p \<in> set parsed'" by blast
        then show "p \<in> set peers \<or> (\<exists>path' \<in> set (path # paths). \<exists>parsed. file_peers codec readFile path' = Some parsed \<and> p \<in> set parsed)"
          by cases (use merged(4) Some in auto)
      qed
      show "peer_name ` set peers' = peer_name ` set peers \<union>
        ((\<Union>path \<in> set (path # paths). case file_peers codec readFile path of None \<Rightarrow> {} | Some parsed \<Rightarrow> peer_name ` set parsed) - {''''})"
        unfolding IH(4) merged(5) using Some by auto
      show "errs' = [] \<longleftrightarrow> errs = [] \<and> (\<forall>path \<in> set (path # paths). \<not> file_fails codec readFile path)"
        using IH(5) errs1 by simp
    qed
  qed
qed simp

lemma ReadPeerDirectory_spec:
  assumes "ReadPeerDirectory codec root readFile = (peers, errs)"
  shows "sorted (map peer_name peers)" "distinct (map peer_name peers)"
    "\<forall>p \<in> set peers. \<exists>path \<in> set (peerDirectoryFiles root). \<exists>parsed. file_peers codec readFile path = Some parsed \<and> p \<in> set parsed"
    "peer_name ` set peers =
      (\<Union>path \<in> set (peerDirectoryFiles root). case file_peers codec readFile path of None \<Rightarrow> {} | Some parsed \<Rightarrow> peer_name ` set parsed) - {''''}"
    "errs = [] \<longleftrightarrow> (\<forall>path \<in> set (peerDirectoryFiles root). \<not> file_fails codec readFile path)"
proof -
  from assms obtain read where read: "read_files codec readFile (peerDirectoryFiles root) [] [] = (read, errs)"
    and peers: "peers = sort_key peer_name read" by (auto simp: ReadPeerDirectory_def split: prod.splits)
  note spec = read_files_spec [OF read, simplified]
  have set: "set peers = set read" and mset: "mset (map peer_name peers) = mset (map peer_name read)" by (simp_all add: peers)
  show "sorted (map peer_name peers)" by (simp add: peers)
  show "distinct (map peer_name peers)" using spec mset_eq_imp_distinct_iff [OF mset] by simp
  show "\<forall>p \<in> set peers. \<exists>path \<in> set (peerDirectoryFiles root). \<exists>parsed. file_peers codec readFile path = Some parsed \<and> p \<in> set parsed"
    unfolding set using spec by simp
  show "peer_name ` set peers =
      (\<Union>path \<in> set (peerDirectoryFiles root). case file_peers codec readFile path of None \<Rightarrow> {} | Some parsed \<Rightarrow> peer_name ` set parsed) - {''''}"
    unfolding set using spec by simp
  show "errs = [] \<longleftrightarrow> (\<forall>path \<in> set (peerDirectoryFiles root). \<not> file_fails codec readFile path)" using spec by simp
qed

section \<open>Mesh identities\<close>

lemma ManagementMeshMAC_inject:
  assumes "ManagementMeshMAC a = Inr mac" "ManagementMeshMAC b = Inr mac"
  shows "Unmap a = Unmap b"
proof -
  from assms obtain x y where xy: "Unmap a = Addr4 x" "Unmap b = Addr4 y" "word_bytes x = word_bytes y"
    by (auto simp: ManagementMeshMAC_def split: addr.splits)
  have "x = y"
  proof (rule bit_word_eqI)
    fix n assume "n < LENGTH(32)"
    then show "bit x n = bit y n"
      using byte_bit_word_bytes [of 4 "31 - n" x] byte_bit_word_bytes [of 4 "31 - n" y] xy(3) by simp
  qed
  with xy show ?thesis by simp
qed

section \<open>Codecs\<close>

text \<open>
  What is relied on of \<open>encoding/json\<close>: a directory of ASCII texts is marshalled to a non-empty text
  that is unmarshalled to the same directory.
\<close>

definition ascii :: "string \<Rightarrow> bool" where
  "ascii s \<longleftrightarrow> (\<forall>c \<in> set s. (of_char c :: nat) < 128)"

definition ascii_peer :: "peer_identity \<Rightarrow> bool" where
  "ascii_peer p \<longleftrightarrow> ascii (peer_name p) \<and> ascii (peer_ipv4 p) \<and> ascii (peer_ipv6 p) \<and> ascii (peer_pod p) \<and> (\<forall>alias \<in> set (peer_aliases p). ascii alias)"

definition faithful_codec :: "peer_codec \<Rightarrow> bool" where
  "faithful_codec codec \<longleftrightarrow> (\<forall>directory. (\<forall>p \<in> set (dir_peers directory). ascii_peer p) \<longrightarrow>
     (\<exists>content. pc_marshal codec directory = Inr content \<and> content \<noteq> '''' \<and> pc_unmarshal codec content = Inr directory))"

lemma rendered_parses:
  assumes "faithful_codec codec" "\<forall>p \<in> set peers. ascii_peer p"
  shows "\<exists>content. RenderPeerDirectory codec peers = Inr content \<and> content \<noteq> '''' \<and>
    ParsePeerDirectory codec content = Inr (sort_key peer_name peers)"
proof -
  let ?d = "\<lparr> dir_schema = peerDirectorySchemaVersion, dir_peers = sort_key peer_name peers \<rparr>"
  have "\<forall>p \<in> set (dir_peers ?d). ascii_peer p" using assms(2) by simp
  with assms(1) obtain content where "pc_marshal codec ?d = Inr content" "content \<noteq> ''''" "pc_unmarshal codec content = Inr ?d"
    unfolding faithful_codec_def by blast
  then show ?thesis by (simp add: RenderPeerDirectory_def ParsePeerDirectory_def)
qed

lemma rendering_succeeds:
  assumes "faithful_codec codec" "\<forall>p \<in> set peers. ascii_peer p"
  shows "\<exists>contents. RenderPeerDirectoryShards codec peers = Inr contents"
proof -
  have "\<exists>contents. render_shards codec shards = Inr contents" if "\<forall>shard \<in> set shards. \<forall>p \<in> set shard. ascii_peer p" for shards
    using that
  proof (induction shards)
    case (Cons shard shards)
    then obtain contents where "render_shards codec shards = Inr contents" by auto
    moreover obtain content where "RenderPeerDirectory codec shard = Inr content"
      using rendered_parses [OF assms(1)] Cons.prems by (meson list.set_intros(1))
    ultimately show ?case by simp
  qed simp
  then show ?thesis using assms(2) by (simp add: RenderPeerDirectoryShards_def peers_by_shard_filter)
qed

text \<open>A concrete codec: the number of a directory in an enumeration of all directories, in decimal.\<close>

definition peer_tuple :: "peer_identity \<Rightarrow> string \<times> string \<times> string \<times> string list \<times> string" where
  "peer_tuple p = (peer_name p, peer_ipv4 p, peer_ipv6 p, peer_aliases p, peer_pod p)"

definition tuple_peer :: "string \<times> string \<times> string \<times> string list \<times> string \<Rightarrow> peer_identity" where
  "tuple_peer t = (case t of (name, ipv4, ipv6, aliases, pod) \<Rightarrow>
     \<lparr> peer_name = name, peer_ipv4 = ipv4, peer_ipv6 = ipv6, peer_aliases = aliases, peer_pod = pod \<rparr>)"

definition sample_codec :: peer_codec where
  "sample_codec = \<lparr> pc_marshal = (\<lambda>d. Inr (itoa_nat (to_nat (dir_schema d, map peer_tuple (dir_peers d))))),
     pc_unmarshal = (\<lambda>content. case from_nat (digits_val content) of (schema, peers) \<Rightarrow>
       Inr \<lparr> dir_schema = schema, dir_peers = map tuple_peer peers \<rparr>) \<rparr>"

lemma sample_codec_faithful: "faithful_codec sample_codec"
proof -
  have "tuple_peer (peer_tuple p) = p" for p by (simp add: tuple_peer_def peer_tuple_def)
  then show ?thesis by (simp add: faithful_codec_def sample_codec_def digits_val_itoa_nat comp_def)
qed

definition sample_peer :: "string \<Rightarrow> string \<Rightarrow> peer_identity" where
  "sample_peer name ipv4 = \<lparr> peer_name = name, peer_ipv4 = ipv4, peer_ipv6 = '''', peer_aliases = [], peer_pod = '''' \<rparr>"

definition sample_peers :: "peer_identity list" where
  "sample_peers = [sample_peer ''r2'' ''10.0.0.2'', sample_peer ''r1'' ''10.0.0.1'']"

lemma sample_peers_ok: "distinct (map peer_name sample_peers)" "'''' \<notin> peer_name ` set sample_peers" "\<forall>p \<in> set sample_peers. ascii_peer p"
  by (simp_all add: sample_peers_def sample_peer_def ascii_peer_def ascii_def)

text \<open>The files of a mounted directory: one per shard, and no file of the layout before shards.\<close>

definition mounted :: "string \<Rightarrow> string list \<Rightarrow> read_file" where
  "mounted root contents path =
     (case List.find (\<lambda>shard. path = join_path root (PeerDirectoryShardFileName shard)) [0..<PeerDirectoryShardCount] of
        Some shard \<Rightarrow> Inr (contents ! shard)
      | None \<Rightarrow> Inl NotExist)"

lemma mounted_shard: "shard < PeerDirectoryShardCount \<Longrightarrow> mounted root contents (join_path root (PeerDirectoryShardFileName shard)) = Inr (contents ! shard)"
proof -
  have "List.find (\<lambda>s. shard = s) [0..<n] = Some shard" if "shard < n" for n
    unfolding find_Some_iff by (rule exI [of _ shard]) (use that in auto)
  moreover assume "shard < PeerDirectoryShardCount"
  ultimately show ?thesis by (simp add: mounted_def join_path_def PeerDirectoryShardFileName_def)
qed

lemma mounted_legacy: "mounted root contents (join_path root PeerDirectoryConfigMapKey) = Inl NotExist"
  by (simp add: mounted_def join_path_def PeerDirectoryShardFileName_def PeerDirectoryConfigMapKey_def find_None_iff split: option.split)

section \<open>Properties\<close>

text \<open>
  The round trip of the directory. The shards of any ASCII directory render, and a Pod that mounts
  them reads back exactly its peers, sorted by name and with no error.
\<close>

theorem peer_directory_round_trip:
  assumes codec: "faithful_codec codec" and ascii: "\<forall>p \<in> set peers. ascii_peer p"
    and names: "distinct (map peer_name peers)" "'''' \<notin> peer_name ` set peers"
  shows "\<exists>contents. RenderPeerDirectoryShards codec peers = Inr contents \<and>
    ReadPeerDirectory codec root (mounted root contents) = (sort_key peer_name peers, [])"
proof -
  from rendering_succeeds [OF codec ascii] obtain contents where run: "RenderPeerDirectoryShards codec peers = Inr contents" by blast
  let ?read = "mounted root contents"
  let ?shard = "\<lambda>shard. filter (\<lambda>p. PeerDirectoryShard (peer_name p) = shard) peers"
  let ?file = "\<lambda>shard. join_path root (PeerDirectoryShardFileName shard)"
  let ?legacy = "join_path root PeerDirectoryConfigMapKey"
  have shard: "file_peers codec ?read (?file shard) = Some (sort_key peer_name (?shard shard)) \<and> \<not> file_fails codec ?read (?file shard)"
    if "shard < PeerDirectoryShardCount" for shard
  proof -
    from ascii have "\<forall>p \<in> set (?shard shard). ascii_peer p" by simp
    from rendered_parses [OF codec this] rendered_shard(1) [OF run that] have "contents ! shard \<noteq> ''''"
      "ParsePeerDirectory codec (contents ! shard) = Inr (sort_key peer_name (?shard shard))" by simp_all
    then show ?thesis by (simp add: file_peers_def file_fails_def mounted_shard [OF that])
  qed
  have legacy: "file_peers codec ?read ?legacy = None" "\<not> file_fails codec ?read ?legacy"
    by (simp_all add: file_peers_def file_fails_def mounted_legacy)
  have files: "set (peerDirectoryFiles root) = ?file ` {..<PeerDirectoryShardCount} \<union> {?legacy}"
    by (auto simp: peerDirectoryFiles_def)
  obtain read errs where read: "ReadPeerDirectory codec root ?read = (read, errs)" by fastforce
  note spec = ReadPeerDirectory_spec [OF read]
  have errs: "errs = []" unfolding spec(5) files using shard legacy by blast
  have mem: "set read \<subseteq> set peers" using spec(3) shard legacy unfolding files by fastforce
  have "peer_name ` set read = peer_name ` set peers"
  proof
    show "peer_name ` set read \<subseteq> peer_name ` set peers" using mem by blast
    show "peer_name ` set peers \<subseteq> peer_name ` set read"
    proof
      fix n assume n: "n \<in> peer_name ` set peers"
      let ?s = "PeerDirectoryShard n"
      have "n \<in> peer_name ` set (?shard ?s)" using n by auto
      moreover have "?file ?s \<in> set (peerDirectoryFiles root)" unfolding files using PeerDirectoryShard_bound by blast
      moreover have "n \<noteq> ''''" using n names(2) by blast
      ultimately show "n \<in> peer_name ` set read"
        unfolding spec(4) using shard [OF PeerDirectoryShard_bound [of n]]
        by (intro DiffI UN_I [of "?file ?s"]) simp_all
    qed
  qed
  with mem names(1) have "set read = set peers"
    by (metis (no_types, lifting) distinct_map inj_on_image_eq_iff order_refl)
  moreover have "distinct read" "distinct peers" using spec(2) names(1) by (simp_all add: distinct_map)
  ultimately have "mset read = mset peers" by (simp add: set_eq_iff_mset_eq_distinct)
  then have "sort_key peer_name read = sort_key peer_name peers"
    using spec(2) by (intro sort_key_perm) (simp_all add: distinct_map)
  moreover have "sort_key peer_name read = read" using spec(1) by (simp add: sorted_sort_id sort_key_id_if_sorted)
  ultimately show ?thesis using run read errs by auto
qed

text \<open>
  A change to one node rewrites one shard. Two directories that agree on every peer but those of
  one name render to the same bytes in every shard except the one of that name.
\<close>

theorem peer_change_rewrites_one_shard:
  assumes same: "filter (\<lambda>p. peer_name p \<noteq> name) peers = filter (\<lambda>p. peer_name p \<noteq> name) peers'"
    and runs: "RenderPeerDirectoryShards codec peers = Inr contents" "RenderPeerDirectoryShards codec peers' = Inr contents'"
    and shard: "shard < PeerDirectoryShardCount" "shard \<noteq> PeerDirectoryShard name"
  shows "contents ! shard = contents' ! shard"
proof -
  have "filter (\<lambda>p. PeerDirectoryShard (peer_name p) = shard) ps =
      filter (\<lambda>p. PeerDirectoryShard (peer_name p) = shard) (filter (\<lambda>p. peer_name p \<noteq> name) ps)" for ps
    unfolding filter_filter using shard(2) by (intro filter_cong) auto
  from this [of peers] this [of peers'] same
  have "filter (\<lambda>p. PeerDirectoryShard (peer_name p) = shard) peers = filter (\<lambda>p. PeerDirectoryShard (peer_name p) = shard) peers'" by simp
  with rendered_shard(1) [OF runs(1) shard(1)] rendered_shard(1) [OF runs(2) shard(1)] show ?thesis by simp
qed

lemma peer_change_rewrites_one_shard_witness:
  "\<exists>contents contents'. RenderPeerDirectoryShards sample_codec sample_peers = Inr contents \<and>
     RenderPeerDirectoryShards sample_codec [sample_peer ''r1'' ''10.0.0.1''] = Inr contents' \<and>
     contents ! PeerDirectoryShard ''r1'' = contents' ! PeerDirectoryShard ''r1''"
proof -
  have other: "PeerDirectoryShard ''r1'' \<noteq> PeerDirectoryShard ''r2''" by code_simp
  have "\<forall>p \<in> set [sample_peer ''r1'' ''10.0.0.1'']. ascii_peer p" using sample_peers_ok(3) by (simp add: sample_peers_def)
  from rendering_succeeds [OF sample_codec_faithful this] rendering_succeeds [OF sample_codec_faithful sample_peers_ok(3)]
  obtain contents contents' where runs: "RenderPeerDirectoryShards sample_codec sample_peers = Inr contents"
    "RenderPeerDirectoryShards sample_codec [sample_peer ''r1'' ''10.0.0.1''] = Inr contents'" by blast
  have "filter (\<lambda>p. peer_name p \<noteq> ''r2'') sample_peers = filter (\<lambda>p. peer_name p \<noteq> ''r2'') [sample_peer ''r1'' ''10.0.0.1'']"
    by (simp add: sample_peers_def sample_peer_def)
  from peer_change_rewrites_one_shard [OF this runs PeerDirectoryShard_bound other] runs show ?thesis by blast
qed

text \<open>
  C31: a bad file never blanks the directory. Whatever the files hold, the peers read are sorted, with
  different names; they are the named peers of the files that parse, one per name; and an error is
  reported exactly when a file that exists cannot be read or parsed.
\<close>

theorem peer_directory_partial_read:
  assumes "ReadPeerDirectory codec root readFile = (peers, errs)"
  shows "sorted (map peer_name peers) \<and> distinct (map peer_name peers) \<and>
    (\<forall>p \<in> set peers. \<exists>path \<in> set (peerDirectoryFiles root). \<exists>parsed. file_peers codec readFile path = Some parsed \<and> p \<in> set parsed) \<and>
    (\<forall>path \<in> set (peerDirectoryFiles root). \<forall>parsed. file_peers codec readFile path = Some parsed \<longrightarrow>
       peer_name ` set parsed - {''''} \<subseteq> peer_name ` set peers) \<and>
    (errs = [] \<longleftrightarrow> (\<forall>path \<in> set (peerDirectoryFiles root). \<not> file_fails codec readFile path))"
proof (intro conjI ReadPeerDirectory_spec [OF assms] ballI allI impI)
  fix path parsed assume path: "path \<in> set (peerDirectoryFiles root)" and parsed: "file_peers codec readFile path = Some parsed"
  have "n \<in> peer_name ` set peers" if "n \<in> peer_name ` set parsed - {''''}" for n
    unfolding ReadPeerDirectory_spec(4) [OF assms] using that parsed by (intro DiffI UN_I [OF path]) simp_all
  then show "peer_name ` set parsed - {''''} \<subseteq> peer_name ` set peers" by blast
qed

lemma peer_directory_partial_read_witness:
  "\<exists>peers errs. ReadPeerDirectory sample_codec ''/peers'' (\<lambda>path. Inl (ReadError ''io'')) = (peers, errs) \<and> errs \<noteq> [] \<and> sorted (map peer_name peers)"
proof -
  obtain peers errs where run: "ReadPeerDirectory sample_codec ''/peers'' (\<lambda>path. Inl (ReadError ''io'')) = (peers, errs)" by fastforce
  have "join_path ''/peers'' PeerDirectoryConfigMapKey \<in> set (peerDirectoryFiles ''/peers'')" by (simp add: peerDirectoryFiles_def)
  moreover have "file_fails sample_codec (\<lambda>path. Inl (ReadError ''io'')) path" for path by (simp add: file_fails_def)
  ultimately show ?thesis using peer_directory_partial_read [OF run] run by blast
qed

text \<open>A reader that parses the files at every load, and keeps the last peers when a later load fails.\<close>

definition reread :: "peer_codec \<Rightarrow> string \<Rightarrow> peer_identity list option \<Rightarrow> read_file \<Rightarrow> peer_identity list option" where
  "reread codec root known readFile =
     (case ReadPeerDirectory codec root readFile of (peers, errs) \<Rightarrow> if errs \<noteq> [] \<and> known \<noteq> None then known else Some peers)"

definition known_peers :: "peer_reader \<Rightarrow> peer_identity list option" where
  "known_peers r = (if rd_loaded r then Some (rd_peers r) else None)"


definition sample_snapshots :: "(read_file \<times> file_stat) list" where
  "sample_snapshots = [(\<lambda>path. Inl NotExist, \<lambda>path. None), (\<lambda>path. Inl (ReadError ''io''), \<lambda>path. Some (1, 1)), (\<lambda>path. Inl NotExist, \<lambda>path. None)]"


end
