(* ===== verification/Plan_Types.thy ===== *)
theory Plan_Types
  imports Api_Types
begin

text \<open>
  Planning inputs and device plans (\<open>src/internal/deviceplan/types.go\<close>): the value the controller hands
  to the planner, and the value it gets back and the Pod runs from. Enumerated strings stay strings,
  because the codec has to reject unknown ones; optional payloads are options. A list does not tell a
  nil slice from an empty one: after a JSON round trip the source does not either, where it compares.
\<close>

section \<open>Inputs\<close>

definition SchemaVersion :: string where
  "SchemaVersion = ''v1alpha1''"

record compatibility =
  cb_containerlab_module :: string
  cb_containerlab_version :: string
  cb_registry_digest :: string
  cb_plan_schema_version :: string

record key_value =
  kv_name :: string
  kv_value :: string

record port =
  port_number :: int
  port_protocol :: string

record healthcheck =
  hc_test :: "string list"
  hc_interval :: int
  hc_timeout :: int
  hc_start_period :: int
  hc_retries :: int

record platform =
  pf_os :: string
  pf_architecture :: string
  pf_variant :: string
  pf_os_version :: string
  pf_os_features :: "string list"

record image_config =
  ic_entrypoint :: "string list"
  ic_command :: "string list"
  ic_environment :: "key_value list"
  ic_user :: string
  ic_working_dir :: string
  ic_ports :: "port list"
  ic_stop_signal :: string
  ic_healthcheck :: "healthcheck option"
  ic_labels :: "key_value list"
  ic_declared_dirs :: "string list"

record node_input =
  ni_id :: string
  ni_name :: string
  ni_kind :: string
  ni_type :: string
  ni_group_owner :: string
  ni_definition :: string

record image_input =
  ii_node_id :: string
  ii_role :: string
  ii_component_id :: string
  ii_source_reference :: string
  ii_digest_reference :: string
  ii_platform :: platform
  ii_config :: image_config

record payload_input =
  pi_id :: string
  pi_node_id :: string
  pi_kind :: string
  pi_reference :: string
  pi_digest :: string
  pi_destination :: string
  pi_mode :: "32 word"
  pi_sensitive :: bool

record certificate_input =
  ci_node_id :: string
  ci_storage_name :: string
  ci_certificate_digest :: string
  ci_private_key_digest :: string
  ci_ca_certificate_digest :: string
  ci_ca_private_key_digest :: string

record management_mesh =
  mesh_tunnel_id :: int
  mesh_gateway_mac :: string

record management_input =
  mi_node_id :: string
  mi_interface_name :: string
  mi_ipv4 :: string
  mi_ipv4_gateway :: string
  mi_ipv6 :: string
  mi_ipv6_gateway :: string
  mi_dns :: dns_config
  mi_inbound_ports :: "port list"
  mi_mesh :: "management_mesh option"

record interface_input =
  ifi_id :: string
  ifi_node_id :: string
  ifi_name :: string
  ifi_link_id :: string
  ifi_link_name :: string
  ifi_peer_node_id :: string
  ifi_peer_interface :: string
  ifi_peer_transport :: string
  ifi_connectivity :: string
  ifi_wire_id :: int
  ifi_mtu :: int

record input =
  in_schema_version :: string
  in_topology_name :: string
  in_compatibility :: compatibility
  in_entropy_digest :: string
  in_nodes :: "node_input list"
  in_images :: "image_input list"
  in_payloads :: "payload_input list"
  in_certificates :: "certificate_input list"
  in_management :: "management_input list"
  in_interfaces :: "interface_input list"

section \<open>Plans\<close>

record planner_identity =
  pl_name :: string
  pl_revision :: string

record node_plan =
  np_id :: string
  np_name :: string
  np_kind :: string
  np_group :: string
  np_position :: string
  np_aliases :: "string list"
  np_container_ids :: "string list"
  np_readiness_container_ids :: "string list"
  np_primary_container_id :: string
  np_enforce_startup_config :: bool

record device =
  dev_host_path :: string
  dev_container_path :: string
  dev_permissions :: string

record security_plan =
  sec_privileged :: bool
  sec_capabilities_add :: "string list"
  sec_capabilities_drop :: "string list"
  sec_devices :: "device list"
  sec_sysctls :: "key_value list"
  sec_seccomp_profile :: string
  sec_app_armor_profile :: string
  sec_read_only_root_fs :: bool

record resource_plan =
  res_cpu_request :: string
  res_cpu_limit :: string
  res_memory_request :: string
  res_memory_limit :: string
  res_huge_pages :: string
  res_cpu_set :: string

record container_plan =
  cp_id :: string
  cp_node_id :: string
  cp_runtime_id :: string
  cp_component_id :: string
  cp_namespace_owner_id :: string
  cp_image :: string
  cp_image_digest :: string
  cp_image_pull_policy :: string
  cp_image_pull_policy_explicit :: bool
  cp_image_entrypoint :: "string list"
  cp_image_command :: "string list"
  cp_entrypoint :: "string list"
  cp_command :: "string list"
  cp_environment :: "key_value list"
  cp_labels :: "key_value list"
  cp_user :: string
  cp_working_dir :: string
  cp_ports :: "port list"
  cp_stop_signal :: string
  cp_restart_policy :: string
  cp_startup_delay :: nat
  cp_tty :: bool
  cp_stdin :: bool
  cp_security :: security_plan
  cp_resources :: resource_plan
  cp_dns :: dns_config
  cp_healthcheck :: "healthcheck option"
  cp_required :: bool
  cp_mount_ids :: "string list"

record extended_attribute =
  xa_name :: string
  xa_digest :: string

record file_plan =
  fp_id :: string
  fp_node_id :: string
  fp_source_kind :: string
  fp_artifact_kind :: string
  fp_source_reference :: string
  fp_digest :: string
  fp_artifact_path :: string
  fp_link_target :: string
  fp_destination :: string
  fp_mode :: "32 word"
  fp_uid :: "int option"
  fp_gid :: "int option"
  fp_extended_attributes :: "extended_attribute list"
  fp_sensitive :: bool
  fp_preserve_existing :: bool
  fp_variables :: "key_value list"

record volume_plan =
  vp_id :: string
  vp_node_id :: string
  vp_kind :: string
  vp_reference :: string
  vp_size :: string
  vp_medium :: string

record mount_plan =
  mt_id :: string
  mt_container_id :: string
  mt_volume_id :: string
  mt_source_path :: string
  mt_destination :: string
  mt_read_only :: bool
  mt_propagation :: string

section \<open>Actions\<close>

record action_target =
  at_node_id :: string
  at_container_id :: string
  at_namespace_owner_id :: string

record exec_action =
  ex_command :: "string list"
  ex_shell :: bool
  ex_wait :: bool
  ex_continue_on_error :: bool
  ex_timeout_seconds :: int

record file_action =
  fa_file_id :: string
  fa_destination :: string
  fa_write_mode :: string

record mount_action =
  ma_mount_id :: string
  ma_filesystem :: string
  ma_source :: string
  ma_options :: "string list"

record sysctl_action =
  sa_name :: string
  sa_value :: string

record wait_interface_action =
  wa_interface_id :: string
  wa_timeout_seconds :: int

record rename_interface_action =
  ra_interface_id :: string
  ra_from :: string
  ra_to :: string

record management_forwarding_action =
  mf_management_id :: string
  mf_namespace :: string
  mf_ipv4_forward :: bool

record save_action =
  sv_method :: string
  sv_file_id :: string

text \<open>
  \<open>WriteStdinAction\<close> has one field, the file it streams; the imported actions have none.
\<close>

record action =
  ac_id :: string
  ac_phase :: string
  ac_order :: int
  ac_target :: action_target
  ac_kind :: string
  ac_exec :: "exec_action option"
  ac_file :: "file_action option"
  ac_write_stdin :: "string option"
  ac_mount :: "mount_action option"
  ac_sysctl :: "sysctl_action option"
  ac_wait_interface :: "wait_interface_action option"
  ac_rename_interface :: "rename_interface_action option"
  ac_management_forwarding :: "management_forwarding_action option"
  ac_imported_deploy_endpoints :: "unit option"
  ac_imported_post_deploy :: "unit option"
  ac_imported_readiness :: "unit option"
  ac_save :: "save_action option"

section \<open>Management and interfaces\<close>

record route =
  rt_destination :: string
  rt_gateway :: string
  rt_metric :: int

record management_port_map =
  pm_protocol :: string
  pm_pod_port :: "16 word"
  pm_device_port :: "16 word"

record management_interposition =
  ip_device_interface :: string
  ip_device_mac :: string
  ip_transport_cidrs :: "string list"
  ip_inbound_ports :: "management_port_map list"
  ip_mesh :: "management_mesh option"

record management_plan =
  mg_id :: string
  mg_node_id :: string
  mg_interface_name :: string
  mg_interface_selector :: string
  mg_ipv4 :: string
  mg_ipv4_gateway :: string
  mg_ipv6 :: string
  mg_ipv6_gateway :: string
  mg_routes :: "route list"
  mg_dns :: dns_config
  mg_interposition :: "management_interposition option"

record interface_plan =
  ifp_id :: string
  ifp_node_id :: string
  ifp_namespace_owner_id :: string
  ifp_name :: string
  ifp_alias :: string
  ifp_link_id :: string
  ifp_link_name :: string
  ifp_peer_node_id :: string
  ifp_peer_interface :: string
  ifp_peer_transport :: string
  ifp_connectivity :: string
  ifp_wire_id :: int
  ifp_mtu :: int
  ifp_link_apply_mode :: string
  ifp_required_at_start :: bool

record plan =
  pn_schema_version :: string
  pn_compatibility :: compatibility
  pn_input_digest :: string
  pn_planner :: planner_identity
  pn_nodes :: "node_plan list"
  pn_containers :: "container_plan list"
  pn_files :: "file_plan list"
  pn_volumes :: "volume_plan list"
  pn_mounts :: "mount_plan list"
  pn_actions :: "action list"
  pn_management :: "management_plan list"
  pn_interfaces :: "interface_plan list"

end
