(* ===== verification/Management_Addresses.thy ===== *)
theory Management_Addresses
  imports Peer_Directory Grouping Plan_Types
begin

text \<open>
  Management addressing (\<open>src/controllers/node/directmanagement.go\<close> and \<open>compileDirectManagement\<close> of
  \<open>direct.go\<close>): the address pools of a namespace, the allocation of an address to every node that
  declares none, and the management input and the peer identity of every node. Allocation probes
  the range at positions taken from a digest of the node's uid, so it needs no state between passes.

  The digest \<open>sha256.Sum256\<close> is the parameter \<open>sum256\<close> of the definitions: what is shown holds for
  every function from texts to byte arrays. The nodes of a namespace come from \<open>NodesByName\<close>, whose
  values are never nil. The order of the entries of the map is the order in which Go's range loops
  visit them, which the language leaves open.
\<close>

unbundle bit_operations_syntax

section \<open>Definitions\<close>

type_synonym digest = "string \<Rightarrow> 8 word list"

type_synonym nodes_by_name = "(string, node) gomap"

record management_policy =
  mp_disabled :: bool
  mp_ipv4_subnet :: string
  mp_ipv4_gw :: string
  mp_ipv4_range :: string
  mp_ipv6_subnet :: string
  mp_ipv6_gw :: string
  mp_ipv6_range :: string

definition empty_policy :: management_policy where
  "empty_policy = \<lparr> mp_disabled = False, mp_ipv4_subnet = '''', mp_ipv4_gw = '''', mp_ipv4_range = '''',
     mp_ipv6_subnet = '''', mp_ipv6_gw = '''', mp_ipv6_range = '''' \<rparr>"

datatype management_error =
    RangeRequiresSubnet
  | SubnetInvalid
  | RangeInvalid
  | RangeOutsideSubnet
  | AddressDeclaredTwice addr string string
  | GatewayInvalid
  | GatewayDeclared string
  | RangeExhausted
  | AddressWrongFamily
  | AddressOutsideSubnet
  | AddressInvalid
  | AddressNeedsSubnet
  | GatewayNeedsSource
  | GatewayOffLink
  | AddressReserved
  | AddressUsedTwice string string
  | AddressWhileDisabled

text \<open>The \<open>deviceplan.Error\<close> these functions build, all with the code and the behaviour of invalid controller input.\<close>

record plan_error =
  pe_node_id :: string
  pe_field :: string
  pe_message :: management_error

subsection \<open>Pools\<close>

record management_pool =
  pool_network :: prefix
  pool_allocation :: prefix
  pool_ipv4 :: bool
  pool_enabled :: bool

definition copyHashBit :: "8 word list \<Rightarrow> 8 word list \<Rightarrow> nat \<Rightarrow> nat \<Rightarrow> 8 word list" where
  "copyHashBit destination digest destinationBit digestBit =
     (let destinationMask = push_bit (7 - destinationBit mod 8) 1;
          digestMask = push_bit (7 - digestBit mod 8) 1;
          byte = destination ! (destinationBit div 8) in
      destination[destinationBit div 8 :=
        (if digest ! (digestBit div 8) AND digestMask \<noteq> 0 then byte OR destinationMask else byte AND NOT destinationMask)])"

text \<open>The loops over the host bits of an address of either family.\<close>

definition copyHashBits :: "nat \<Rightarrow> 8 word list \<Rightarrow> 'a::len word \<Rightarrow> 'a word" where
  "copyHashBits bits digest a =
     bytes_word (fold (\<lambda>b bytes. copyHashBit bytes digest b (b - bits)) [bits..<LENGTH('a)] (word_bytes a))"

definition setHostBits :: "nat \<Rightarrow> 'a::len word \<Rightarrow> 'a word" where
  "setHostBits bits a =
     bytes_word (fold (\<lambda>b bytes. bytes[b div 8 := bytes ! (b div 8) OR push_bit (7 - b mod 8) 1]) [bits..<LENGTH('a)] (word_bytes a))"

definition hashedPrefixAddress :: "digest \<Rightarrow> prefix \<Rightarrow> string \<Rightarrow> int \<Rightarrow> addr" where
  "hashedPrefixAddress sum256 p seed attempt =
     (let digest = sum256 (seed @ [CHR 0x00] @ itoa_nat (nat attempt)) in
      case prefix_addr (Masked p) of
        Addr4 a \<Rightarrow> Addr4 (copyHashBits (nat (prefix_bits p)) digest a)
      | Addr6 a _ \<Rightarrow> Addr6 (copyHashBits (nat (prefix_bits p)) digest a) ''''
      | NoAddr \<Rightarrow> Addr6 (copyHashBits (nat (prefix_bits p)) digest 0) '''')"

definition lastPrefixAddress :: "prefix \<Rightarrow> addr" where
  "lastPrefixAddress p =
     (case prefix_addr (Masked p) of
        Addr4 a \<Rightarrow> Addr4 (setHostBits (nat (prefix_bits p)) a)
      | Addr6 a _ \<Rightarrow> Addr6 (setHostBits (nat (prefix_bits p)) a) ''''
      | NoAddr \<Rightarrow> Addr6 (setHostBits (nat (prefix_bits p)) 0) '''')"

definition no_prefix :: prefix where
  "no_prefix = Prefix NoAddr (-1)"

definition newDirectManagementPool :: "string \<Rightarrow> string \<Rightarrow> bool \<Rightarrow> management_error + management_pool" where
  "newDirectManagementPool subnet addressRange ipv4 =
     (if subnet = ''''
      then (if addressRange \<noteq> '''' then Inl RangeRequiresSubnet
            else Inr \<lparr> pool_network = no_prefix, pool_allocation = no_prefix, pool_ipv4 = ipv4, pool_enabled = False \<rparr>)
      else case ParsePrefix subnet of
        None \<Rightarrow> Inl SubnetInvalid
      | Some parsed \<Rightarrow>
          if Is4 (prefix_addr parsed) \<noteq> ipv4 then Inl SubnetInvalid
          else let network = Masked parsed in
            if addressRange = ''''
            then Inr \<lparr> pool_network = network, pool_allocation = network, pool_ipv4 = ipv4, pool_enabled = True \<rparr>
            else case ParsePrefix addressRange of
              None \<Rightarrow> Inl RangeInvalid
            | Some parsedRange \<Rightarrow>
                if Is4 (prefix_addr parsedRange) \<noteq> ipv4 then Inl RangeInvalid
                else let allocation = Masked parsedRange in
                  if prefix_bits allocation < prefix_bits network \<or> \<not> Contains network (prefix_addr allocation) \<or>
                     \<not> Contains network (lastPrefixAddress allocation)
                  then Inl RangeOutsideSubnet
                  else Inr \<lparr> pool_network = network, pool_allocation = allocation, pool_ipv4 = ipv4, pool_enabled = True \<rparr>)"

subsection \<open>Addresses\<close>

definition parseLooseManagementAddress :: "string \<Rightarrow> bool \<Rightarrow> management_error + addr" where
  "parseLooseManagementAddress raw ipv4 =
     (case ParsePrefix raw of
        Some p \<Rightarrow> if Is4 (prefix_addr p) \<noteq> ipv4 then Inl AddressWrongFamily else Inr (prefix_addr p)
      | None \<Rightarrow>
          (case ParseAddr raw of
             None \<Rightarrow> Inl AddressInvalid
           | Some a \<Rightarrow> if Is4 a \<noteq> ipv4 then Inl AddressInvalid else Inr a))"

definition usableManagementAddress :: "management_pool \<Rightarrow> addr \<Rightarrow> addr \<Rightarrow> bool" where
  "usableManagementAddress pool address gateway \<longleftrightarrow>
     \<not> (address = NoAddr \<or> address = prefix_addr (Masked (pool_allocation pool)) \<or> address = gateway) \<and>
     \<not> (pool_ipv4 pool \<and> address = lastPrefixAddress (pool_allocation pool))"

definition normalizeDirectManagementAddress :: "string \<Rightarrow> management_pool \<Rightarrow> management_error + string" where
  "normalizeDirectManagementAddress raw pool =
     (if raw = '''' then Inr ''''
      else case ParsePrefix raw of
        Some p \<Rightarrow>
          if Is4 (prefix_addr p) \<noteq> pool_ipv4 pool then Inl AddressWrongFamily
          else if pool_enabled pool \<and> (prefix_bits p \<noteq> prefix_bits (pool_network pool) \<or> \<not> Contains (pool_network pool) (prefix_addr p))
          then Inl AddressOutsideSubnet
          else Inr (prefix_string p)
      | None \<Rightarrow>
          (case ParseAddr raw of
             None \<Rightarrow> Inl AddressInvalid
           | Some a \<Rightarrow>
               if Is4 a \<noteq> pool_ipv4 pool then Inl AddressInvalid
               else if \<not> pool_enabled pool \<or> \<not> Contains (pool_network pool) a then Inl AddressNeedsSubnet
               else Inr (prefix_string (PrefixFrom a (prefix_bits (pool_network pool))))))"

definition validateDirectManagementGateway :: "string \<Rightarrow> string \<Rightarrow> bool \<Rightarrow> management_error option" where
  "validateDirectManagementGateway raw source ipv4 =
     (if raw = '''' then None
      else case ParsePrefix source of
        None \<Rightarrow> Some GatewayNeedsSource
      | Some p \<Rightarrow>
          if Is4 (prefix_addr p) \<noteq> ipv4 then Some GatewayNeedsSource
          else (case ParseAddr raw of
                  None \<Rightarrow> Some GatewayOffLink
                | Some gateway \<Rightarrow> if Is4 gateway \<noteq> ipv4 \<or> \<not> Contains p gateway then Some GatewayOffLink else None))"

definition validateDirectManagementHostAddress :: "string \<Rightarrow> management_pool \<Rightarrow> string \<Rightarrow> management_error option" where
  "validateDirectManagementHostAddress raw pool gateway =
     (if raw = '''' \<or> \<not> pool_enabled pool then None
      else case ParsePrefix raw of
        None \<Rightarrow> Some AddressInvalid
      | Some p \<Rightarrow>
          let gatewayAddress = (if gateway \<noteq> '''' then (case ParseAddr gateway of Some a \<Rightarrow> a | None \<Rightarrow> NoAddr) else NoAddr) in
          if \<not> usableManagementAddress pool (prefix_addr p) gatewayAddress then Some AddressReserved else None)"

definition directManagementAddressIdentity :: "string \<Rightarrow> string" where
  "directManagementAddressIdentity raw = (case ParsePrefix raw of None \<Rightarrow> '''' | Some p \<Rightarrow> addr_string (prefix_addr p))"

definition bareDirectManagementAddress :: "string \<Rightarrow> string" where
  "bareDirectManagementAddress cidr =
     (if cidr = '''' then ''''
      else case cut CHR ''/'' cidr of (address, _, found) \<Rightarrow> if \<not> found then cidr else address)"

subsection \<open>Allocation\<close>

text \<open>The first loop: the declared addresses inside the range.\<close>

fun reserve_declared :: "management_pool \<Rightarrow> (node \<Rightarrow> string) \<Rightarrow> (string \<times> node) list \<Rightarrow> (addr, string) gomap
    \<Rightarrow> management_error + (addr, string) gomap" where
  "reserve_declared pool address [] reserved = Inr reserved"
| "reserve_declared pool address ((name, node) # rest) reserved =
     (if address node = '''' then reserve_declared pool address rest reserved
      else case parseLooseManagementAddress (address node) (pool_ipv4 pool) of
        Inl _ \<Rightarrow> reserve_declared pool address rest reserved
      | Inr candidate \<Rightarrow>
          if \<not> Contains (pool_allocation pool) candidate then reserve_declared pool address rest reserved
          else let existing = gm_str reserved candidate in
            if existing \<noteq> '''' \<and> existing \<noteq> name then Inl (AddressDeclaredTwice candidate existing name)
            else reserve_declared pool address rest (AList.update candidate name reserved))"

definition reserve_gateway :: "management_pool \<Rightarrow> string \<Rightarrow> (addr, string) gomap
    \<Rightarrow> management_error + addr \<times> (addr, string) gomap" where
  "reserve_gateway pool gateway reserved =
     (if gateway = '''' then Inr (NoAddr, reserved)
      else case ParseAddr gateway of
        None \<Rightarrow> Inl GatewayInvalid
      | Some gatewayAddress \<Rightarrow>
          if Is4 gatewayAddress \<noteq> pool_ipv4 pool \<or> \<not> Contains (pool_network pool) gatewayAddress then Inl GatewayInvalid
          else if gm_str reserved gatewayAddress \<noteq> '''' then Inl (GatewayDeclared (gm_str reserved gatewayAddress))
          else Inr (gatewayAddress, AList.update gatewayAddress ''gateway'' reserved))"

text \<open>The probe loop over the attempts.\<close>

function probe_address :: "digest \<Rightarrow> management_pool \<Rightarrow> addr \<Rightarrow> (addr, string) gomap \<Rightarrow> string \<Rightarrow> int \<Rightarrow> int \<Rightarrow> addr option" where
  "probe_address sum256 pool gatewayAddress reserved seed attempt maxAttempts =
     (if attempt < maxAttempts
      then let candidate = hashedPrefixAddress sum256 (pool_allocation pool) seed attempt in
        if \<not> usableManagementAddress pool candidate gatewayAddress \<or> gm_str reserved candidate \<noteq> ''''
        then probe_address sum256 pool gatewayAddress reserved seed (attempt + 1) maxAttempts
        else Some candidate
      else None)"
  by pat_completeness auto
termination by (relation "measure (\<lambda>(sum256, pool, gw, reserved, seed, attempt, maxAttempts). nat (maxAttempts - attempt))") auto

declare probe_address.simps [simp del]

text \<open>The loop over the nodes without a declared address: the uid of a node, or its name, seeds its probes.\<close>

fun allocate_names :: "digest \<Rightarrow> management_pool \<Rightarrow> addr \<Rightarrow> (string \<Rightarrow> string) \<Rightarrow> int \<Rightarrow> string list \<Rightarrow> (addr, string) gomap
    \<Rightarrow> (string, string) gomap \<Rightarrow> management_error + (string, string) gomap" where
  "allocate_names sum256 pool gatewayAddress uid maxAttempts [] reserved result = Inr result"
| "allocate_names sum256 pool gatewayAddress uid maxAttempts (name # names) reserved result =
     (let seed = (if uid name = '''' then name else uid name) in
      case probe_address sum256 pool gatewayAddress reserved seed 0 maxAttempts of
        None \<Rightarrow> Inl RangeExhausted
      | Some allocated \<Rightarrow>
          allocate_names sum256 pool gatewayAddress uid maxAttempts names (AList.update allocated name reserved)
            (AList.update name (prefix_string (PrefixFrom allocated (prefix_bits (pool_network pool)))) result))"

definition node_uid :: "nodes_by_name \<Rightarrow> string \<Rightarrow> string" where
  "node_uid nodesByName name = (case map_of nodesByName name of Some node \<Rightarrow> nd_uid node | None \<Rightarrow> '''')"

definition allocateDirectManagementAddresses :: "digest \<Rightarrow> nodes_by_name \<Rightarrow> management_pool \<Rightarrow> (node \<Rightarrow> string) \<Rightarrow> string
    \<Rightarrow> management_error + (string, string) gomap" where
  "allocateDirectManagementAddresses sum256 nodesByName pool address gateway =
     (if \<not> pool_enabled pool then Inr []
      else case reserve_declared pool address nodesByName [] of
        Inl e \<Rightarrow> Inl e
      | Inr declared \<Rightarrow>
          (case reserve_gateway pool gateway declared of
             Inl e \<Rightarrow> Inl e
           | Inr (gatewayAddress, reserved) \<Rightarrow>
               let names = map fst (filter (\<lambda>(name, node). address node = '''') nodesByName);
                   sorted = sort_key (\<lambda>name. node_uid nodesByName name @ [CHR 0x00] @ name) names;
                   maxAttempts = max 4096 (int (length nodesByName) * 1024) in
               allocate_names sum256 pool gatewayAddress (node_uid nodesByName) maxAttempts sorted reserved []))"

subsection \<open>The policy\<close>

definition directManagementError :: "string \<Rightarrow> management_error \<Rightarrow> plan_error" where
  "directManagementError field message = \<lparr> pe_node_id = '''', pe_field = ''nodeProfile.mgmt.'' @ field, pe_message = message \<rparr>"

definition directNodeManagementError :: "node \<Rightarrow> string \<Rightarrow> management_error \<Rightarrow> plan_error" where
  "directNodeManagementError node field message =
     \<lparr> pe_node_id = nd_uid node, pe_field = ''nodes.'' @ nd_name node @ ''.spec.'' @ field, pe_message = message \<rparr>"

definition defaultManagementIPv4Subnet :: string where
  "defaultManagementIPv4Subnet = ''172.20.20.0/24''"

definition firstUsableManagementAddress :: "string \<Rightarrow> management_error + string" where
  "firstUsableManagementAddress subnet =
     (case ParsePrefix subnet of
        None \<Rightarrow> Inl SubnetInvalid
      | Some p \<Rightarrow> Inr (addr_string (Next (prefix_addr (Masked p)))))"

definition default_ipv4_gateway :: "management_policy \<Rightarrow> plan_error + management_policy" where
  "default_ipv4_gateway settings =
     (if mp_ipv4_gw settings = ''''
      then (case firstUsableManagementAddress (mp_ipv4_subnet settings) of
              Inl e \<Rightarrow> Inl (directManagementError ''ipv4-subnet'' e)
            | Inr gateway \<Rightarrow> Inr (settings\<lparr> mp_ipv4_gw := gateway \<rparr>))
      else Inr settings)"

definition default_ipv6_gateway :: "management_policy \<Rightarrow> plan_error + management_policy" where
  "default_ipv6_gateway settings =
     (if mp_ipv6_subnet settings \<noteq> '''' \<and> mp_ipv6_gw settings = ''''
      then (case firstUsableManagementAddress (mp_ipv6_subnet settings) of
              Inl e \<Rightarrow> Inl (directManagementError ''ipv6-subnet'' e)
            | Inr gateway \<Rightarrow> Inr (settings\<lparr> mp_ipv6_gw := gateway \<rparr>))
      else Inr settings)"

definition applyDefaultManagementPolicy :: "management_policy \<Rightarrow> plan_error + management_policy" where
  "applyDefaultManagementPolicy settings =
     (let settings1 = (if mp_ipv4_subnet settings = '''' then settings\<lparr> mp_ipv4_subnet := defaultManagementIPv4Subnet \<rparr> else settings) in
      case default_ipv4_gateway settings1 of
        Inl e \<Rightarrow> Inl e
      | Inr settings2 \<Rightarrow> default_ipv6_gateway settings2)"

text \<open>The loop over the sorted names for one family.\<close>

fun unique_family :: "(node \<Rightarrow> string) \<Rightarrow> bool \<Rightarrow> nodes_by_name \<Rightarrow> string list \<Rightarrow> (addr, string) gomap \<Rightarrow> management_error option" where
  "unique_family address ipv4 nodesByName [] owners = None"
| "unique_family address ipv4 nodesByName (name # names) owners =
     (case map_of nodesByName name of
        None \<Rightarrow> unique_family address ipv4 nodesByName names owners
      | Some node \<Rightarrow>
          if address node = '''' then unique_family address ipv4 nodesByName names owners
          else case parseLooseManagementAddress (address node) ipv4 of
            Inl _ \<Rightarrow> unique_family address ipv4 nodesByName names owners
          | Inr a \<Rightarrow>
              if gm_str owners a \<noteq> '''' then Some (AddressDeclaredTwice a (gm_str owners a) name)
              else unique_family address ipv4 nodesByName names (AList.update a name owners))"

abbreviation mgmt_ipv4 :: "node \<Rightarrow> string" where "mgmt_ipv4 node \<equiv> ns_mgmt_ipv4 (nd_spec node)"
abbreviation mgmt_ipv6 :: "node \<Rightarrow> string" where "mgmt_ipv6 node \<equiv> ns_mgmt_ipv6 (nd_spec node)"

definition validateUniqueExplicitManagementAddresses :: "nodes_by_name \<Rightarrow> management_error option" where
  "validateUniqueExplicitManagementAddresses nodesByName =
     (let names = sort (map fst nodesByName) in
      case unique_family mgmt_ipv4 True nodesByName names [] of
        Some e \<Rightarrow> Some e
      | None \<Rightarrow> unique_family mgmt_ipv6 False nodesByName names [])"

subsection \<open>Peer identities\<close>

definition component_aliases :: "string \<Rightarrow> component option list \<Rightarrow> string list" where
  "component_aliases name components =
     concat (map (\<lambda>c. case c of
         None \<Rightarrow> []
       | Some component \<Rightarrow> if comp_slot component = '''' then [] else [name @ ''-'' @ to_lower (comp_slot component)]) components)"

text \<open>The address of one family: the declared one, or the allocated one; none when the declaration does not normalize.\<close>

definition identity_address :: "string \<Rightarrow> string \<Rightarrow> management_pool \<Rightarrow> (string, string) gomap \<Rightarrow> string" where
  "identity_address raw name pool allocations =
     (case normalizeDirectManagementAddress raw pool of
        Inl _ \<Rightarrow> ''''
      | Inr declared \<Rightarrow> bareDirectManagementAddress (if declared = '''' then gm_str allocations name else declared))"

definition node_identity :: "management_pool \<Rightarrow> management_pool \<Rightarrow> (string, string) gomap \<Rightarrow> (string, string) gomap
    \<Rightarrow> (string, string) gomap \<Rightarrow> string \<times> node \<Rightarrow> peer_identity list" where
  "node_identity ipv4Pool ipv6Pool ipv4Allocations ipv6Allocations podAddressesByNodeUID entry =
     (case entry of (name, node) \<Rightarrow>
        if has_prefix (ns_network_mode (nd_spec node)) ''container:'' then []
        else let identity = \<lparr> peer_name = name,
                   peer_ipv4 = identity_address (mgmt_ipv4 node) name ipv4Pool ipv4Allocations,
                   peer_ipv6 = identity_address (mgmt_ipv6 node) name ipv6Pool ipv6Allocations,
                   peer_aliases = ns_aliases (nd_spec node) @ component_aliases name (ns_components (nd_spec node)),
                   peer_pod = gm_str podAddressesByNodeUID (nd_uid node) \<rparr> in
          if peer_ipv4 identity = '''' \<and> peer_ipv6 identity = '''' then [] else [identity])"

definition or_none :: "management_error + (string, string) gomap \<Rightarrow> (string, string) gomap" where
  "or_none r = (case r of Inl _ \<Rightarrow> [] | Inr allocations \<Rightarrow> allocations)"

definition compileNamespaceManagementIdentities :: "digest \<Rightarrow> nodes_by_name \<Rightarrow> management_policy option \<Rightarrow> (string, string) gomap
    \<Rightarrow> peer_identity list" where
  "compileNamespaceManagementIdentities sum256 nodesByName mgmt podAddressesByNodeUID =
     (if (case mgmt of None \<Rightarrow> False | Some policy \<Rightarrow> mp_disabled policy) then []
      else case applyDefaultManagementPolicy (case mgmt of None \<Rightarrow> empty_policy | Some policy \<Rightarrow> policy) of
        Inl _ \<Rightarrow> []
      | Inr settings \<Rightarrow>
          (case newDirectManagementPool (mp_ipv4_subnet settings) (mp_ipv4_range settings) True of
             Inl _ \<Rightarrow> []
           | Inr ipv4Pool \<Rightarrow>
               (case newDirectManagementPool (mp_ipv6_subnet settings) (mp_ipv6_range settings) False of
                  Inl _ \<Rightarrow> []
                | Inr ipv6Pool \<Rightarrow>
                    let ipv4Allocations = or_none (allocateDirectManagementAddresses sum256 nodesByName ipv4Pool mgmt_ipv4 (mp_ipv4_gw settings));
                        ipv6Allocations = or_none (allocateDirectManagementAddresses sum256 nodesByName ipv6Pool mgmt_ipv6 (mp_ipv6_gw settings)) in
                    sort_key peer_name
                      (concat (map (node_identity ipv4Pool ipv6Pool ipv4Allocations ipv6Allocations podAddressesByNodeUID) nodesByName)))))"

subsection \<open>Management inputs\<close>

definition managementMeshTunnelSpan :: int where
  "managementMeshTunnelSpan = 2 ^ 24 - 1"

text \<open>The verb \<open>%02x\<close> of a byte.\<close>

definition hex2 :: "8 word \<Rightarrow> string" where
  "hex2 b = [hex_char (unat b div 16), hex_char (unat b mod 16)]"

definition managementMeshIdentity :: "digest \<Rightarrow> string \<Rightarrow> int \<times> string" where
  "managementMeshIdentity sum256 namespace =
     (let digest = sum256 (''c9s-management-mesh/'' @ namespace);
          tunnelID = 1 + uint (bytes_word (take 4 digest) :: 32 word) mod managementMeshTunnelSpan in
      (tunnelID, ''02:c9:'' @ join (map hex2 (take 4 (drop 4 digest))) '':''))"

definition no_dns :: dns_config where
  "no_dns = \<lparr> dns_servers = [], dns_search = [], dns_options = [] \<rparr>"

text \<open>The loop over the two addresses of a node, which records the owner of each.\<close>

fun claim_addresses :: "string \<Rightarrow> string list \<Rightarrow> (string, string) gomap \<Rightarrow> plan_error + (string, string) gomap" where
  "claim_addresses name [] addresses = Inr addresses"
| "claim_addresses name (address # rest) addresses =
     (if address = '''' then claim_addresses name rest addresses
      else let key = directManagementAddressIdentity address; existing = gm_str addresses key in
        if existing \<noteq> '''' then Inl (directManagementError ''addresses'' (AddressUsedTwice existing name))
        else claim_addresses name rest (AList.update key name addresses))"

definition member_address :: "node \<Rightarrow> string \<Rightarrow> string \<Rightarrow> string \<Rightarrow> management_pool \<Rightarrow> (string, string) gomap \<Rightarrow> string \<Rightarrow> plan_error + string" where
  "member_address node name field raw pool allocations gateway =
     (case normalizeDirectManagementAddress raw pool of
        Inl e \<Rightarrow> Inl (directNodeManagementError node field e)
      | Inr declared \<Rightarrow>
          let address = (if declared = '''' then gm_str allocations name else declared) in
          (case validateDirectManagementHostAddress address pool gateway of
             Some e \<Rightarrow> Inl (directNodeManagementError node field e)
           | None \<Rightarrow> Inr address))"

text \<open>One member of the group: its management input and the addresses claimed so far.\<close>

definition member_input :: "digest \<Rightarrow> management_policy \<Rightarrow> management_pool \<Rightarrow> management_pool \<Rightarrow> (string, string) gomap \<Rightarrow> (string, string) gomap
    \<Rightarrow> port list \<Rightarrow> string \<Rightarrow> node \<Rightarrow> (string, string) gomap \<Rightarrow> plan_error + management_input \<times> (string, string) gomap" where
  "member_input sum256 settings ipv4Pool ipv6Pool ipv4Allocations ipv6Allocations inboundPorts name node addresses =
     (case member_address node name ''mgmtIPv4'' (mgmt_ipv4 node) ipv4Pool ipv4Allocations (mp_ipv4_gw settings) of
        Inl e \<Rightarrow> Inl e
      | Inr ipv4 \<Rightarrow>
      (case member_address node name ''mgmtIPv6'' (mgmt_ipv6 node) ipv6Pool ipv6Allocations (mp_ipv6_gw settings) of
        Inl e \<Rightarrow> Inl e
      | Inr ipv6 \<Rightarrow>
      (case validateDirectManagementGateway (mp_ipv4_gw settings) ipv4 True of
        Some e \<Rightarrow> Inl (directManagementError ''ipv4-gw'' e)
      | None \<Rightarrow>
      (case validateDirectManagementGateway (mp_ipv6_gw settings) ipv6 False of
        Some e \<Rightarrow> Inl (directManagementError ''ipv6-gw'' e)
      | None \<Rightarrow>
      (case claim_addresses name [ipv4, ipv6] addresses of
        Inl e \<Rightarrow> Inl e
      | Inr claimed \<Rightarrow>
          let mesh = managementMeshIdentity sum256 (nd_namespace node) in
          Inr (\<lparr> mi_node_id = nd_uid node, mi_interface_name = '''', mi_ipv4 = ipv4, mi_ipv4_gateway = mp_ipv4_gw settings,
                 mi_ipv6 = ipv6, mi_ipv6_gateway = mp_ipv6_gw settings,
                 mi_dns = (case ns_dns (nd_spec node) of Some dns \<Rightarrow> dns | None \<Rightarrow> no_dns),
                 mi_inbound_ports = inboundPorts,
                 mi_mesh = Some \<lparr> mesh_tunnel_id = fst mesh, mesh_gateway_mac = snd mesh \<rparr> \<rparr>, claimed))))))"

definition input_nonempty :: "management_input \<Rightarrow> bool" where
  "input_nonempty input \<longleftrightarrow> mi_ipv4 input \<noteq> '''' \<or> mi_ipv4_gateway input \<noteq> '''' \<or> mi_ipv6 input \<noteq> '''' \<or> mi_ipv6_gateway input \<noteq> '''' \<or>
     dns_servers (mi_dns input) \<noteq> [] \<or> dns_search (mi_dns input) \<noteq> [] \<or> dns_options (mi_dns input) \<noteq> []"

text \<open>The loop over the members, for the member step \<open>step\<close>.\<close>

fun compile_members :: "(string \<Rightarrow> node \<Rightarrow> (string, string) gomap \<Rightarrow> plan_error + management_input \<times> (string, string) gomap) \<Rightarrow> nodes_by_name
    \<Rightarrow> string list \<Rightarrow> (string, string) gomap \<Rightarrow> management_input list \<Rightarrow> plan_error + management_input list" where
  "compile_members step nodesByName [] addresses result = Inr result"
| "compile_members step nodesByName (name # members) addresses result =
     (case map_of nodesByName name of
        None \<Rightarrow> compile_members step nodesByName members addresses result
      | Some node \<Rightarrow>
          if has_prefix (ns_network_mode (nd_spec node)) ''container:'' then compile_members step nodesByName members addresses result
          else (case step name node addresses of
                  Inl e \<Rightarrow> Inl e
                | Inr (input, claimed) \<Rightarrow>
                    compile_members step nodesByName members claimed (if input_nonempty input then result @ [input] else result)))"

definition disabled_conflict :: "nodes_by_name \<Rightarrow> string list \<Rightarrow> plan_error option" where
  "disabled_conflict nodesByName groupMembers =
     map_option (\<lambda>name. directNodeManagementError (the (map_of nodesByName name)) ''management'' AddressWhileDisabled)
       (List.find (\<lambda>name. case map_of nodesByName name of
           None \<Rightarrow> False | Some node \<Rightarrow> mgmt_ipv4 node \<noteq> '''' \<or> mgmt_ipv6 node \<noteq> '''') groupMembers)"

definition compileDirectManagement :: "digest \<Rightarrow> string list \<Rightarrow> nodes_by_name \<Rightarrow> management_policy option \<Rightarrow> port list
    \<Rightarrow> plan_error + management_input list" where
  "compileDirectManagement sum256 groupMembers nodesByName mgmt inboundPorts =
     (if (case mgmt of None \<Rightarrow> False | Some policy \<Rightarrow> mp_disabled policy)
      then (case disabled_conflict nodesByName groupMembers of Some e \<Rightarrow> Inl e | None \<Rightarrow> Inr [])
      else case validateUniqueExplicitManagementAddresses nodesByName of
        Some e \<Rightarrow> Inl (directManagementError ''addresses'' e)
      | None \<Rightarrow>
      (case applyDefaultManagementPolicy (case mgmt of None \<Rightarrow> empty_policy | Some policy \<Rightarrow> policy) of
        Inl e \<Rightarrow> Inl e
      | Inr settings \<Rightarrow>
      (case newDirectManagementPool (mp_ipv4_subnet settings) (mp_ipv4_range settings) True of
        Inl e \<Rightarrow> Inl (directManagementError ''ipv4-subnet'' e)
      | Inr ipv4Pool \<Rightarrow>
      (case newDirectManagementPool (mp_ipv6_subnet settings) (mp_ipv6_range settings) False of
        Inl e \<Rightarrow> Inl (directManagementError ''ipv6-subnet'' e)
      | Inr ipv6Pool \<Rightarrow>
      (case allocateDirectManagementAddresses sum256 nodesByName ipv4Pool mgmt_ipv4 (mp_ipv4_gw settings) of
        Inl e \<Rightarrow> Inl (directManagementError ''ipv4-range'' e)
      | Inr ipv4Allocations \<Rightarrow>
      (case allocateDirectManagementAddresses sum256 nodesByName ipv6Pool mgmt_ipv6 (mp_ipv6_gw settings) of
        Inl e \<Rightarrow> Inl (directManagementError ''ipv6-range'' e)
      | Inr ipv6Allocations \<Rightarrow>
          compile_members (member_input sum256 settings ipv4Pool ipv6Pool ipv4Allocations ipv6Allocations inboundPorts)
            nodesByName groupMembers [] []))))))"

section \<open>Host bits\<close>

lemma same_bit_position: "(k :: nat) div 8 = d div 8 \<Longrightarrow> 7 - k mod 8 = 7 - d mod 8 \<longleftrightarrow> k = d"
proof -
  assume "k div 8 = d div 8"
  moreover have "k = 8 * (k div 8) + k mod 8" "d = 8 * (d div 8) + d mod 8" by simp_all
  moreover have "k mod 8 < 8" "d mod 8 < 8" by simp_all
  ultimately show ?thesis by linarith
qed

lemma bit_byte_mask:
  assumes "k div 8 = d div 8"
  shows "bit (push_bit (7 - d mod 8) 1 :: 8 word) (7 - k mod 8) \<longleftrightarrow> k = d"
  using same_bit_position [OF assms] by (auto simp: bit_exp_iff possible_bit_word)

lemma byte_bit_update:
  assumes "d < 8 * length bs"
  shows "byte_bit (bs[d div 8 := w]) k = (if k div 8 = d div 8 then bit w (7 - k mod 8) else byte_bit bs k)"
proof -
  have "d div 8 < length bs" using assms by (simp add: less_mult_imp_div_less mult.commute)
  then show ?thesis by (simp add: byte_bit_def nth_list_update)
qed

lemma byte_bit_copyHashBit:
  assumes "d < 8 * length bytes"
  shows "byte_bit (copyHashBit bytes digest d g) k = (if k = d then byte_bit digest g else byte_bit bytes k)"
proof (cases "k div 8 = d div 8")
  case True
  note bit_byte_mask [OF True]
  moreover have "7 - k mod 8 < 8" by simp
  ultimately show ?thesis
    unfolding copyHashBit_def Let_def byte_bit_update [OF assms] bit_iff_and_push_bit_not_eq_0 [symmetric]
    using True by (auto simp: bit_or_iff bit_and_iff bit_not_iff byte_bit_def)
next
  case False
  then show ?thesis unfolding copyHashBit_def Let_def byte_bit_update [OF assms] by auto
qed

lemma length_copyHashBit [simp]: "length (copyHashBit bytes digest d g) = length bytes"
  by (simp add: copyHashBit_def Let_def)

lemma byte_bit_copied:
  assumes "\<forall>b \<in> set bs. b < 8 * length bytes"
  shows "byte_bit (fold (\<lambda>b bytes. copyHashBit bytes digest b (b - bits)) bs bytes) k =
      (if k \<in> set bs then byte_bit digest (k - bits) else byte_bit bytes k)"
  using assms by (induction bs arbitrary: bytes) (auto simp: byte_bit_copyHashBit)

lemma byte_bit_filled:
  assumes "\<forall>b \<in> set bs. b < 8 * length bytes"
  shows "byte_bit (fold (\<lambda>b bytes. bytes[b div 8 := bytes ! (b div 8) OR push_bit (7 - b mod 8) 1]) bs bytes) k \<longleftrightarrow>
      k \<in> set bs \<or> byte_bit bytes k"
  using assms
proof (induction bs arbitrary: bytes)
  case (Cons b bs)
  let ?v = "bytes[b div 8 := bytes ! (b div 8) OR push_bit (7 - b mod 8) 1]"
  have "byte_bit ?v k \<longleftrightarrow> k = b \<or> byte_bit bytes k"
  proof (cases "k div 8 = b div 8")
    case True
    note bit_byte_mask [OF True]
    with True Cons.prems show ?thesis by (auto simp: byte_bit_update bit_or_iff) (simp_all add: byte_bit_def)
  next
    case False
    with Cons.prems show ?thesis by (auto simp: byte_bit_update)
  qed
  with Cons show ?case by auto
qed simp

lemma length_copied [simp]: "length (fold (\<lambda>b bytes. copyHashBit bytes digest b (b - bits)) bs bytes) = length bytes"
  by (induction bs arbitrary: bytes) simp_all

lemma length_filled [simp]:
  "length (fold (\<lambda>b bytes. bytes[b div 8 := bytes ! (b div 8) OR push_bit (7 - b mod 8) 1]) bs bytes) = length bytes"
  by (induction bs arbitrary: bytes) simp_all

text \<open>Copied digest bits stand below the prefix, and the bits of the prefix stay.\<close>

lemma bit_copyHashBits:
  assumes "LENGTH('a) = 8 * m" "n < LENGTH('a)"
  shows "bit (copyHashBits bits digest (a :: 'a::len word)) n =
      (if n < LENGTH('a) - bits then byte_bit digest (LENGTH('a) - 1 - n - bits) else bit a n)"
proof -
  have len: "8 * length (word_bytes a) = LENGTH('a)" using assms(1) by simp
  have "\<forall>b \<in> set [bits..<LENGTH('a)]. b < 8 * length (word_bytes a)" using len by auto
  note copied = byte_bit_copied [OF this, of digest bits]
  have "bit (copyHashBits bits digest a) n =
      (if LENGTH('a) - 1 - n \<in> set [bits..<LENGTH('a)] then byte_bit digest (LENGTH('a) - 1 - n - bits)
       else byte_bit (word_bytes a) (LENGTH('a) - 1 - n))"
    unfolding copyHashBits_def bit_bytes_word length_copied len copied using assms(2) by simp
  moreover have "LENGTH('a) - 1 - n \<in> set [bits..<LENGTH('a)] \<longleftrightarrow> n < LENGTH('a) - bits" using assms(2) by auto
  moreover have "byte_bit (word_bytes a) (LENGTH('a) - 1 - n) = bit a n"
    using byte_bit_word_bytes [OF assms(1), of "LENGTH('a) - 1 - n" a] assms(2) by simp
  ultimately show ?thesis by simp
qed

lemma bit_setHostBits:
  assumes "LENGTH('a) = 8 * m" "n < LENGTH('a)"
  shows "bit (setHostBits bits (a :: 'a::len word)) n \<longleftrightarrow> n < LENGTH('a) - bits \<or> bit a n"
proof -
  have len: "8 * length (word_bytes a) = LENGTH('a)" using assms(1) by simp
  have "\<forall>b \<in> set [bits..<LENGTH('a)]. b < 8 * length (word_bytes a)" using len by auto
  note filled = byte_bit_filled [OF this]
  have "bit (setHostBits bits a) n \<longleftrightarrow>
      LENGTH('a) - 1 - n \<in> set [bits..<LENGTH('a)] \<or> byte_bit (word_bytes a) (LENGTH('a) - 1 - n)"
    unfolding setHostBits_def bit_bytes_word length_filled len filled using assms(2) by simp
  moreover have "LENGTH('a) - 1 - n \<in> set [bits..<LENGTH('a)] \<longleftrightarrow> n < LENGTH('a) - bits" using assms(2) by auto
  moreover have "byte_bit (word_bytes a) (LENGTH('a) - 1 - n) = bit a n"
    using byte_bit_word_bytes [OF assms(1), of "LENGTH('a) - 1 - n" a] assms(2) by simp
  ultimately show ?thesis by simp
qed

lemma contains_copyHashBits:
  assumes "LENGTH('a) = 8 * m"
  shows "contains_word bits a (copyHashBits bits digest (a :: 'a::len word))"
  unfolding contains_word_iff
proof (intro allI impI)
  fix n assume "LENGTH('a) - bits \<le> n"
  then show "bit (copyHashBits bits digest a) n = bit a n"
    using bit_copyHashBits [OF assms, of n bits digest a]
    by (cases "n < LENGTH('a)") (auto dest: bit_imp_le_length)
qed

section \<open>Prefixes and pools\<close>

definition valid_prefix :: "bool \<Rightarrow> prefix \<Rightarrow> bool" where
  "valid_prefix ipv4 p \<longleftrightarrow> prefix_addr p \<noteq> NoAddr \<and> without_zone (prefix_addr p) = prefix_addr p \<and> Is4 (prefix_addr p) = ipv4 \<and>
     0 \<le> prefix_bits p \<and> prefix_bits p \<le> int (bit_len (prefix_addr p))"

lemma without_zone_idem [simp]: "without_zone (without_zone a) = without_zone a"
  by (cases a) simp_all

lemma ParseAddr_valid: "ParseAddr s = Some a \<Longrightarrow> a \<noteq> NoAddr"
  by (auto simp: ParseAddr_def parseIPv4_def parseIPv6_def Let_def split: option.splits if_splits prod.splits)

lemma PrefixFrom_valid:
  assumes "a \<noteq> NoAddr" "0 \<le> bits" "bits \<le> int (bit_len a)"
  shows "valid_prefix (Is4 a) (PrefixFrom a bits)" "prefix_addr (PrefixFrom a bits) = without_zone a"
    "prefix_bits (PrefixFrom a bits) = bits"
  using assms by (cases a; simp add: valid_prefix_def PrefixFrom_def)+

lemma ParsePrefix_valid:
  assumes "ParsePrefix s = Some p"
  shows "valid_prefix (Is4 (prefix_addr p)) p"
proof -
  have "\<exists>a b bits. ParseAddr b = Some a \<and> p = PrefixFrom a bits \<and> 0 \<le> bits \<and> bits \<le> int (bit_len a)"
    using assms by (auto simp: ParsePrefix_def Let_def not_less split: prod.splits option.splits if_splits bool.splits)
  then obtain a b bits where "ParseAddr b = Some a" and p: "p = PrefixFrom a bits" "0 \<le> bits" "bits \<le> int (bit_len a)"
    by blast
  then have "a \<noteq> NoAddr" by (simp add: ParseAddr_valid)
  from PrefixFrom_valid [OF this p(2,3)] p(1) show ?thesis by (simp add: valid_prefix_def)
qed

lemma bit_len_Masked: "valid_prefix ipv4 p \<Longrightarrow> bit_len (prefix_addr (Masked p)) = bit_len (prefix_addr p)"
  by (cases p rule: Masked.cases) (auto simp: valid_prefix_def)

lemma Masked_valid: "valid_prefix ipv4 p \<Longrightarrow> valid_prefix ipv4 (Masked p) \<and> prefix_bits (Masked p) = prefix_bits p"
  by (cases p rule: Masked.cases) (auto simp: valid_prefix_def)

lemma mask_word_idem: "mask_word bits (mask_word bits a) = mask_word bits a"
  by (rule bit_word_eqI) (auto simp: bit_mask_word)

lemma Masked_Masked: "Masked (Masked p) = Masked p"
  by (cases p rule: Masked.cases) (auto simp: mask_word_idem)

lemma Contains_valid: "Contains p a \<Longrightarrow> a \<noteq> NoAddr \<and> without_zone a = a \<and> Is4 a = Is4 (prefix_addr p)"
  by (cases "(p, a)" rule: Contains.cases) auto

lemma contains_word_trans:
  assumes "m \<le> k" "contains_word m q p" "contains_word k p a"
  shows "contains_word m q (a :: 'a::len word)"
  unfolding contains_word_iff
proof (intro allI impI)
  fix n assume n: "LENGTH('a) - m \<le> n"
  with assms(1) have "LENGTH('a) - k \<le> n" by simp
  with n assms(2,3) show "bit a n = bit q n" unfolding contains_word_iff by metis
qed

lemma Contains_trans:
  assumes "prefix_bits network \<le> prefix_bits allocation" "Contains network (prefix_addr allocation)" "Contains allocation a"
  shows "Contains network a"
  using assms
  by (cases "(network, prefix_addr allocation)" rule: Contains.cases; cases "(allocation, a)" rule: Contains.cases)
     (auto intro: contains_word_trans [rotated] nat_mono)

text \<open>An enabled pool has a subnet and a range of its family, both in canonical form, the range inside the subnet.\<close>

definition pool_ok :: "management_pool \<Rightarrow> bool" where
  "pool_ok pool \<longleftrightarrow> (pool_enabled pool \<longrightarrow>
     valid_prefix (pool_ipv4 pool) (pool_network pool) \<and> Masked (pool_network pool) = pool_network pool \<and>
     valid_prefix (pool_ipv4 pool) (pool_allocation pool) \<and> Masked (pool_allocation pool) = pool_allocation pool \<and>
     prefix_bits (pool_network pool) \<le> prefix_bits (pool_allocation pool) \<and>
     (\<forall>a. Contains (pool_allocation pool) a \<longrightarrow> Contains (pool_network pool) a))"

lemma newDirectManagementPool_ok:
  assumes "newDirectManagementPool subnet addressRange ipv4 = Inr pool"
  shows "pool_ok pool" "pool_ipv4 pool = ipv4" "pool_enabled pool \<longleftrightarrow> subnet \<noteq> ''''"
proof -
  show "pool_ipv4 pool = ipv4" "pool_enabled pool \<longleftrightarrow> subnet \<noteq> ''''"
    using assms by (auto simp: newDirectManagementPool_def Let_def split: if_splits option.splits)
  show "pool_ok pool"
  proof (cases "subnet = ''''")
    case True
    then show ?thesis using assms by (auto simp: newDirectManagementPool_def pool_ok_def split: if_splits)
  next
    case False
    with assms obtain p where p: "ParsePrefix subnet = Some p" "Is4 (prefix_addr p) = ipv4"
      by (auto simp: newDirectManagementPool_def split: option.splits if_splits)
    from ParsePrefix_valid [OF p(1)] p(2) have network: "valid_prefix ipv4 (Masked p)" by (simp add: Masked_valid)
    show ?thesis
    proof (cases "addressRange = ''''")
      case True
      with assms False p network show ?thesis by (auto simp: newDirectManagementPool_def pool_ok_def Masked_Masked Let_def)
    next
      case range: False
      with assms False p obtain q where q: "ParsePrefix addressRange = Some q" "Is4 (prefix_addr q) = ipv4"
        by (auto simp: newDirectManagementPool_def Let_def split: option.splits if_splits)
      from ParsePrefix_valid [OF q(1)] q(2) have "valid_prefix ipv4 (Masked q)" by (simp add: Masked_valid)
      with assms False range p q network show ?thesis
        by (auto simp: newDirectManagementPool_def pool_ok_def Masked_Masked Let_def not_less split: if_splits intro: Contains_trans)
    qed
  qed
qed

lemma hashedPrefixAddress_in:
  assumes "valid_prefix ipv4 p" "Masked p = p"
  shows "Contains p (hashedPrefixAddress sum256 p seed attempt)"
proof -
  obtain a bits where p: "p = Prefix a bits" by (cases p)
  have "contains_word (nat bits) x (copyHashBits (nat bits) d x)" for d and x :: "32 word"
    by (rule contains_copyHashBits [of 4]) simp
  moreover have "contains_word (nat bits) x (copyHashBits (nat bits) d x)" for d and x :: "128 word"
    by (rule contains_copyHashBits [of 16]) simp
  ultimately show ?thesis
    using assms unfolding p hashedPrefixAddress_def by (cases a) (simp_all add: Let_def valid_prefix_def)
qed

section \<open>Allocation\<close>

lemma probe_address_Some:
  assumes "probe_address sum256 pool gw reserved seed attempt maxAttempts = Some a"
  shows "usableManagementAddress pool a gw" "gm_str reserved a = ''''"
    "\<exists>i. a = hashedPrefixAddress sum256 (pool_allocation pool) seed i"
  using assms
proof (atomize (full), induction sum256 pool gw reserved seed attempt maxAttempts rule: probe_address.induct)
  case (1 sum256 pool gw reserved seed attempt maxAttempts)
  from 1(2) have run: "attempt < maxAttempts"
    by (subst (asm) probe_address.simps) (auto split: if_splits)
  show ?case
  proof (cases "\<not> usableManagementAddress pool (hashedPrefixAddress sum256 (pool_allocation pool) seed attempt) gw \<or>
      gm_str reserved (hashedPrefixAddress sum256 (pool_allocation pool) seed attempt) \<noteq> ''''")
    case True
    with 1 run show ?thesis by (subst (asm) (2) probe_address.simps) (simp add: Let_def)
  next
    case False
    with 1(2) run show ?thesis by (subst (asm) probe_address.simps) (auto simp: Let_def)
  qed
qed

text \<open>
  The nodes without a declared address get different free addresses of the range, and their text is what
  the result has.
\<close>

lemma allocate_names_spec:
  assumes run: "allocate_names sum256 pool gw uid maxAttempts names reserved result = Inr final"
    and names: "distinct names" "'''' \<notin> set names"
    and pool: "valid_prefix ipv4 (pool_allocation pool)" "Masked (pool_allocation pool) = pool_allocation pool"
  shows "\<exists>f. inj_on f (set names) \<and>
    (\<forall>name \<in> set names. usableManagementAddress pool (f name) gw \<and> gm_str reserved (f name) = '''' \<and>
       Contains (pool_allocation pool) (f name) \<and>
       map_of final name = Some (prefix_string (PrefixFrom (f name) (prefix_bits (pool_network pool))))) \<and>
    (\<forall>name. name \<notin> set names \<longrightarrow> map_of final name = map_of result name)"
  using run names
proof (induction names arbitrary: reserved result)
  case (Cons name names)
  let ?text = "\<lambda>a. prefix_string (PrefixFrom a (prefix_bits (pool_network pool)))"
  from Cons.prems(1) obtain a where probe: "probe_address sum256 pool gw reserved (if uid name = '''' then name else uid name) 0 maxAttempts = Some a"
    and rest: "allocate_names sum256 pool gw uid maxAttempts names (AList.update a name reserved) (AList.update name (?text a) result) = Inr final"
    by (auto simp: Let_def split: option.splits)
  note free = probe_address_Some [OF probe]
  then have inside: "Contains (pool_allocation pool) a" using hashedPrefixAddress_in [OF pool] by auto
  from Cons.IH [OF rest] Cons.prems obtain f where f: "inj_on f (set names)"
    and each: "\<forall>n \<in> set names. usableManagementAddress pool (f n) gw \<and> gm_str (AList.update a name reserved) (f n) = '''' \<and>
       Contains (pool_allocation pool) (f n) \<and> map_of final n = Some (?text (f n))"
    and others: "\<forall>n. n \<notin> set names \<longrightarrow> map_of final n = map_of (AList.update name (?text a) result) n" by auto
  have new: "f n \<noteq> a" "gm_str reserved (f n) = ''''" if "n \<in> set names" for n
    using each that Cons.prems(3) by (auto split: if_splits)
  have inj: "inj_on (f(name := a)) (set (name # names))"
    using f new Cons.prems(2) by (auto simp: inj_on_def)
  have "map_of final name = Some (?text a)" using others Cons.prems(2) by simp
  then show ?case
    using each others new free(1,2) inside Cons.prems(2)
    by (intro exI [of _ "f(name := a)"] conjI inj) (auto simp: update_conv')
qed auto

text \<open>The declared address of a node when it lies in the range, and the owner of every such address.\<close>

definition declared_in_range :: "management_pool \<Rightarrow> (node \<Rightarrow> string) \<Rightarrow> node \<Rightarrow> addr option" where
  "declared_in_range pool address node =
     (if address node = '''' then None
      else case parseLooseManagementAddress (address node) (pool_ipv4 pool) of
        Inl _ \<Rightarrow> None
      | Inr a \<Rightarrow> if Contains (pool_allocation pool) a then Some a else None)"

definition declared_owners :: "management_pool \<Rightarrow> (node \<Rightarrow> string) \<Rightarrow> nodes_by_name \<Rightarrow> (addr \<times> string) list" where
  "declared_owners pool address nodesByName =
     List.map_filter (\<lambda>(name, node). map_option (\<lambda>a. (a, name)) (declared_in_range pool address node)) nodesByName"

lemma declared_owners_simps:
  "declared_owners pool address [] = []"
  "declared_owners pool address ((name, node) # rest) =
     (case declared_in_range pool address node of
        None \<Rightarrow> declared_owners pool address rest
      | Some a \<Rightarrow> (a, name) # declared_owners pool address rest)"
  by (simp_all add: declared_owners_def map_filter_simps split: option.split)

lemma declared_owners_mem:
  "(a, name) \<in> set (declared_owners pool address nodesByName) \<longleftrightarrow>
     (\<exists>node. (name, node) \<in> set nodesByName \<and> declared_in_range pool address node = Some a)"
  by (induction nodesByName) (auto simp: declared_owners_simps split: option.splits)

lemma reserve_declared_step:
  "reserve_declared pool address ((name, node) # rest) reserved =
     (case declared_in_range pool address node of
        None \<Rightarrow> reserve_declared pool address rest reserved
      | Some a \<Rightarrow>
          if gm_str reserved a \<noteq> '''' \<and> gm_str reserved a \<noteq> name then Inl (AddressDeclaredTwice a (gm_str reserved a) name)
          else reserve_declared pool address rest (AList.update a name reserved))"
  by (simp add: declared_in_range_def Let_def split: sum.split)

declare reserve_declared.simps(2) [simp del]

text \<open>Reserving fails exactly when two nodes declare one address of the range; otherwise it records the owners.\<close>

lemma reserve_declared_spec:
  assumes "distinct (map fst nodesByName)" "'''' \<notin> fst ` set nodesByName"
    and "\<And>a. gm_str reserved a \<notin> fst ` set nodesByName"
  shows "(\<exists>r. reserve_declared pool address nodesByName reserved = Inr r) \<longleftrightarrow>
      distinct (map fst (declared_owners pool address nodesByName)) \<and>
      (\<forall>a \<in> fst ` set (declared_owners pool address nodesByName). gm_str reserved a = '''')"
    and "reserve_declared pool address nodesByName reserved = Inr r \<Longrightarrow>
      map_of r = map_of reserved ++ map_of (declared_owners pool address nodesByName)"
proof -
  let ?owners = "declared_owners pool address"
  have "((\<exists>r. reserve_declared pool address nodesByName reserved = Inr r) \<longleftrightarrow>
      distinct (map fst (?owners nodesByName)) \<and> (\<forall>a \<in> fst ` set (?owners nodesByName). gm_str reserved a = '''')) \<and>
    (\<forall>r. reserve_declared pool address nodesByName reserved = Inr r \<longrightarrow> map_of r = map_of reserved ++ map_of (?owners nodesByName))"
    using assms
  proof (induction nodesByName arbitrary: reserved)
    case (Cons entry rest)
    obtain name node where entry: "entry = (name, node)" by (cases entry)
    show ?case
    proof (cases "declared_in_range pool address node")
      case None
      have I: "gm_str reserved a \<notin> fst ` set rest" for a using Cons.prems(3) [of a] by auto
      from Cons.IH [OF _ _ I] Cons.prems(1,2) show ?thesis
        unfolding entry reserve_declared_step declared_owners_simps None by simp
    next
      case (Some a)
      show ?thesis
      proof (cases "gm_str reserved a = ''''")
        case False
        moreover have "gm_str reserved a \<noteq> name" using Cons.prems(3) [of a] by (auto simp: entry)
        ultimately show ?thesis unfolding entry reserve_declared_step declared_owners_simps Some by simp
      next
        case free: True
        have new: "name \<notin> fst ` set rest" "name \<noteq> ''''" using Cons.prems(1,2) by (auto simp: entry)
        then have I: "gm_str (AList.update a name reserved) b \<notin> fst ` set rest" for b
          using Cons.prems(3) [of b] by (auto simp: entry)
        have run: "reserve_declared pool address (entry # rest) reserved = reserve_declared pool address rest (AList.update a name reserved)"
          unfolding entry reserve_declared_step Some using free by simp
        have owners: "?owners (entry # rest) = (a, name) # ?owners rest" unfolding entry declared_owners_simps Some by simp
        have "distinct (map fst rest)" "'''' \<notin> fst ` set rest" using Cons.prems(1,2) by auto
        note IH = Cons.IH [OF this I]
        have ex: "(\<exists>r. reserve_declared pool address rest (AList.update a name reserved) = Inr r) \<longleftrightarrow>
            distinct (map fst (?owners rest)) \<and> a \<notin> fst ` set (?owners rest) \<and> (\<forall>b \<in> fst ` set (?owners rest). gm_str reserved b = '''')"
          unfolding IH [THEN conjunct1] using new(2) free by (auto split: if_splits)
        have "map_of r = map_of reserved ++ map_of (?owners (entry # rest))"
          if r: "reserve_declared pool address rest (AList.update a name reserved) = Inr r" for r
        proof -
          from r ex have "a \<notin> fst ` set (?owners rest)" by blast
          then have "map_of (?owners rest) a = None" by (simp add: map_of_eq_None_iff)
          then show ?thesis
            using IH [THEN conjunct2, THEN spec, THEN mp, OF r]
            by (auto simp: owners update_conv' map_add_def fun_eq_iff split: option.splits)
        qed
        moreover have "(\<exists>r. reserve_declared pool address (entry # rest) reserved = Inr r) \<longleftrightarrow>
            distinct (map fst (?owners (entry # rest))) \<and> (\<forall>b \<in> fst ` set (?owners (entry # rest)). gm_str reserved b = '''')"
          unfolding run ex owners using free by auto
        ultimately show ?thesis unfolding run by blast
      qed
    qed
  qed (simp add: declared_owners_simps)
  then show "(\<exists>r. reserve_declared pool address nodesByName reserved = Inr r) \<longleftrightarrow>
      distinct (map fst (declared_owners pool address nodesByName)) \<and>
      (\<forall>a \<in> fst ` set (declared_owners pool address nodesByName). gm_str reserved a = '''')"
    "reserve_declared pool address nodesByName reserved = Inr r \<Longrightarrow>
      map_of r = map_of reserved ++ map_of (declared_owners pool address nodesByName)" by blast+
qed

definition gateway_address :: "string \<Rightarrow> addr" where
  "gateway_address gateway = (case ParseAddr gateway of Some a \<Rightarrow> a | None \<Rightarrow> NoAddr)"

definition unaddressed :: "(node \<Rightarrow> string) \<Rightarrow> nodes_by_name \<Rightarrow> string set" where
  "unaddressed address nodesByName = {name. \<exists>node. (name, node) \<in> set nodesByName \<and> address node = ''''}"

lemma ParseAddr_empty [simp]: "ParseAddr '''' = None"
  by (simp add: ParseAddr_def)

lemma reserve_gateway_Inr:
  assumes "reserve_gateway pool gateway declared = Inr (gw, reserved)"
  shows "gw = gateway_address gateway" "gm_str reserved a = '''' \<Longrightarrow> gm_str declared a = ''''"
    "gateway \<noteq> '''' \<Longrightarrow> Is4 gw = pool_ipv4 pool \<and> Contains (pool_network pool) gw"
  using assms by (auto simp: reserve_gateway_def gateway_address_def split: if_splits option.splits)

lemma allocation_spec:
  assumes run: "allocateDirectManagementAddresses sum256 nodesByName pool address gateway = Inr result"
    and pool: "pool_ok pool" "pool_enabled pool"
    and names: "distinct (map fst nodesByName)" "'''' \<notin> fst ` set nodesByName"
  shows "\<exists>f. inj_on f (unaddressed address nodesByName) \<and>
    (\<forall>name \<in> unaddressed address nodesByName.
       Contains (pool_allocation pool) (f name) \<and> usableManagementAddress pool (f name) (gateway_address gateway) \<and>
       (\<forall>(n, node) \<in> set nodesByName. declared_in_range pool address node \<noteq> Some (f name)) \<and>
       map_of result name = Some (prefix_string (PrefixFrom (f name) (prefix_bits (pool_network pool))))) \<and>
    (\<forall>name. name \<notin> unaddressed address nodesByName \<longrightarrow> map_of result name = None)"
proof -
  let ?names = "map fst (filter (\<lambda>(name, node). address node = '''') nodesByName)"
  let ?sorted = "sort_key (\<lambda>name. node_uid nodesByName name @ [CHR 0x00] @ name) ?names"
  from run pool(2) obtain declared gw reserved where declared: "reserve_declared pool address nodesByName [] = Inr declared"
    and gw: "reserve_gateway pool gateway declared = Inr (gw, reserved)"
    and alloc: "allocate_names sum256 pool gw (node_uid nodesByName) (max 4096 (int (length nodesByName) * 1024)) ?sorted reserved [] = Inr result"
    by (auto simp: allocateDirectManagementAddresses_def Let_def split: sum.splits)
  have set: "set ?sorted = unaddressed address nodesByName" by (force simp: unaddressed_def)
  have "distinct ?sorted" using names(1) by (simp add: distinct_map_filter)
  moreover have "'''' \<notin> set ?sorted" using names(2) by force
  moreover have valid: "valid_prefix (pool_ipv4 pool) (pool_allocation pool)" "Masked (pool_allocation pool) = pool_allocation pool"
    using pool by (auto simp: pool_ok_def)
  ultimately obtain f where f: "inj_on f (set ?sorted)"
    and each: "\<forall>name \<in> set ?sorted. usableManagementAddress pool (f name) gw \<and> gm_str reserved (f name) = '''' \<and>
       Contains (pool_allocation pool) (f name) \<and>
       map_of result name = Some (prefix_string (PrefixFrom (f name) (prefix_bits (pool_network pool))))"
    and others: "\<forall>name. name \<notin> set ?sorted \<longrightarrow> map_of result name = map_of [] name"
    using allocate_names_spec [OF alloc] by blast
  have owners: "map_of declared = map_of (declared_owners pool address nodesByName)"
    using reserve_declared_spec(2) [OF names _ declared] names(2) by simp
  have "declared_in_range pool address node \<noteq> Some (f name)" if "name \<in> set ?sorted" "(n, node) \<in> set nodesByName" for name n node
  proof
    assume "declared_in_range pool address node = Some (f name)"
    with that(2) have "(f name, n) \<in> set (declared_owners pool address nodesByName)" by (auto simp: declared_owners_mem)
    then obtain n' where n': "map_of declared (f name) = Some n'" unfolding owners by (metis eq_fst_iff map_of_eq_None_iff image_eqI not_Some_eq)
    then have "(f name, n') \<in> set (declared_owners pool address nodesByName)" unfolding owners by (rule map_of_SomeD)
    then have "n' \<noteq> ''''" using names(2) by (force simp: declared_owners_mem)
    then have "gm_str declared (f name) \<noteq> ''''" using n' by (simp add: gm_str_def)
    then show False using reserve_gateway_Inr(2) [OF gw] each that(1) by blast
  qed
  then show ?thesis
    using f each others reserve_gateway_Inr(1) [OF gw] unfolding set by (intro exI [of _ f]) auto
qed

text \<open>The first and the last address of the subnet lie in the range only as its own first and last address.\<close>

lemma contains_first:
  assumes "m \<le> k" "mask_word m q = q" "mask_word k p = p" "contains_word k p q"
  shows "q = (p :: 'a::len word)"
proof (rule bit_word_eqI)
  fix n
  have "\<not> bit p n" if "n < LENGTH('a) - k" using arg_cong [OF assms(3), of "\<lambda>w. bit w n"] that by (simp add: bit_mask_word)
  moreover have "\<not> bit q n" if "n < LENGTH('a) - m" using arg_cong [OF assms(2), of "\<lambda>w. bit w n"] that by (simp add: bit_mask_word)
  ultimately show "bit q n = bit p n" using assms(1,4) unfolding contains_word_iff by (metis diff_le_mono2 less_le_trans not_le)
qed

lemma contains_last:
  assumes "LENGTH('a) = 8 * w" "m \<le> k" "contains_word k p (setHostBits m q)"
  shows "setHostBits m q = setHostBits k (p :: 'a::len word)"
proof (rule bit_word_eqI)
  fix n assume n: "n < LENGTH('a)"
  note host = bit_setHostBits [OF assms(1) n]
  show "bit (setHostBits m q) n = bit (setHostBits k p) n"
  proof (cases "n < LENGTH('a) - k")
    case True
    then have "n < LENGTH('a) - m" using assms(2) by linarith
    with True show ?thesis by (simp add: host)
  next
    case False
    then have "bit (setHostBits m q) n = bit p n" using assms(3) by (simp add: contains_word_iff)
    with False show ?thesis by (simp add: host [of k])
  qed
qed

lemma subnet_edges:
  assumes pool: "pool_ok pool" "pool_enabled pool"
    and a: "Contains (pool_allocation pool) a" "usableManagementAddress pool a gateway"
  shows "a \<noteq> prefix_addr (pool_network pool)" "pool_ipv4 pool \<Longrightarrow> a \<noteq> lastPrefixAddress (pool_network pool)"
proof -
  obtain q m p k where net: "pool_network pool = Prefix q m" and alloc: "pool_allocation pool = Prefix p k"
    by (cases "pool_network pool"; cases "pool_allocation pool") auto
  have valid: "valid_prefix (pool_ipv4 pool) (Prefix q m)" "Masked (Prefix q m) = Prefix q m"
    "valid_prefix (pool_ipv4 pool) (Prefix p k)" "Masked (Prefix p k) = Prefix p k" "m \<le> k"
    using pool unfolding pool_ok_def net alloc by simp_all
  have le: "nat m \<le> nat k" using valid(5) by simp
  show "a \<noteq> prefix_addr (pool_network pool)"
  proof
    assume "a = prefix_addr (pool_network pool)"
    then have "a = q" by (simp add: net)
    with a(1) valid have "q = p" unfolding alloc
      by (cases q; cases p) (auto simp: valid_prefix_def intro: contains_first [OF le] split: if_splits)
    with \<open>a = q\<close> a(2) valid(4) show False by (simp add: usableManagementAddress_def alloc)
  qed
  show "a \<noteq> lastPrefixAddress (pool_network pool)" if v4: "pool_ipv4 pool"
  proof
    assume "a = lastPrefixAddress (pool_network pool)"
    moreover from v4 valid obtain x y where xy: "q = Addr4 x" "p = Addr4 y" by (cases q; cases p) (auto simp: valid_prefix_def)
    moreover have "contains_word (nat k) y (setHostBits (nat m) x) \<Longrightarrow> setHostBits (nat m) x = setHostBits (nat k) y"
      by (rule contains_last [of 4, OF _ le]) simp_all
    ultimately have "a = lastPrefixAddress (pool_allocation pool)"
      using a(1) valid unfolding net alloc by (simp add: lastPrefixAddress_def)
    with a(2) v4 show False by (simp add: usableManagementAddress_def)
  qed
qed

section \<open>Texts of addresses\<close>

lemma cut_append: "c \<notin> set s \<Longrightarrow> cut c (s @ c # t) = (s, t, True)"
  by (induction s) auto

lemma bare_text:
  assumes "valid_prefix ipv4 p"
  shows "bareDirectManagementAddress (prefix_string p) = addr_string (prefix_addr p)" "prefix_string p \<noteq> ''''"
proof -
  obtain a bits where p: "p = Prefix a bits" by (cases p)
  have "CHR ''/'' \<notin> set (addr_string a)" using assms addr_string_no_slash [of a] by (simp add: p valid_prefix_def)
  then show "bareDirectManagementAddress (prefix_string p) = addr_string (prefix_addr p)" "prefix_string p \<noteq> ''''"
    using assms by (simp_all add: p valid_prefix_def bareDirectManagementAddress_def cut_append)
qed

text \<open>What a declaration normalizes to is the text of the address it parses to.\<close>

lemma normalize_declared:
  assumes "normalizeDirectManagementAddress raw pool = Inr text" "raw \<noteq> ''''" "pool_ok pool"
  shows "\<exists>p. text = prefix_string p \<and> valid_prefix (pool_ipv4 pool) p \<and>
      parseLooseManagementAddress raw (pool_ipv4 pool) = Inr (prefix_addr p)"
proof (cases "ParsePrefix raw")
  case (Some p)
  with assms(1,2) have "text = prefix_string p" "Is4 (prefix_addr p) = pool_ipv4 pool"
    by (auto simp: normalizeDirectManagementAddress_def split: if_splits)
  moreover have "valid_prefix (Is4 (prefix_addr p)) p" using Some by (rule ParsePrefix_valid)
  ultimately show ?thesis using Some by (intro exI [of _ p]) (simp add: parseLooseManagementAddress_def)
next
  case None
  with assms(1,2) obtain a where a: "ParseAddr raw = Some a" "Is4 a = pool_ipv4 pool" "pool_enabled pool" "Contains (pool_network pool) a"
    "text = prefix_string (PrefixFrom a (prefix_bits (pool_network pool)))"
    by (auto simp: normalizeDirectManagementAddress_def split: option.splits if_splits)
  let ?p = "PrefixFrom a (prefix_bits (pool_network pool))"
  from assms(3) a(3) have net: "valid_prefix (pool_ipv4 pool) (pool_network pool)" by (simp add: pool_ok_def)
  from Contains_valid [OF a(4)] have zone: "a \<noteq> NoAddr" "without_zone a = a" by simp_all
  have "bit_len a = bit_len (prefix_addr (pool_network pool))"
    using a(4) by (cases "(pool_network pool, a)" rule: Contains.cases) auto
  with net have "0 \<le> prefix_bits (pool_network pool)" "prefix_bits (pool_network pool) \<le> int (bit_len a)"
    by (simp_all add: valid_prefix_def)
  from PrefixFrom_valid [OF zone(1) this] a(1,2,5) None zone(2) show ?thesis
    by (intro exI [of _ ?p]) (simp add: parseLooseManagementAddress_def)
qed

lemma allocated_text:
  assumes "pool_ok pool" "pool_enabled pool" "Contains (pool_allocation pool) a"
  shows "valid_prefix (pool_ipv4 pool) (PrefixFrom a (prefix_bits (pool_network pool)))"
    "prefix_addr (PrefixFrom a (prefix_bits (pool_network pool))) = a"
proof -
  from assms have net: "valid_prefix (pool_ipv4 pool) (pool_network pool)" "Contains (pool_network pool) a" by (simp_all add: pool_ok_def)
  from Contains_valid [OF net(2)] have zone: "a \<noteq> NoAddr" "without_zone a = a" "Is4 a = Is4 (prefix_addr (pool_network pool))" by simp_all
  have "bit_len a = bit_len (prefix_addr (pool_network pool))"
    using net(2) by (cases "(pool_network pool, a)" rule: Contains.cases) auto
  with net have "0 \<le> prefix_bits (pool_network pool)" "prefix_bits (pool_network pool) \<le> int (bit_len a)"
    by (simp_all add: valid_prefix_def)
  from PrefixFrom_valid [OF zone(1) this] zone net(1)
  show "valid_prefix (pool_ipv4 pool) (PrefixFrom a (prefix_bits (pool_network pool)))"
    "prefix_addr (PrefixFrom a (prefix_bits (pool_network pool))) = a" by (simp_all add: valid_prefix_def)
qed

section \<open>Uniqueness\<close>

definition declared_address :: "(node \<Rightarrow> string) \<Rightarrow> bool \<Rightarrow> node \<Rightarrow> addr option" where
  "declared_address address ipv4 node =
     (if address node = '''' then None
      else case parseLooseManagementAddress (address node) ipv4 of Inl _ \<Rightarrow> None | Inr a \<Rightarrow> Some a)"

lemma unique_family_step:
  "unique_family address ipv4 nodesByName (name # names) owners =
     (case Option.bind (map_of nodesByName name) (declared_address address ipv4) of
        None \<Rightarrow> unique_family address ipv4 nodesByName names owners
      | Some a \<Rightarrow>
          if gm_str owners a \<noteq> '''' then Some (AddressDeclaredTwice a (gm_str owners a) name)
          else unique_family address ipv4 nodesByName names (AList.update a name owners))"
  by (simp add: declared_address_def split: option.split sum.split)

declare unique_family.simps(2) [simp del]

lemma unique_family_None:
  assumes "unique_family address ipv4 nodesByName names owners = None" "distinct names" "'''' \<notin> set names"
    and "n \<in> set names" "Option.bind (map_of nodesByName n) (declared_address address ipv4) = Some a"
  shows "gm_str owners a = '''' \<and>
    (\<forall>n' \<in> set names. n' \<noteq> n \<longrightarrow> Option.bind (map_of nodesByName n') (declared_address address ipv4) \<noteq> Some a)"
  using assms
proof (induction names arbitrary: owners n a)
  case (Cons name names)
  let ?d = "\<lambda>n. Option.bind (map_of nodesByName n) (declared_address address ipv4)"
  show ?case
  proof (cases "?d name")
    case None
    with Cons show ?thesis by (auto simp: unique_family_step)
  next
    case (Some b)
    with Cons.prems(1) have free: "gm_str owners b = ''''"
      and rest: "unique_family address ipv4 nodesByName names (AList.update b name owners) = None"
      by (auto simp: unique_family_step split: if_splits)
    have names: "distinct names" "'''' \<notin> set names" "name \<noteq> ''''" "name \<notin> set names" using Cons.prems(2,3) by auto
    note IH = Cons.IH [OF rest names(1,2)]
    have other: "?d n' \<noteq> Some b" if "n' \<in> set names" for n'
      using IH [OF that, of b] names(3) by auto
    show ?thesis
    proof (cases "n = name")
      case True
      with Some Cons.prems(5) free other show ?thesis by auto
    next
      case False
      with Cons.prems(4) have "n \<in> set names" by simp
      with IH [OF this Cons.prems(5)] other [OF this] Cons.prems(5) Some show ?thesis by (auto split: if_splits)
    qed
  qed
qed simp

lemma validated_declarations_differ:
  assumes "validateUniqueExplicitManagementAddresses nodesByName = None"
    and names: "distinct (map fst nodesByName)" "'''' \<notin> fst ` set nodesByName"
    and nodes: "(n, d) \<in> set nodesByName" "(n', d') \<in> set nodesByName" "n \<noteq> n'"
  shows "declared_address mgmt_ipv4 True d = Some a \<Longrightarrow> declared_address mgmt_ipv4 True d' \<noteq> Some a"
    "declared_address mgmt_ipv6 False d = Some a \<Longrightarrow> declared_address mgmt_ipv6 False d' \<noteq> Some a"
proof -
  let ?names = "sort (map fst nodesByName)"
  have valid: "unique_family mgmt_ipv4 True nodesByName ?names [] = None" "unique_family mgmt_ipv6 False nodesByName ?names [] = None"
    using assms(1) by (auto simp: validateUniqueExplicitManagementAddresses_def Let_def split: option.splits)
  have look: "map_of nodesByName n = Some d" "map_of nodesByName n' = Some d'" using names(1) nodes by simp_all
  have "n \<in> fst ` set nodesByName" "n' \<in> fst ` set nodesByName" using nodes(1,2) by (metis fst_conv image_eqI)+
  then have "distinct ?names" "'''' \<notin> set ?names" "n \<in> set ?names" "n' \<in> set ?names" using names by simp_all
  note differ = unique_family_None [OF _ this(1-3), where nodesByName = nodesByName, unfolded look Option.bind.simps]
  show "declared_address mgmt_ipv4 True d = Some a \<Longrightarrow> declared_address mgmt_ipv4 True d' \<noteq> Some a"
    using differ [OF valid(1), THEN conjunct2, THEN bspec, OF _ \<open>n' \<in> set ?names\<close>] look(2) nodes(3) by simp
  show "declared_address mgmt_ipv6 False d = Some a \<Longrightarrow> declared_address mgmt_ipv6 False d' \<noteq> Some a"
    using differ [OF valid(2), THEN conjunct2, THEN bspec, OF _ \<open>n' \<in> set ?names\<close>] look(2) nodes(3) by simp
qed

text \<open>A non-empty identity address is the text of the declared address or of the allocated one.\<close>

lemma identity_address_source:
  assumes pool: "pool_ok pool" and id: "identity_address (address node) name pool allocations \<noteq> ''''"
    and alloc: "\<And>cidr. map_of allocations name = Some cidr \<Longrightarrow>
      cidr = prefix_string (PrefixFrom (f name) (prefix_bits (pool_network pool))) \<and> pool_enabled pool \<and> Contains (pool_allocation pool) (f name)"
  shows "\<exists>a. identity_address (address node) name pool allocations = addr_string a \<and>
      a \<noteq> NoAddr \<and> without_zone a = a \<and> Is4 a = pool_ipv4 pool \<and>
      (if address node = '''' then map_of allocations name \<noteq> None \<and> a = f name
       else declared_address address (pool_ipv4 pool) node = Some a)"
proof (cases "address node = ''''")
  case True
  then have bare: "identity_address (address node) name pool allocations = bareDirectManagementAddress (gm_str allocations name)"
    by (simp add: identity_address_def normalizeDirectManagementAddress_def)
  with id obtain cidr where cidr: "map_of allocations name = Some cidr"
    by (cases "map_of allocations name") (auto simp: gm_str_def bareDirectManagementAddress_def)
  note found = alloc [OF cidr]
  let ?p = "PrefixFrom (f name) (prefix_bits (pool_network pool))"
  have p: "valid_prefix (pool_ipv4 pool) ?p" "prefix_addr ?p = f name"
    using allocated_text [OF pool found [THEN conjunct2, THEN conjunct1] found [THEN conjunct2, THEN conjunct2]] .
  have "identity_address (address node) name pool allocations = addr_string (f name)"
    using bare found cidr bare_text(1) [OF p(1)] p(2) by (simp add: gm_str_def)
  then show ?thesis using True cidr p by (intro exI [of _ "f name"]) (simp add: valid_prefix_def)
next
  case False
  with id obtain cidr where cidr: "normalizeDirectManagementAddress (address node) pool = Inr cidr"
    by (auto simp: identity_address_def split: sum.splits)
  from normalize_declared [OF cidr False pool] obtain p where p: "cidr = prefix_string p" "valid_prefix (pool_ipv4 pool) p"
    "parseLooseManagementAddress (address node) (pool_ipv4 pool) = Inr (prefix_addr p)" by blast
  then show ?thesis
    using False cidr bare_text [OF p(2)]
    by (intro exI [of _ "prefix_addr p"]) (simp add: identity_address_def declared_address_def valid_prefix_def)
qed

text \<open>
  What the peer identities rely on of an allocator: a disabled pool gives nothing; an enabled one gives the
  nodes without a declared address different usable addresses of the range that no node declares.
\<close>

locale address_allocator =
  fixes allocate :: "nodes_by_name \<Rightarrow> management_pool \<Rightarrow> (node \<Rightarrow> string) \<Rightarrow> string \<Rightarrow> management_error + (string, string) gomap"
  assumes allocate_disabled: "\<not> pool_enabled pool \<Longrightarrow> allocate nodesByName pool address gateway = Inr []"
    and allocate_fresh: "\<lbrakk> allocate nodesByName pool address gateway = Inr result; pool_ok pool; pool_enabled pool;
      distinct (map fst nodesByName); '''' \<notin> fst ` set nodesByName \<rbrakk> \<Longrightarrow>
    \<exists>f. inj_on f (unaddressed address nodesByName) \<and>
    (\<forall>name \<in> unaddressed address nodesByName.
       Contains (pool_allocation pool) (f name) \<and> usableManagementAddress pool (f name) (gateway_address gateway) \<and>
       (\<forall>(n, node) \<in> set nodesByName. declared_in_range pool address node \<noteq> Some (f name)) \<and>
       map_of result name = Some (prefix_string (PrefixFrom (f name) (prefix_bits (pool_network pool))))) \<and>
    (\<forall>name. name \<notin> unaddressed address nodesByName \<longrightarrow> map_of result name = None)"
begin

text \<open>The allocations behind a peer identity: a failed allocation gives none.\<close>

lemma allocations_spec:
  assumes pool: "pool_ok pool"
    and names: "distinct (map fst nodesByName)" "'''' \<notin> fst ` set nodesByName"
    and allocations: "allocations = or_none (allocate nodesByName pool address gateway)"
  shows "\<exists>f. \<forall>name cidr. map_of allocations name = Some cidr \<longrightarrow>
      cidr = prefix_string (PrefixFrom (f name) (prefix_bits (pool_network pool))) \<and>
      name \<in> unaddressed address nodesByName \<and> pool_enabled pool \<and> Contains (pool_allocation pool) (f name) \<and>
      (\<forall>(n, node) \<in> set nodesByName. declared_in_range pool address node \<noteq> Some (f name)) \<and>
      (\<forall>n. n \<noteq> name \<longrightarrow> map_of allocations n \<noteq> None \<longrightarrow> f n \<noteq> f name)"
proof (cases "\<exists>result. allocate nodesByName pool address gateway = Inr result \<and> pool_enabled pool")
  case True
  then obtain result where run: "allocate nodesByName pool address gateway = Inr result" "pool_enabled pool"
    by blast
  then have [simp]: "allocations = result" by (simp add: allocations or_none_def)
  obtain f where f: "inj_on f (unaddressed address nodesByName)"
    and each: "\<forall>name \<in> unaddressed address nodesByName.
       Contains (pool_allocation pool) (f name) \<and> usableManagementAddress pool (f name) (gateway_address gateway) \<and>
       (\<forall>(n, node) \<in> set nodesByName. declared_in_range pool address node \<noteq> Some (f name)) \<and>
       map_of result name = Some (prefix_string (PrefixFrom (f name) (prefix_bits (pool_network pool))))"
    and others: "\<forall>name. name \<notin> unaddressed address nodesByName \<longrightarrow> map_of result name = None"
    using allocate_fresh [OF run(1) pool run(2) names] by (elim exE conjE) (rule that)
  have mem: "name \<in> unaddressed address nodesByName" if "map_of result name \<noteq> None" for name
    using others [THEN spec, of name] that by argo
  show ?thesis
  proof (intro exI [of _ f] allI impI)
    fix name cidr assume cidr: "map_of allocations name = Some cidr"
    then have name: "name \<in> unaddressed address nodesByName" by (intro mem) simp
    have "f n \<noteq> f name" if "n \<noteq> name" "map_of allocations n \<noteq> None" for n
      using f name mem [of n] that by (auto simp: inj_on_def)
    then show "cidr = prefix_string (PrefixFrom (f name) (prefix_bits (pool_network pool))) \<and>
      name \<in> unaddressed address nodesByName \<and> pool_enabled pool \<and> Contains (pool_allocation pool) (f name) \<and>
      (\<forall>(n, node) \<in> set nodesByName. declared_in_range pool address node \<noteq> Some (f name)) \<and>
      (\<forall>n. n \<noteq> name \<longrightarrow> map_of allocations n \<noteq> None \<longrightarrow> f n \<noteq> f name)"
      using bspec [OF each name] cidr name run(2) by simp
  qed
next
  case False
  then have "allocations = []"
    by (cases "allocate nodesByName pool address gateway")
       (auto simp: allocations or_none_def allocate_disabled)
  then show ?thesis by simp
qed

lemma identity_addresses_differ:
  assumes pool: "pool_ok pool"
    and names: "distinct (map fst nodesByName)" "'''' \<notin> fst ` set nodesByName"
    and allocations: "allocations = or_none (allocate nodesByName pool address gateway)"
    and nodes: "(n, d) \<in> set nodesByName" "(n', d') \<in> set nodesByName" "n \<noteq> n'"
    and declared: "\<And>a. declared_address address (pool_ipv4 pool) d = Some a \<Longrightarrow> declared_address address (pool_ipv4 pool) d' \<noteq> Some a"
    and id: "identity_address (address d) n pool allocations \<noteq> ''''" "identity_address (address d') n' pool allocations \<noteq> ''''"
  shows "identity_address (address d) n pool allocations \<noteq> identity_address (address d') n' pool allocations"
proof -
  obtain f where law: "\<forall>name cidr. map_of allocations name = Some cidr \<longrightarrow>
      cidr = prefix_string (PrefixFrom (f name) (prefix_bits (pool_network pool))) \<and>
      name \<in> unaddressed address nodesByName \<and> pool_enabled pool \<and> Contains (pool_allocation pool) (f name) \<and>
      (\<forall>(n, node) \<in> set nodesByName. declared_in_range pool address node \<noteq> Some (f name)) \<and>
      (\<forall>n. n \<noteq> name \<longrightarrow> map_of allocations n \<noteq> None \<longrightarrow> f n \<noteq> f name)"
    using allocations_spec [OF pool names allocations] by (rule exE)
  note each = law [THEN spec, THEN spec, THEN mp]
  have f: "cidr = prefix_string (PrefixFrom (f name) (prefix_bits (pool_network pool))) \<and> pool_enabled pool \<and> Contains (pool_allocation pool) (f name)"
    if "map_of allocations name = Some cidr" for name cidr using each [OF that] by simp
  have free: "declared_in_range pool address node \<noteq> Some (f name)"
    if "map_of allocations name = Some cidr" "(m, node) \<in> set nodesByName" for name cidr m node using each [OF that(1)] that(2) by auto
  have inj: "f m \<noteq> f name" if "map_of allocations name = Some cidr" "m \<noteq> name" "map_of allocations m \<noteq> None" for name cidr m
    using each [OF that(1)] that(2,3) by simp
  have clash: "declared_address address (pool_ipv4 pool) node \<noteq> Some (f name)"
    if some: "map_of allocations name \<noteq> None" and node: "(m, node) \<in> set nodesByName" for name m node
  proof -
    from some obtain cidr where cidr: "map_of allocations name = Some cidr" by blast
    from f [OF cidr] free [OF cidr node] show ?thesis
      by (auto simp: declared_in_range_def declared_address_def split: if_splits sum.splits)
  qed
  from identity_address_source [of pool address d n allocations f, OF pool id(1) f] obtain a where
    a: "identity_address (address d) n pool allocations = addr_string a" "a \<noteq> NoAddr" "without_zone a = a" "Is4 a = pool_ipv4 pool"
      "if address d = '''' then map_of allocations n \<noteq> None \<and> a = f n else declared_address address (pool_ipv4 pool) d = Some a" by blast
  from identity_address_source [of pool address d' n' allocations f, OF pool id(2) f] obtain b where
    b: "identity_address (address d') n' pool allocations = addr_string b" "b \<noteq> NoAddr" "without_zone b = b" "Is4 b = pool_ipv4 pool"
      "if address d' = '''' then map_of allocations n' \<noteq> None \<and> b = f n' else declared_address address (pool_ipv4 pool) d' = Some b" by blast
  have "a \<noteq> b"
  proof (cases "address d = ''''"; cases "address d' = ''''")
    assume "address d = ''''" "address d' = ''''"
    then show ?thesis using a(5) b(5) inj [of n _ n'] nodes(3) by auto
  next
    assume "address d = ''''" "address d' \<noteq> ''''"
    then show ?thesis using a(5) b(5) clash [of n n' d'] nodes(2) by auto
  next
    assume "address d \<noteq> ''''" "address d' = ''''"
    then show ?thesis using a(5) b(5) clash [of n' n d] nodes(1) by auto
  next
    assume "address d \<noteq> ''''" "address d' \<noteq> ''''"
    then show ?thesis using a(5) b(5) declared [of a] by auto
  qed
  then show ?thesis using addr_string_inject [OF a(2) b(2) a(3) b(3)] a(1,4) b(1,4) by simp
qed

end

interpretation allocation: address_allocator "allocateDirectManagementAddresses sum256" for sum256
  by unfold_locales (simp add: allocateDirectManagementAddresses_def, rule allocation_spec)

text \<open>A list of at most one entry per node has different values where the nodes have.\<close>

lemma distinct_identities:
  assumes one: "\<And>e. identities e = [] \<or> (\<exists>i. identities e = [i] \<and> g i = key e)"
    and differ: "\<And>e e'. e \<in> set entries \<Longrightarrow> e' \<in> set entries \<Longrightarrow> fst e \<noteq> fst e' \<Longrightarrow> P (key e) \<Longrightarrow> P (key e') \<Longrightarrow> key e \<noteq> key e'"
    and names: "distinct (map fst entries)"
  shows "distinct (filter P (map g (concat (map identities entries))))"
  using differ names
proof (induction entries)
  case (Cons e entries)
  have others: "x \<in> key ` {e' \<in> set entries. P (key e')}" if "x \<in> set (filter P (map g (concat (map identities entries))))" for x
  proof -
    from that obtain e' i where e': "e' \<in> set entries" "i \<in> set (identities e')" "x = g i" "P x" by auto
    with one [of e'] have "x = key e'" by auto
    with e'(1,4) show ?thesis by (intro image_eqI [of _ _ e']) simp_all
  qed
  have rest: "distinct (filter P (map g (concat (map identities entries))))" using Cons by simp
  have "key e \<notin> set (filter P (map g (concat (map identities entries))))" if "P (key e)"
  proof
    assume "key e \<in> set (filter P (map g (concat (map identities entries))))"
    from others [OF this] obtain e' where e': "e' \<in> set entries" "P (key e')" "key e = key e'" by auto
    moreover have "fst e \<noteq> fst e'" using Cons.prems(2) e'(1) by (auto simp: image_iff)
    ultimately show False using Cons.prems(1) [of e e'] that by simp
  qed
  moreover define L where "L = filter P (map g (concat (map identities entries)))"
  ultimately have "distinct L" "P (key e) \<Longrightarrow> key e \<notin> set L" using rest by simp_all
  moreover have "filter P (map g (concat (map identities (e # entries)))) = filter P (map g (identities e)) @ L"
    by (simp add: L_def)
  ultimately show ?case using one [of e] by auto
qed simp

lemma distinct_sorted_values: "distinct (filter P (map g (sort_key k xs))) = distinct (filter P (map g xs))"
  by (rule mset_eq_imp_distinct_iff) (simp add: mset_filter [symmetric])

text \<open>
  The pools and the allocations behind a peer directory. The directory is empty when management is
  disabled or the policy has no valid pools.
\<close>

definition policy_pools :: "management_policy option \<Rightarrow> (management_policy \<times> management_pool \<times> management_pool) option" where
  "policy_pools mgmt =
     (if (case mgmt of None \<Rightarrow> False | Some policy \<Rightarrow> mp_disabled policy) then None
      else case applyDefaultManagementPolicy (case mgmt of None \<Rightarrow> empty_policy | Some policy \<Rightarrow> policy) of
        Inl _ \<Rightarrow> None
      | Inr settings \<Rightarrow>
          (case newDirectManagementPool (mp_ipv4_subnet settings) (mp_ipv4_range settings) True of
             Inl _ \<Rightarrow> None
           | Inr ipv4Pool \<Rightarrow>
               (case newDirectManagementPool (mp_ipv6_subnet settings) (mp_ipv6_range settings) False of
                  Inl _ \<Rightarrow> None
                | Inr ipv6Pool \<Rightarrow> Some (settings, ipv4Pool, ipv6Pool))))"

lemma policy_pools_ok:
  assumes "policy_pools mgmt = Some (settings, ipv4Pool, ipv6Pool)"
  shows "pool_ok ipv4Pool" "pool_ipv4 ipv4Pool" "pool_ok ipv6Pool" "\<not> pool_ipv4 ipv6Pool"
  using assms newDirectManagementPool_ok by (auto simp: policy_pools_def split: if_splits option.splits sum.splits)

lemma compileNamespace_pools:
  "compileNamespaceManagementIdentities sum256 nodesByName mgmt pods =
     (case policy_pools mgmt of
        None \<Rightarrow> []
      | Some (settings, ipv4Pool, ipv6Pool) \<Rightarrow>
          sort_key peer_name
            (concat (map (node_identity ipv4Pool ipv6Pool
               (or_none (allocateDirectManagementAddresses sum256 nodesByName ipv4Pool mgmt_ipv4 (mp_ipv4_gw settings)))
               (or_none (allocateDirectManagementAddresses sum256 nodesByName ipv6Pool mgmt_ipv6 (mp_ipv6_gw settings))) pods) nodesByName)))"
  by (auto simp: compileNamespaceManagementIdentities_def policy_pools_def Let_def split: option.split sum.split)

lemma node_identity_fields:
  "node_identity p4 p6 a4 a6 pods (name, node) = [] \<or>
   (\<exists>i. node_identity p4 p6 a4 a6 pods (name, node) = [i] \<and> peer_name i = name \<and>
      peer_ipv4 i = identity_address (mgmt_ipv4 node) name p4 a4 \<and> peer_ipv6 i = identity_address (mgmt_ipv6 node) name p6 a6)"
  by (simp add: node_identity_def Let_def)

end
