(* ===== verification/Management_Identities.thy ===== *)
theory Management_Identities
  imports Management_Addresses
begin

text \<open>
  What management addressing promises: allocated addresses are free, usable and inside the range;
  no two nodes of a namespace share a management address; the peer directory does not depend on the
  order in which Go visits the map of nodes; and a group's own management inputs agree with the
  directory its peers read.
\<close>

section \<open>Order\<close>

lemma map_of_perm:
  assumes "mset xs = mset ys" "distinct (map fst xs)"
  shows "map_of xs = map_of ys"
proof -
  have "mset (map fst xs) = mset (map fst ys)" using assms(1) by (metis mset_map)
  then have "distinct (map fst ys)" using assms(2) mset_eq_imp_distinct_iff by blast
  moreover have "set xs = set ys" using assms(1) by (rule mset_eq_setD)
  ultimately show ?thesis using assms(2) by (simp add: map_of_inject_set)
qed

lemma mset_concat_map: "mset (concat (map g xs)) = sum_mset (image_mset (\<lambda>x. mset (g x)) (mset xs))"
  by (induction xs) simp_all

lemma mset_declared_owners:
  assumes "mset nodesByName = mset nodesByName'"
  shows "mset (declared_owners pool address nodesByName) = mset (declared_owners pool address nodesByName')"
  using assms by (simp add: declared_owners_def List.map_filter_def mset_filter)

lemma probe_address_cong:
  assumes "\<And>a. gm_str reserved a = gm_str reserved' a"
  shows "probe_address sum256 pool gw reserved seed attempt maxAttempts = probe_address sum256 pool gw reserved' seed attempt maxAttempts"
proof (induction "nat (maxAttempts - attempt)" arbitrary: attempt rule: less_induct)
  case less
  have "attempt < maxAttempts \<Longrightarrow> probe_address sum256 pool gw reserved seed (attempt + 1) maxAttempts =
      probe_address sum256 pool gw reserved' seed (attempt + 1) maxAttempts" by (rule less) simp
  then show ?case
    by (subst (1 2) probe_address.simps) (simp add: Let_def assms)
qed

lemma allocate_names_cong:
  assumes "map_of reserved = map_of reserved'"
  shows "allocate_names sum256 pool gw uid maxAttempts names reserved result =
    allocate_names sum256 pool gw uid maxAttempts names reserved' result"
  using assms
proof (induction names arbitrary: reserved reserved' result)
  case (Cons name names)
  have "gm_str reserved a = gm_str reserved' a" for a using Cons.prems by (simp add: gm_str_def)
  note probe = probe_address_cong [OF this]
  have step: "allocate_names sum256 pool gw uid maxAttempts names (AList.update a name reserved) r =
      allocate_names sum256 pool gw uid maxAttempts names (AList.update a name reserved') r" for a r
    by (rule Cons.IH) (simp add: update_conv' Cons.prems)
  show ?case unfolding allocate_names.simps Let_def probe step ..
qed simp

lemma reserve_gateway_cong:
  assumes "map_of declared = map_of declared'"
  shows "rel_sum (=) (\<lambda>(gw, r) (gw', r'). gw = gw' \<and> map_of r = map_of r')
    (reserve_gateway pool gateway declared) (reserve_gateway pool gateway declared')"
proof -
  have "gm_str declared a = gm_str declared' a" for a using assms by (simp add: gm_str_def)
  then show ?thesis using assms by (simp add: reserve_gateway_def update_conv' split: option.split)
qed

lemma identity_key_inject:
  assumes "CHR 0x00 \<notin> set n" "CHR 0x00 \<notin> set n'" "u @ [CHR 0x00] @ n = u' @ [CHR 0x00] @ n'"
  shows "n = n'"
proof -
  have "cut (CHR 0x00) (rev (u @ [CHR 0x00] @ n)) = cut (CHR 0x00) (rev (u' @ [CHR 0x00] @ n'))" using assms(3) by simp
  moreover have "cut (CHR 0x00) (rev (v @ [CHR 0x00] @ m)) = (rev m, rev v, True)" if "CHR 0x00 \<notin> set m" for v m
    using cut_append [of "CHR 0x00" "rev m" "rev v"] that by simp
  ultimately show ?thesis using assms(1,2) by simp
qed

text \<open>The allocations do not depend on the order of the nodes.\<close>

lemma allocations_perm:
  assumes perm: "mset nodesByName = mset nodesByName'"
    and names: "distinct (map fst nodesByName)" "'''' \<notin> fst ` set nodesByName"
    and keys: "\<forall>name \<in> fst ` set nodesByName. CHR 0x00 \<notin> set name"
  shows "or_none (allocateDirectManagementAddresses sum256 nodesByName pool address gateway) =
    or_none (allocateDirectManagementAddresses sum256 nodesByName' pool address gateway)"
proof (cases "pool_enabled pool")
  case True
  let ?names = "\<lambda>nodes. map fst (filter (\<lambda>(name, node). address node = '''') nodes)"
  let ?key = "\<lambda>nodes name. node_uid nodes name @ [CHR 0x00] @ name"
  have nodes: "map_of nodesByName = map_of nodesByName'" using map_of_perm [OF perm names(1)] .
  then have uid: "node_uid nodesByName = node_uid nodesByName'" by (simp add: node_uid_def fun_eq_iff)
  have len: "length nodesByName = length nodesByName'" using perm by (rule mset_eq_length)
  have "mset (map fst nodesByName) = mset (map fst nodesByName')" using perm by simp
  then have names': "distinct (map fst nodesByName')" "'''' \<notin> fst ` set nodesByName'"
    using names mset_eq_imp_distinct_iff mset_eq_setD [OF perm] by (blast, simp)
  have sorted: "sort_key (?key nodesByName) (?names nodesByName) = sort_key (?key nodesByName') (?names nodesByName')"
    unfolding uid
  proof (rule sort_key_perm)
    show "mset (?names nodesByName) = mset (?names nodesByName')" using perm by (simp add: mset_filter)
    show "inj_on (?key nodesByName') (set (?names nodesByName))"
    proof (rule inj_onI)
      fix n n' assume n: "n \<in> set (?names nodesByName)" "n' \<in> set (?names nodesByName)" and eq: "?key nodesByName' n = ?key nodesByName' n'"
      then have "n \<in> fst ` set nodesByName" "n' \<in> fst ` set nodesByName" by auto
      then show "n = n'" using identity_key_inject [OF _ _ eq] keys by blast
    qed
  qed
  let ?owners = "declared_owners pool address"
  note owners = mset_declared_owners [OF perm, of pool address]
  have fsts: "mset (map fst (?owners nodesByName)) = mset (map fst (?owners nodesByName'))" using owners by simp
  have ok: "(\<exists>r. reserve_declared pool address nodesByName [] = Inr r) \<longleftrightarrow> (\<exists>r. reserve_declared pool address nodesByName' [] = Inr r)"
    using reserve_declared_spec(1) [OF names, of "[]"] reserve_declared_spec(1) [OF names', of "[]"] names(2) names'(2)
      mset_eq_imp_distinct_iff [OF fsts] by simp
  show ?thesis
  proof (cases "reserve_declared pool address nodesByName []")
    case (Inl e)
    with ok obtain e' where "reserve_declared pool address nodesByName' [] = Inl e'" by (metis Inl_Inr_False obj_sumE)
    with Inl show ?thesis by (simp add: allocateDirectManagementAddresses_def or_none_def)
  next
    case (Inr r)
    with ok obtain r' where r': "reserve_declared pool address nodesByName' [] = Inr r'" by blast
    have "map_of r = map_of (?owners nodesByName)" "map_of r' = map_of (?owners nodesByName')"
      using reserve_declared_spec(2) [OF names, of "[]"] reserve_declared_spec(2) [OF names', of "[]"] names(2) names'(2) Inr r' by simp_all
    moreover have "distinct (map fst (?owners nodesByName))"
      using reserve_declared_spec(1) [OF names, of "[]" pool address] names(2) Inr by simp
    ultimately have "map_of r = map_of r'" using map_of_perm [OF owners] by simp
    note gateway = reserve_gateway_cong [OF this, of pool gateway]
    show ?thesis
    proof (cases "reserve_gateway pool gateway r")
      case (Inl e)
      with gateway have "reserve_gateway pool gateway r' = Inl e" by (cases "reserve_gateway pool gateway r'") simp_all
      with Inl \<open>reserve_declared pool address nodesByName [] = Inr r\<close> r' show ?thesis
        by (simp add: allocateDirectManagementAddresses_def or_none_def)
    next
      case (Inr x)
      then obtain gw res where res: "reserve_gateway pool gateway r = Inr (gw, res)" by (cases x) simp
      with gateway obtain res' where res': "reserve_gateway pool gateway r' = Inr (gw, res')" "map_of res = map_of res'"
        by (cases "reserve_gateway pool gateway r'") auto
      show ?thesis
        unfolding allocateDirectManagementAddresses_def \<open>reserve_declared pool address nodesByName [] = Inr r\<close> r' sum.case res res'(1) prod.case
          Let_def uid sorted [unfolded uid] len allocate_names_cong [OF res'(2)] ..
    qed
  qed
qed (simp add: allocateDirectManagementAddresses_def)

section \<open>Identities\<close>

lemma node_identity_entry:
  "node_identity p4 p6 a4 a6 pods e = [] \<or> (\<exists>i. node_identity p4 p6 a4 a6 pods e = [i] \<and> peer_name i = fst e)"
  "node_identity p4 p6 a4 a6 pods e = [] \<or> (\<exists>i. node_identity p4 p6 a4 a6 pods e = [i] \<and>
     peer_ipv4 i = identity_address (mgmt_ipv4 (snd e)) (fst e) p4 a4)"
  "node_identity p4 p6 a4 a6 pods e = [] \<or> (\<exists>i. node_identity p4 p6 a4 a6 pods e = [i] \<and>
     peer_ipv6 i = identity_address (mgmt_ipv6 (snd e)) (fst e) p6 a6)"
  using node_identity_fields [of p4 p6 a4 a6 pods "fst e" "snd e"] unfolding prod.collapse by blast+

lemma node_identity_names:
  assumes "distinct (map fst nodesByName)"
  shows "distinct (map peer_name (concat (map (node_identity p4 p6 a4 a6 pods) nodesByName)))"
proof -
  have "distinct (filter (\<lambda>_. True) (map peer_name (concat (map (node_identity p4 p6 a4 a6 pods) nodesByName))))"
    by (rule distinct_identities [where key = fst, OF node_identity_entry(1) _ assms])
  then show ?thesis by simp
qed

lemma compileNamespace_names:
  assumes "distinct (map fst nodesByName)"
  shows "distinct (map peer_name (compileNamespaceManagementIdentities sum256 nodesByName mgmt pods))"
proof -
  have "distinct (filter (\<lambda>_. True) (map peer_name (sort_key peer_name (concat (map (node_identity p4 p6 a4 a6 pods) nodesByName)))))"
    for p4 p6 a4 a6 unfolding distinct_sorted_values using node_identity_names [OF assms] by simp
  then show ?thesis unfolding compileNamespace_pools by (simp split: option.split)
qed

lemma identities_differ:
  assumes valid: "validateUniqueExplicitManagementAddresses nodesByName = None"
    and names: "distinct (map fst nodesByName)" "'''' \<notin> fst ` set nodesByName"
    and pools: "policy_pools mgmt = Some (settings, p4, p6)"
    and e: "e \<in> set nodesByName" "e' \<in> set nodesByName" "fst e \<noteq> fst e'"
  shows "a4 = or_none (allocateDirectManagementAddresses sum256 nodesByName p4 mgmt_ipv4 gw4) \<Longrightarrow>
      identity_address (mgmt_ipv4 (snd e)) (fst e) p4 a4 \<noteq> '''' \<Longrightarrow> identity_address (mgmt_ipv4 (snd e')) (fst e') p4 a4 \<noteq> '''' \<Longrightarrow>
      identity_address (mgmt_ipv4 (snd e)) (fst e) p4 a4 \<noteq> identity_address (mgmt_ipv4 (snd e')) (fst e') p4 a4"
    "a6 = or_none (allocateDirectManagementAddresses sum256 nodesByName p6 mgmt_ipv6 gw6) \<Longrightarrow>
      identity_address (mgmt_ipv6 (snd e)) (fst e) p6 a6 \<noteq> '''' \<Longrightarrow> identity_address (mgmt_ipv6 (snd e')) (fst e') p6 a6 \<noteq> '''' \<Longrightarrow>
      identity_address (mgmt_ipv6 (snd e)) (fst e) p6 a6 \<noteq> identity_address (mgmt_ipv6 (snd e')) (fst e') p6 a6"
proof -
  have nodes: "(fst e, snd e) \<in> set nodesByName" "(fst e', snd e') \<in> set nodesByName" using e by simp_all
  note ok = policy_pools_ok [OF pools] and declared = validated_declarations_differ [OF valid names nodes e(3)]
  show "a4 = or_none (allocateDirectManagementAddresses sum256 nodesByName p4 mgmt_ipv4 gw4) \<Longrightarrow>
      identity_address (mgmt_ipv4 (snd e)) (fst e) p4 a4 \<noteq> '''' \<Longrightarrow> identity_address (mgmt_ipv4 (snd e')) (fst e') p4 a4 \<noteq> '''' \<Longrightarrow>
      identity_address (mgmt_ipv4 (snd e)) (fst e) p4 a4 \<noteq> identity_address (mgmt_ipv4 (snd e')) (fst e') p4 a4"
    by (rule allocation.identity_addresses_differ [where address = mgmt_ipv4, OF ok(1) names _ nodes e(3)]) (use ok(2) declared(1) in simp_all)
  show "a6 = or_none (allocateDirectManagementAddresses sum256 nodesByName p6 mgmt_ipv6 gw6) \<Longrightarrow>
      identity_address (mgmt_ipv6 (snd e)) (fst e) p6 a6 \<noteq> '''' \<Longrightarrow> identity_address (mgmt_ipv6 (snd e')) (fst e') p6 a6 \<noteq> '''' \<Longrightarrow>
      identity_address (mgmt_ipv6 (snd e)) (fst e) p6 a6 \<noteq> identity_address (mgmt_ipv6 (snd e')) (fst e') p6 a6"
    by (rule allocation.identity_addresses_differ [where address = mgmt_ipv6, OF ok(3) names _ nodes e(3)]) (use ok(4) declared(2) in simp_all)
qed

section \<open>Management inputs\<close>

lemma string6_nonempty: "string6 a \<noteq> ''''"
proof
  assume "string6 a = ''''"
  then have "[[]] = (case zero_run (groups6 a) of
        None \<Rightarrow> map appendHex (groups6 a)
      | Some (s, e) \<Rightarrow> hex_fields (take s (groups6 a)) @ [] # hex_fields (drop e (groups6 a)))"
    using string6_fields [of a] by simp
  moreover have "hex_fields gs \<noteq> []" for gs by (simp add: hex_fields_def)
  moreover have "length (groups6 a) = 8" by (simp add: groups6_def)
  ultimately show False by (auto split: option.splits simp: Cons_eq_append_conv dest!: arg_cong [of "[[]]" _ length])
qed

lemma addr_string_nonempty: "addr_string a \<noteq> ''''"
proof -
  have "string4 x \<noteq> ''''" for x using string4_dot [of x] by auto
  then show ?thesis by (cases a) (simp_all add: string6_nonempty)
qed

lemma applyDefault_nonempty:
  assumes "applyDefaultManagementPolicy settings = Inr settings'"
  shows "mp_ipv4_subnet settings' \<noteq> ''''" "mp_ipv4_gw settings' \<noteq> ''''"
proof -
  define s where "s = (if mp_ipv4_subnet settings = '''' then settings\<lparr> mp_ipv4_subnet := defaultManagementIPv4Subnet \<rparr> else settings)"
  have s: "mp_ipv4_subnet s \<noteq> ''''" by (simp add: s_def defaultManagementIPv4Subnet_def)
  from assms obtain s2 where s2: "default_ipv4_gateway s = Inr s2" "default_ipv6_gateway s2 = Inr settings'"
    by (auto simp: applyDefaultManagementPolicy_def Let_def s_def [symmetric] split: sum.splits)
  have "mp_ipv4_subnet s2 = mp_ipv4_subnet s \<and> mp_ipv4_gw s2 \<noteq> ''''"
    using s2(1) addr_string_nonempty
    by (auto simp: default_ipv4_gateway_def firstUsableManagementAddress_def split: if_splits sum.splits option.splits)
  moreover have "mp_ipv4_subnet settings' = mp_ipv4_subnet s2 \<and> mp_ipv4_gw settings' = mp_ipv4_gw s2"
    using s2(2) by (auto simp: default_ipv6_gateway_def split: if_splits sum.splits)
  ultimately show "mp_ipv4_subnet settings' \<noteq> ''''" "mp_ipv4_gw settings' \<noteq> ''''" using s by simp_all
qed

lemma policy_pools_enabled:
  assumes "policy_pools mgmt = Some (settings, ipv4Pool, ipv6Pool)"
  shows "pool_enabled ipv4Pool" "mp_ipv4_gw settings \<noteq> ''''"
proof -
  from assms obtain policy where default: "applyDefaultManagementPolicy policy = Inr settings"
    and pool: "newDirectManagementPool (mp_ipv4_subnet settings) (mp_ipv4_range settings) True = Inr ipv4Pool"
    by (auto simp: policy_pools_def split: if_splits option.splits sum.splits)
  from applyDefault_nonempty [OF default] newDirectManagementPool_ok(3) [OF pool]
  show "pool_enabled ipv4Pool" "mp_ipv4_gw settings \<noteq> ''''" by simp_all
qed

lemma compile_members_mem:
  assumes "compile_members step nodesByName members addresses result = Inr final" "input \<in> set final" "input \<notin> set result"
  shows "\<exists>name \<in> set members. \<exists>node addresses claimed. map_of nodesByName name = Some node \<and>
    \<not> has_prefix (ns_network_mode (nd_spec node)) ''container:'' \<and> step name node addresses = Inr (input, claimed)"
  using assms
proof (induction members arbitrary: addresses result)
  case (Cons name members)
  show ?case
  proof (cases "map_of nodesByName name")
    case None
    with Cons.prems Cons.IH [of addresses result] show ?thesis by auto
  next
    case (Some node)
    show ?thesis
    proof (cases "has_prefix (ns_network_mode (nd_spec node)) ''container:''")
      case True
      with Some Cons.prems Cons.IH [of addresses result] show ?thesis by auto
    next
      case False
      with Some Cons.prems(1) obtain v claimed where v: "step name node addresses = Inr (v, claimed)"
        and rest: "compile_members step nodesByName members claimed (if input_nonempty v then result @ [v] else result) = Inr final"
        by (auto split: sum.splits)
      show ?thesis
      proof (cases "v = input")
        case True
        with Some False v show ?thesis by auto
      next
        case other: False
        with Cons.prems(3) have "input \<notin> set (if input_nonempty v then result @ [v] else result)" by auto
        from Cons.IH [OF rest Cons.prems(2) this] show ?thesis by (auto simp: Bex_def)
      qed
    qed
  qed
qed auto

lemma member_address_Inr:
  assumes "member_address node name field raw pool allocations gateway = Inr address"
  shows "identity_address raw name pool allocations = bareDirectManagementAddress address"
    "validateDirectManagementHostAddress address pool gateway = None"
  using assms by (auto simp: member_address_def identity_address_def Let_def split: sum.splits option.splits)

lemma member_text:
  assumes member: "member_address node name field (address node) pool allocations gateway = Inr cidr"
    and pool: "pool_ok pool" "pool_enabled pool"
    and run: "allocateDirectManagementAddresses sum256 nodesByName pool address gateway' = Inr allocations"
    and names: "distinct (map fst nodesByName)" "'''' \<notin> fst ` set nodesByName" and node: "map_of nodesByName name = Some node"
  shows "\<exists>p. valid_prefix (pool_ipv4 pool) p \<and> cidr = prefix_string p"
proof (cases "address node = ''''")
  case True
  then have cidr: "cidr = gm_str allocations name"
    using member by (auto simp: member_address_def normalizeDirectManagementAddress_def Let_def split: option.splits)
  have "name \<in> unaddressed address nodesByName" using True node by (auto simp: unaddressed_def dest: map_of_SomeD)
  moreover obtain f where "\<forall>name \<in> unaddressed address nodesByName.
       Contains (pool_allocation pool) (f name) \<and> usableManagementAddress pool (f name) (gateway_address gateway') \<and>
       (\<forall>(n, node) \<in> set nodesByName. declared_in_range pool address node \<noteq> Some (f name)) \<and>
       map_of allocations name = Some (prefix_string (PrefixFrom (f name) (prefix_bits (pool_network pool))))"
    using allocation_spec [OF run pool names] by (elim exE conjE) (rule that)
  ultimately have f: "Contains (pool_allocation pool) (f name)"
    "map_of allocations name = Some (prefix_string (PrefixFrom (f name) (prefix_bits (pool_network pool))))" by simp_all
  from allocated_text(1) [OF pool f(1)] f(2) cidr show ?thesis by (auto simp: gm_str_def)
next
  case False
  obtain declared where declared: "normalizeDirectManagementAddress (address node) pool = Inr declared"
    using member by (auto simp: member_address_def split: sum.splits)
  from normalize_declared [OF declared False pool(1)] obtain p where p: "declared = prefix_string p" "valid_prefix (pool_ipv4 pool) p" by blast
  then have "cidr = declared" using member declared bare_text(2) [OF p(2)] by (auto simp: member_address_def Let_def split: option.splits)
  with p show ?thesis by blast
qed

lemma member_input_Inr:
  assumes "member_input sum256 settings p4 p6 a4 a6 ports name node addresses = Inr (input, claimed)"
  shows "member_address node name ''mgmtIPv4'' (mgmt_ipv4 node) p4 a4 (mp_ipv4_gw settings) = Inr (mi_ipv4 input)"
    "member_address node name ''mgmtIPv6'' (mgmt_ipv6 node) p6 a6 (mp_ipv6_gw settings) = Inr (mi_ipv6 input)"
    "validateDirectManagementGateway (mp_ipv4_gw settings) (mi_ipv4 input) True = None"
    "mi_ipv4_gateway input = mp_ipv4_gw settings" "mi_node_id input = nd_uid node"
    "mi_mesh input = Some \<lparr> mesh_tunnel_id = fst (managementMeshIdentity sum256 (nd_namespace node)),
       mesh_gateway_mac = snd (managementMeshIdentity sum256 (nd_namespace node)) \<rparr>"
  using assms by (auto simp: member_input_def Let_def split: sum.splits option.splits)

lemma compileDirectManagement_mem:
  assumes "compileDirectManagement sum256 members nodesByName mgmt ports = Inr inputs" "input \<in> set inputs"
  shows "\<exists>settings p4 p6 a4 a6 name node addresses claimed. policy_pools mgmt = Some (settings, p4, p6) \<and>
    allocateDirectManagementAddresses sum256 nodesByName p4 mgmt_ipv4 (mp_ipv4_gw settings) = Inr a4 \<and>
    allocateDirectManagementAddresses sum256 nodesByName p6 mgmt_ipv6 (mp_ipv6_gw settings) = Inr a6 \<and>
    name \<in> set members \<and> map_of nodesByName name = Some node \<and> \<not> has_prefix (ns_network_mode (nd_spec node)) ''container:'' \<and>
    member_input sum256 settings p4 p6 a4 a6 ports name node addresses = Inr (input, claimed)"
proof -
  have "\<not> (case mgmt of None \<Rightarrow> False | Some policy \<Rightarrow> mp_disabled policy)"
    using assms by (auto simp: compileDirectManagement_def split: option.splits if_splits)
  with assms(1) obtain settings p4 p6 a4 a6 where run: "policy_pools mgmt = Some (settings, p4, p6)"
    "allocateDirectManagementAddresses sum256 nodesByName p4 mgmt_ipv4 (mp_ipv4_gw settings) = Inr a4"
    "allocateDirectManagementAddresses sum256 nodesByName p6 mgmt_ipv6 (mp_ipv6_gw settings) = Inr a6"
    "compile_members (member_input sum256 settings p4 p6 a4 a6 ports) nodesByName members [] [] = Inr inputs"
    by (auto simp: compileDirectManagement_def policy_pools_def split: option.splits if_splits sum.splits)
  from compile_members_mem [OF run(4) assms(2)] run(1-3) show ?thesis by auto
qed

lemma mesh_tunnel_id_range:
  "1 \<le> fst (managementMeshIdentity sum256 namespace) \<and> fst (managementMeshIdentity sum256 namespace) \<le> 2 ^ 24 - 1"
  unfolding managementMeshIdentity_def Let_def fst_conv managementMeshTunnelSpan_def
  using pos_mod_bound [of "2 ^ 24 - 1 :: int"] pos_mod_sign [of "2 ^ 24 - 1 :: int"] by simp

section \<open>Nodes for concrete instances\<close>

text \<open>Two nodes without an address and one with \<open>10.0.0.9\<close>, in a small range; the digest repeats the last byte of its text.\<close>

definition sample_digest :: digest where
  "sample_digest s = replicate 32 (of_nat (of_char (last s)))"

definition sample_addressed :: "string \<Rightarrow> string \<Rightarrow> node" where
  "sample_addressed name ipv4 = (sample_node name '''')\<lparr> nd_spec := (nd_spec (sample_node name ''''))\<lparr> ns_mgmt_ipv4 := ipv4, ns_profile_ref := Some ''mgmt'' \<rparr> \<rparr>"

definition sample_lab :: nodes_by_name where
  "sample_lab = [(''r1'', sample_addressed ''r1'' ''''), (''r2'', sample_addressed ''r2'' ''10.0.0.9''), (''r3'', sample_addressed ''r3'' '''')]"

definition sample_policy :: management_policy where
  "sample_policy = empty_policy\<lparr> mp_ipv4_subnet := ''10.0.0.0/24'' \<rparr>"

definition sample_pool :: management_pool where
  "sample_pool = \<lparr> pool_network = Prefix (Addr4 0x0A000000) 24, pool_allocation = Prefix (Addr4 0x0A000000) 24,
     pool_ipv4 = True, pool_enabled = True \<rparr>"

lemma sample_pool_run: "newDirectManagementPool ''10.0.0.0/24'' '''' True = Inr sample_pool"
  by code_simp

lemma sample_allocation: "allocateDirectManagementAddresses sample_digest sample_lab sample_pool mgmt_ipv4 ''10.0.0.1'' =
    Inr [(''r1'', ''10.0.0.48/24''), (''r3'', ''10.0.0.49/24'')]"
  by code_simp

lemma sample_lab_names: "distinct (map fst sample_lab)" "'''' \<notin> fst ` set sample_lab"
  by (simp_all add: sample_lab_def)

lemma sample_lab_valid: "validateUniqueExplicitManagementAddresses sample_lab = None"
  by code_simp

definition sample_no_pool :: management_pool where
  "sample_no_pool = \<lparr> pool_network = no_prefix, pool_allocation = no_prefix, pool_ipv4 = False, pool_enabled = False \<rparr>"

lemma sample_policy_pools: "policy_pools (Some sample_policy) = Some (sample_policy\<lparr> mp_ipv4_gw := ''10.0.0.1'' \<rparr>, sample_pool, sample_no_pool)"
  by code_simp

lemma sample_identities: "compileNamespaceManagementIdentities sample_digest sample_lab (Some sample_policy) [] =
   [sample_peer ''r1'' ''10.0.0.48'', sample_peer ''r2'' ''10.0.0.9'', sample_peer ''r3'' ''10.0.0.49'']"
proof -
  have none: "allocateDirectManagementAddresses sample_digest sample_lab sample_no_pool mgmt_ipv6 gw = Inr []" for gw
    by (simp add: allocateDirectManagementAddresses_def sample_no_pool_def)
  have "sort_key peer_name (concat (map (node_identity sample_pool sample_no_pool
      [(''r1'', ''10.0.0.48/24''), (''r3'', ''10.0.0.49/24'')] [] []) sample_lab)) =
    [sample_peer ''r1'' ''10.0.0.48'', sample_peer ''r2'' ''10.0.0.9'', sample_peer ''r3'' ''10.0.0.49'']" by code_simp
  then show ?thesis
    by (simp add: compileNamespace_pools sample_policy_pools none sample_allocation or_none_def)
qed

section \<open>Properties\<close>

text \<open>
  C25: allocation is safe. When an enabled pool allocates, every node without a declared address gets
  an address inside the range and inside the subnet; it is not the gateway, not the first address of
  the subnet and not the last one of an IPv4 subnet; no other node gets it or declares it. The result
  holds exactly these nodes, each with its address and the length of the subnet.
\<close>

theorem management_allocation_safe:
  assumes pool: "newDirectManagementPool subnet addressRange ipv4 = Inr pool" "subnet \<noteq> ''''"
    and run: "allocateDirectManagementAddresses sum256 nodesByName pool address gateway = Inr result"
    and names: "distinct (map fst nodesByName)" "'''' \<notin> fst ` set nodesByName"
  shows "\<exists>f. inj_on f (unaddressed address nodesByName) \<and>
    (\<forall>name \<in> unaddressed address nodesByName.
       map_of result name = Some (prefix_string (PrefixFrom (f name) (prefix_bits (pool_network pool)))) \<and>
       Contains (pool_allocation pool) (f name) \<and> Contains (pool_network pool) (f name) \<and>
       f name \<noteq> gateway_address gateway \<and> f name \<noteq> prefix_addr (pool_network pool) \<and>
       (ipv4 \<longrightarrow> f name \<noteq> lastPrefixAddress (pool_network pool)) \<and>
       (\<forall>(n, node) \<in> set nodesByName. declared_address address ipv4 node \<noteq> Some (f name))) \<and>
    (\<forall>name. name \<notin> unaddressed address nodesByName \<longrightarrow> map_of result name = None)"
proof -
  note ok = newDirectManagementPool_ok [OF pool(1)]
  have enabled: "pool_enabled pool" using ok(3) pool(2) by simp
  obtain f where f: "inj_on f (unaddressed address nodesByName)"
    and each: "\<forall>name \<in> unaddressed address nodesByName.
       Contains (pool_allocation pool) (f name) \<and> usableManagementAddress pool (f name) (gateway_address gateway) \<and>
       (\<forall>(n, node) \<in> set nodesByName. declared_in_range pool address node \<noteq> Some (f name)) \<and>
       map_of result name = Some (prefix_string (PrefixFrom (f name) (prefix_bits (pool_network pool))))"
    and others: "\<forall>name. name \<notin> unaddressed address nodesByName \<longrightarrow> map_of result name = None"
    using allocation_spec [OF run ok(1) enabled names] by (elim exE conjE) (rule that)
  show ?thesis
  proof (intro exI [of _ f] conjI f others ballI)
    fix name assume "name \<in> unaddressed address nodesByName"
    from bspec [OF each this] have n: "Contains (pool_allocation pool) (f name)" "usableManagementAddress pool (f name) (gateway_address gateway)"
      "\<forall>(n, node) \<in> set nodesByName. declared_in_range pool address node \<noteq> Some (f name)"
      "map_of result name = Some (prefix_string (PrefixFrom (f name) (prefix_bits (pool_network pool))))" by simp_all
    from n(1,2,4) ok(1) enabled subnet_edges [OF ok(1) enabled n(1,2)] ok(2)
    show "map_of result name = Some (prefix_string (PrefixFrom (f name) (prefix_bits (pool_network pool))))"
      "Contains (pool_allocation pool) (f name)" "Contains (pool_network pool) (f name)" "f name \<noteq> gateway_address gateway"
      "f name \<noteq> prefix_addr (pool_network pool)" "ipv4 \<longrightarrow> f name \<noteq> lastPrefixAddress (pool_network pool)"
      by (simp_all add: usableManagementAddress_def pool_ok_def)
    show "case entry of (n, node) \<Rightarrow> declared_address address ipv4 node \<noteq> Some (f name)" if "entry \<in> set nodesByName" for entry
      using bspec [OF n(3) that] n(1) ok(2)
      by (auto simp: declared_address_def declared_in_range_def split: prod.splits sum.splits if_splits)
  qed
qed

lemma management_allocation_safe_witness:
  "\<exists>f. map_of [(''r1'', ''10.0.0.48/24''), (''r3'', ''10.0.0.49/24'')] ''r1'' = Some (prefix_string (PrefixFrom (f ''r1'') 24)) \<and>
     f ''r1'' \<noteq> f ''r3'' \<and> f ''r1'' \<noteq> Addr4 0x0A000001 \<and> f ''r1'' \<noteq> Addr4 0x0A000000 \<and> f ''r1'' \<noteq> Addr4 0x0A000009"
proof -
  have nodes: "''r1'' \<in> unaddressed mgmt_ipv4 sample_lab" "''r3'' \<in> unaddressed mgmt_ipv4 sample_lab"
    by (simp_all add: unaddressed_def sample_lab_def sample_addressed_def sample_defs)
  have declared: "(''r2'', sample_addressed ''r2'' ''10.0.0.9'') \<in> set sample_lab" by (simp add: sample_lab_def)
  have address: "declared_address mgmt_ipv4 True (sample_addressed ''r2'' ''10.0.0.9'') = Some (Addr4 0x0A000009)" by code_simp
  have gateway: "gateway_address ''10.0.0.1'' = Addr4 0x0A000001" by code_simp
  have subnet: "''10.0.0.0/24'' \<noteq> ''''" by simp
  from management_allocation_safe [OF sample_pool_run subnet sample_allocation sample_lab_names]
  obtain f where f: "inj_on f (unaddressed mgmt_ipv4 sample_lab)"
    and each: "\<forall>name \<in> unaddressed mgmt_ipv4 sample_lab.
       map_of [(''r1'', ''10.0.0.48/24''), (''r3'', ''10.0.0.49/24'')] name = Some (prefix_string (PrefixFrom (f name) (prefix_bits (pool_network sample_pool)))) \<and>
       Contains (pool_allocation sample_pool) (f name) \<and> Contains (pool_network sample_pool) (f name) \<and>
       f name \<noteq> gateway_address ''10.0.0.1'' \<and> f name \<noteq> prefix_addr (pool_network sample_pool) \<and>
       (True \<longrightarrow> f name \<noteq> lastPrefixAddress (pool_network sample_pool)) \<and>
       (\<forall>(n, node) \<in> set sample_lab. declared_address mgmt_ipv4 True node \<noteq> Some (f name))"
    by (elim exE conjE) (rule that)
  note r1 = bspec [OF each nodes(1)]
  have "f ''r1'' \<noteq> f ''r3''" using f nodes by (auto simp: inj_on_def)
  moreover have "f ''r1'' \<noteq> Addr4 0x0A000009" using r1 [THEN conjunct2, THEN conjunct2, THEN conjunct2, THEN conjunct2, THEN conjunct2, THEN conjunct2, THEN bspec, OF declared] address by simp
  ultimately show ?thesis using r1 unfolding gateway by (intro exI [of _ f]) (simp add: sample_pool_def)
qed



text \<open>
  C27: the peer directory is a function of the set of nodes. Whatever order Go visits the map of nodes
  in, the compiled identities are the same list.
\<close>

theorem management_identities_deterministic:
  assumes perm: "mset nodesByName = mset nodesByName'"
    and names: "distinct (map fst nodesByName)" "'''' \<notin> fst ` set nodesByName"
    and keys: "\<forall>name \<in> fst ` set nodesByName. CHR 0x00 \<notin> set name"
  shows "compileNamespaceManagementIdentities sum256 nodesByName mgmt pods = compileNamespaceManagementIdentities sum256 nodesByName' mgmt pods"
proof -
  note allocations = allocations_perm [OF perm names keys]
  have "sort_key peer_name (concat (map (node_identity p4 p6 a4 a6 pods) nodesByName)) =
      sort_key peer_name (concat (map (node_identity p4 p6 a4 a6 pods) nodesByName'))" for p4 p6 a4 a6
  proof (rule sort_key_perm)
    show "mset (concat (map (node_identity p4 p6 a4 a6 pods) nodesByName)) = mset (concat (map (node_identity p4 p6 a4 a6 pods) nodesByName'))"
      unfolding mset_concat_map perm ..
    show "inj_on peer_name (set (concat (map (node_identity p4 p6 a4 a6 pods) nodesByName)))"
      using node_identity_names [OF names(1)] by (rule distinct_map [THEN iffD1, THEN conjunct2])
  qed
  then show ?thesis unfolding compileNamespace_pools allocations by (simp split: option.split)
qed

lemma management_identities_deterministic_witness:
  "compileNamespaceManagementIdentities sample_digest sample_lab (Some sample_policy) [] =
   compileNamespaceManagementIdentities sample_digest (rev sample_lab) (Some sample_policy) []"
  by (rule management_identities_deterministic) (simp_all add: sample_lab_names, simp add: sample_lab_def)

text \<open>
  C29: a group agrees with the directory. Every management input compiled for a group member is in the
  peer directory of the namespace: the directory has a peer with the name of that member, its bare
  IPv4 and IPv6 addresses and the address of its Pod.
\<close>

theorem management_inputs_match_directory:
  assumes run: "compileDirectManagement sum256 members nodesByName mgmt ports = Inr inputs" "input \<in> set inputs"
    and names: "distinct (map fst nodesByName)" "'''' \<notin> fst ` set nodesByName"
  shows "\<exists>peer \<in> set (compileNamespaceManagementIdentities sum256 nodesByName mgmt pods).
    peer_name peer \<in> set members \<and>
    (\<exists>node. map_of nodesByName (peer_name peer) = Some node \<and> mi_node_id input = nd_uid node \<and> peer_pod peer = gm_str pods (nd_uid node)) \<and>
    peer_ipv4 peer = bareDirectManagementAddress (mi_ipv4 input) \<and> peer_ipv6 peer = bareDirectManagementAddress (mi_ipv6 input)"
proof -
  from compileDirectManagement_mem [OF run] obtain settings p4 p6 a4 a6 name node addresses claimed where
    pools: "policy_pools mgmt = Some (settings, p4, p6)"
    and a4: "allocateDirectManagementAddresses sum256 nodesByName p4 mgmt_ipv4 (mp_ipv4_gw settings) = Inr a4"
    and a6: "allocateDirectManagementAddresses sum256 nodesByName p6 mgmt_ipv6 (mp_ipv6_gw settings) = Inr a6"
    and name: "name \<in> set members" "map_of nodesByName name = Some node" "\<not> has_prefix (ns_network_mode (nd_spec node)) ''container:''"
    and input: "member_input sum256 settings p4 p6 a4 a6 ports name node addresses = Inr (input, claimed)"
    by (elim exE conjE) (rule that)
  note fields = member_input_Inr [OF input]
  note ipv4 = member_address_Inr [OF fields(1)] and ipv6 = member_address_Inr(1) [OF fields(2)]
  obtain p where p: "valid_prefix (pool_ipv4 p4) p" "mi_ipv4 input = prefix_string p"
    using member_text [OF fields(1) policy_pools_ok(1) [OF pools] policy_pools_enabled(1) [OF pools] a4 names name(2)] by blast
  have nonempty: "identity_address (mgmt_ipv4 node) name p4 a4 \<noteq> ''''"
    using ipv4(1) bare_text(1) [OF p(1)] p(2) addr_string_nonempty by simp
  have entry: "(name, node) \<in> set nodesByName" using name(2) by (rule map_of_SomeD)
  let ?peer = "\<lparr> peer_name = name, peer_ipv4 = bareDirectManagementAddress (mi_ipv4 input), peer_ipv6 = bareDirectManagementAddress (mi_ipv6 input),
    peer_aliases = ns_aliases (nd_spec node) @ component_aliases name (ns_components (nd_spec node)), peer_pod = gm_str pods (nd_uid node) \<rparr>"
  have "node_identity p4 p6 a4 a6 pods (name, node) = [?peer]"
    using nonempty name(3) ipv4(1) ipv6 by (simp add: node_identity_def Let_def)
  then have "?peer \<in> set (concat (map (node_identity p4 p6 a4 a6 pods) nodesByName))" using entry by force
  then have "?peer \<in> set (compileNamespaceManagementIdentities sum256 nodesByName mgmt pods)"
    by (simp add: compileNamespace_pools pools a4 a6 or_none_def)
  moreover have "mi_node_id input = nd_uid node" using fields(5) .
  ultimately show ?thesis using name(1,2) by (intro bexI [of _ ?peer]) simp_all
qed


lemma sample_input: "\<exists>input. compileDirectManagement sample_digest [''r3''] sample_lab (Some sample_policy) [] = Inr [input] \<and>
    (mi_node_id input, mi_ipv4 input, mi_ipv4_gateway input) = (''uid-r3'', ''10.0.0.49/24'', ''10.0.0.1'')"
proof -
  have "map_sum id (map (\<lambda>input. (mi_node_id input, mi_ipv4 input, mi_ipv4_gateway input)))
    (compileDirectManagement sample_digest [''r3''] sample_lab (Some sample_policy) []) = Inr [(''uid-r3'', ''10.0.0.49/24'', ''10.0.0.1'')]"
    by code_simp
  then show ?thesis by (cases "compileDirectManagement sample_digest [''r3''] sample_lab (Some sample_policy) []") auto
qed

lemma management_inputs_match_directory_witness:
  "\<exists>input peer. compileDirectManagement sample_digest [''r3''] sample_lab (Some sample_policy) [] = Inr [input] \<and>
     peer \<in> set (compileNamespaceManagementIdentities sample_digest sample_lab (Some sample_policy) []) \<and>
     peer_name peer = ''r3'' \<and> peer_ipv4 peer = bareDirectManagementAddress (mi_ipv4 input)"
proof -
  from sample_input obtain input where run: "compileDirectManagement sample_digest [''r3''] sample_lab (Some sample_policy) [] = Inr [input]" by blast
  have "input \<in> set [input]" by simp
  from management_inputs_match_directory [OF run this sample_lab_names, of "[]"] obtain peer where
    "peer \<in> set (compileNamespaceManagementIdentities sample_digest sample_lab (Some sample_policy) [])"
    "peer_name peer \<in> set [''r3'']" "peer_ipv4 peer = bareDirectManagementAddress (mi_ipv4 input)" by blast
  with run show ?thesis by auto
qed

text \<open>
  A compiled management input can be realized. Its IPv4 address parses, with the length of its
  subnet; its gateway parses to an IPv4 address on the same link that is not the address itself; and
  the identifier of its mesh is a usable VXLAN identifier, from 1 to \<open>2 ^ 24 - 1\<close>.
\<close>

theorem management_input_realizable:
  assumes "compileDirectManagement sum256 members nodesByName mgmt ports = Inr inputs" "input \<in> set inputs"
  shows "\<exists>p gateway mesh. ParsePrefix (mi_ipv4 input) = Some p \<and> ParseAddr (mi_ipv4_gateway input) = Some gateway \<and>
    Is4 (prefix_addr p) \<and> Is4 gateway \<and> Contains p gateway \<and> prefix_addr p \<noteq> gateway \<and>
    mi_mesh input = Some mesh \<and> 1 \<le> mesh_tunnel_id mesh \<and> mesh_tunnel_id mesh \<le> 2 ^ 24 - 1"
proof -
  from compileDirectManagement_mem [OF assms] obtain settings p4 p6 a4 a6 name node addresses claimed where
    pools: "policy_pools mgmt = Some (settings, p4, p6)"
    and input: "member_input sum256 settings p4 p6 a4 a6 ports name node addresses = Inr (input, claimed)"
    by (elim exE conjE) (rule that)
  note fields = member_input_Inr [OF input] and enabled = policy_pools_enabled [OF pools]
  from fields(3) enabled(2) obtain p gateway where p: "ParsePrefix (mi_ipv4 input) = Some p" "Is4 (prefix_addr p)"
    and gateway: "ParseAddr (mp_ipv4_gw settings) = Some gateway" "Is4 gateway" "Contains p gateway"
    by (auto simp: validateDirectManagementGateway_def split: option.splits if_splits)
  have "mi_ipv4 input \<noteq> ''''" using p(1) by (auto simp: ParsePrefix_def)
  then have "prefix_addr p \<noteq> gateway"
    using member_address_Inr(2) [OF fields(1)] enabled p(1) gateway(1)
    by (auto simp: validateDirectManagementHostAddress_def usableManagementAddress_def split: if_splits)
  moreover have "1 \<le> fst (managementMeshIdentity sum256 (nd_namespace node)) \<and>
      fst (managementMeshIdentity sum256 (nd_namespace node)) \<le> 2 ^ 24 - 1"
    by (rule mesh_tunnel_id_range)
  ultimately show ?thesis using p gateway fields(4,6) by auto
qed

lemma management_input_realizable_witness:
  "\<exists>input p gateway. compileDirectManagement sample_digest [''r3''] sample_lab (Some sample_policy) [] = Inr [input] \<and>
     ParsePrefix (mi_ipv4 input) = Some p \<and> ParseAddr (mi_ipv4_gateway input) = Some gateway \<and> Contains p gateway \<and>
     mi_mesh input \<noteq> None"
proof -
  from sample_input obtain input where run: "compileDirectManagement sample_digest [''r3''] sample_lab (Some sample_policy) [] = Inr [input]" by blast
  have "input \<in> set [input]" by simp
  from management_input_realizable [OF run this] run show ?thesis by auto
qed

text \<open>
  A pool is well formed. An accepted pool is enabled exactly when there is a subnet; then the subnet
  and the range are valid prefixes of its family in canonical form, the range is not larger than the
  subnet, and every address of the range is in the subnet.
\<close>

theorem management_pool_well_formed:
  assumes "newDirectManagementPool subnet addressRange ipv4 = Inr pool"
  shows "pool_ipv4 pool = ipv4 \<and> (pool_enabled pool \<longleftrightarrow> subnet \<noteq> '''') \<and>
    (pool_enabled pool \<longrightarrow>
       valid_prefix ipv4 (pool_network pool) \<and> Masked (pool_network pool) = pool_network pool \<and>
       valid_prefix ipv4 (pool_allocation pool) \<and> Masked (pool_allocation pool) = pool_allocation pool \<and>
       prefix_bits (pool_network pool) \<le> prefix_bits (pool_allocation pool) \<and>
       (\<forall>a. Contains (pool_allocation pool) a \<longrightarrow> Contains (pool_network pool) a))"
  using newDirectManagementPool_ok [OF assms] by (simp add: pool_ok_def)

lemma management_pool_well_formed_witness:
  "\<exists>pool. newDirectManagementPool ''10.0.0.0/24'' ''10.0.0.64/26'' True = Inr pool \<and> pool_enabled pool \<and> valid_prefix True (pool_allocation pool) \<and>
     prefix_bits (pool_network pool) = 24 \<and> prefix_bits (pool_allocation pool) = 26"
proof -
  have run: "newDirectManagementPool ''10.0.0.0/24'' ''10.0.0.64/26'' True =
      Inr (sample_pool\<lparr> pool_allocation := Prefix (Addr4 0x0A000040) 26 \<rparr>)" by code_simp
  from management_pool_well_formed [OF run] run show ?thesis by (simp add: sample_pool_def)
qed


end
