(* ===== verification/Peer_Directory_Controller.thy ===== *)
theory Peer_Directory_Controller
  imports Management_Identities Topology_Types
begin

text \<open>
  The controller of the peer directory (\<open>src/controllers/node/directpeerdirectory.go\<close> and
  \<open>peerdirectorycontroller.go\<close>): the addresses of the Pods of a namespace, the peers compiled under
  the policy of each node's profile, and the writes that bring the shard ConfigMaps to the rendered
  content.

  The API of ConfigMaps is a parameter. An answer may depend on the calls made so far, so other writers
  may act between any two of them; nothing is assumed about it. The namespace writer lock of
  \<open>refreshDirectPeerDirectory\<close> makes one pass run at a time and has no counterpart here.
\<close>

section \<open>Definitions\<close>

subsection \<open>ConfigMaps\<close>

record config_map =
  cm_meta :: object_meta
  cm_data :: "(string, string) gomap"

datatype cm_error = CmNotFound | CmConflict | CmAlreadyExists | CmOther string

text \<open>A read is of the cache or, when the flag is set, of the API server.\<close>

datatype cm_call = CmGet bool string | CmCreate config_map | CmUpdate config_map | CmDelete string

record cm_api =
  ca_get :: "cm_call list \<Rightarrow> bool \<Rightarrow> string \<Rightarrow> cm_error + config_map"
  ca_create :: "cm_call list \<Rightarrow> config_map \<Rightarrow> cm_error option"
  ca_update :: "cm_call list \<Rightarrow> config_map \<Rightarrow> cm_error option"
  ca_delete :: "cm_call list \<Rightarrow> string \<Rightarrow> cm_error option"
  ca_api_reader :: bool

text \<open>\<open>maps.Copy\<close>.\<close>

definition copy_map :: "('k, 'v) gomap \<Rightarrow> ('k, 'v) gomap \<Rightarrow> ('k, 'v) gomap" where
  "copy_map dst src = fold (\<lambda>(k, v) m. AList.update k v m) src dst"

text \<open>One run of the function given to \<open>OnError\<close>: its error, the object last read or written, and the calls so far.\<close>

definition shard_attempt :: "cm_api \<Rightarrow> config_map \<Rightarrow> bool \<Rightarrow> cm_call list \<Rightarrow> cm_error option \<times> config_map option \<times> cm_call list" where
  "shard_attempt api rendered direct calls =
     (let name = meta_name (cm_meta rendered); calls1 = calls @ [CmGet direct name] in
      case ca_get api calls direct name of
        Inl CmNotFound \<Rightarrow>
          (case ca_create api calls1 rendered of
             Some e \<Rightarrow> (Some e, None, calls1 @ [CmCreate rendered])
           | None \<Rightarrow> (None, Some rendered, calls1 @ [CmCreate rendered]))
      | Inl e \<Rightarrow> (Some e, None, calls1)
      | Inr existing \<Rightarrow>
          if gm_str (cm_data existing) PeerDirectoryConfigMapKey = gm_str (cm_data rendered) PeerDirectoryConfigMapKey \<and>
             contains_expected (meta_labels (cm_meta existing)) (meta_labels (cm_meta rendered))
          then (None, Some existing, calls1)
          else let updated = existing\<lparr> cm_data := cm_data rendered,
                     cm_meta := (cm_meta existing)\<lparr> meta_labels := copy_map (meta_labels (cm_meta existing)) (meta_labels (cm_meta rendered)) \<rparr> \<rparr> in
            (case ca_update api calls1 updated of
               Some e \<Rightarrow> (Some e, None, calls1 @ [CmUpdate updated])
             | None \<Rightarrow> (None, Some updated, calls1 @ [CmUpdate updated])))"

text \<open>
  \<open>OnError\<close> of client-go with the retriable errors of the source; \<open>retries\<close> is one less than the steps of
  the backoff. A retry reads the API server when there is a reader for it.
\<close>

fun reconcile_shard :: "cm_api \<Rightarrow> nat \<Rightarrow> config_map \<Rightarrow> bool \<Rightarrow> cm_call list \<Rightarrow> cm_error option \<times> config_map option \<times> cm_call list" where
  "reconcile_shard api 0 rendered direct calls = shard_attempt api rendered direct calls"
| "reconcile_shard api (Suc retries) rendered direct calls =
     (case shard_attempt api rendered direct calls of
        (Some CmConflict, _, calls') \<Rightarrow> reconcile_shard api retries rendered (ca_api_reader api) calls'
      | (Some CmAlreadyExists, _, calls') \<Rightarrow> reconcile_shard api retries rendered (ca_api_reader api) calls'
      | result \<Rightarrow> result)"

definition reconcileDirectPeerDirectoryShard :: "cm_api \<Rightarrow> nat \<Rightarrow> config_map \<Rightarrow> cm_call list
    \<Rightarrow> cm_error option \<times> config_map option \<times> cm_call list" where
  "reconcileDirectPeerDirectoryShard api retries rendered calls = reconcile_shard api retries rendered False calls"

text \<open>The loop over the shards: its error, the object of each shard done, and the calls.\<close>

fun reconcile_shards :: "cm_api \<Rightarrow> nat \<Rightarrow> config_map list \<Rightarrow> cm_call list \<Rightarrow> cm_error option \<times> config_map list \<times> cm_call list" where
  "reconcile_shards api retries [] calls = (None, [], calls)"
| "reconcile_shards api retries (rendered # rest) calls =
     (case reconcileDirectPeerDirectoryShard api retries rendered calls of
        (None, Some object, calls') \<Rightarrow>
          (case reconcile_shards api retries rest calls' of (err, objects, calls'') \<Rightarrow> (err, object # objects, calls''))
      | (err, _, calls') \<Rightarrow> (err, [], calls'))"

definition removeLegacyDirectPeerDirectory :: "cm_api \<Rightarrow> cm_call list \<Rightarrow> cm_error option \<times> cm_call list" where
  "removeLegacyDirectPeerDirectory api calls =
     (let calls1 = calls @ [CmGet False PeerDirectoryConfigMapName] in
      case ca_get api calls False PeerDirectoryConfigMapName of
        Inl CmNotFound \<Rightarrow> (None, calls1)
      | Inl e \<Rightarrow> (Some e, calls1)
      | Inr legacy \<Rightarrow>
          if gm_str (meta_labels (cm_meta legacy)) LabelApp \<noteq> Clabernetes then (None, calls1)
          else (case ca_delete api calls1 PeerDirectoryConfigMapName of
                  Some CmNotFound \<Rightarrow> (None, calls1 @ [CmDelete PeerDirectoryConfigMapName])
                | result \<Rightarrow> (result, calls1 @ [CmDelete PeerDirectoryConfigMapName])))"

definition shard_config_map :: "string \<Rightarrow> (string, string) gomap \<Rightarrow> (string, string) gomap \<Rightarrow> nat \<times> string \<Rightarrow> config_map" where
  "shard_config_map namespace annotations labels entry =
     (case entry of (shard, content) \<Rightarrow>
        \<lparr> cm_meta = \<lparr> meta_name = PeerDirectoryShardConfigMapName shard, meta_namespace = namespace, meta_uid = '''',
            meta_resource_version = '''', meta_generation = 0, meta_labels = labels, meta_annotations = annotations,
            meta_owners = [], meta_deletion = None, meta_creation = 0 \<rparr>,
          cm_data = [(PeerDirectoryConfigMapKey, content)] \<rparr>)"

definition reconcileDirectPeerDirectory :: "peer_codec \<Rightarrow> cm_api \<Rightarrow> nat \<Rightarrow> (string, string) gomap \<Rightarrow> (string, string) gomap \<Rightarrow> string
    \<Rightarrow> peer_identity list \<Rightarrow> cm_error option \<times> config_map list \<times> cm_call list" where
  "reconcileDirectPeerDirectory codec api retries annotations globalLabels namespace peers =
     (case RenderPeerDirectoryShards codec peers of
        Inl e \<Rightarrow> (Some (CmOther e), [], [])
      | Inr shards \<Rightarrow>
          let labels = copy_map [(LabelApp, Clabernetes)] globalLabels;
              rendered = map (shard_config_map namespace annotations labels) (zip [0..<length shards] shards) in
          (case reconcile_shards api retries rendered [] of
             (Some e, objects, calls) \<Rightarrow> (Some e, objects, calls)
           | (None, objects, calls) \<Rightarrow>
               (case removeLegacyDirectPeerDirectory api calls of (err, calls') \<Rightarrow> (err, objects, calls'))))"

subsection \<open>Pods\<close>

definition newest_addressed :: "pod list \<Rightarrow> (string, pod) gomap" where
  "newest_addressed pods =
     foldl (\<lambda>newest pod.
        if pd_node_uid pod = '''' \<or> meta_deletion (pd_meta pod) \<noteq> None \<or> pd_pod_ip pod = '''' then newest
        else case map_of newest (pd_node_uid pod) of
          None \<Rightarrow> AList.update (pd_node_uid pod) pod newest
        | Some current \<Rightarrow>
            if meta_creation (pd_meta pod) > meta_creation (pd_meta current) then AList.update (pd_node_uid pod) pod newest else newest)
       [] pods"

definition directPodAddressesByNodeUID :: "pod list \<Rightarrow> (string, string) gomap" where
  "directPodAddressesByNodeUID pods = map (\<lambda>(uid, pod). (uid, pd_pod_ip pod)) (newest_addressed pods)"

subsection \<open>Namespaces\<close>

text \<open>
  The policy of a node: none without a profile reference, the profile's otherwise; a node whose profile
  does not exist is left out. The profile cache of the source is not observable, as the lookup is a
  function. A policy stands for its JSON text, the key of the source's map.
\<close>

type_synonym profile_lookup = "string \<Rightarrow> cm_error + management_policy option"

definition node_policy :: "profile_lookup \<Rightarrow> node \<Rightarrow> cm_error + management_policy option option" where
  "node_policy profile node =
     (case ns_profile_ref (nd_spec node) of
        None \<Rightarrow> Inr (Some None)
      | Some name \<Rightarrow>
          if name = '''' then Inr (Some None)
          else (case profile name of
                  Inl CmNotFound \<Rightarrow> Inr None
                | Inl e \<Rightarrow> Inl e
                | Inr policy \<Rightarrow> Inr (Some policy)))"

text \<open>The loop over the nodes: the distinct policies and the policy of each node.\<close>

fun collect_policies :: "profile_lookup \<Rightarrow> nodes_by_name \<Rightarrow> management_policy option list \<Rightarrow> (string, management_policy option) gomap
    \<Rightarrow> cm_error + management_policy option list \<times> (string, management_policy option) gomap" where
  "collect_policies profile [] policies nodePolicies = Inr (policies, nodePolicies)"
| "collect_policies profile ((name, node) # rest) policies nodePolicies =
     (case node_policy profile node of
        Inl e \<Rightarrow> Inl e
      | Inr None \<Rightarrow> collect_policies profile rest policies nodePolicies
      | Inr (Some policy) \<Rightarrow>
          collect_policies profile rest (if policy \<in> set policies then policies else policies @ [policy])
            (AList.update (nd_name node) policy nodePolicies))"

definition namespace_peers :: "digest \<Rightarrow> nodes_by_name \<Rightarrow> (string, string) gomap \<Rightarrow> management_policy option list
    \<Rightarrow> (string, management_policy option) gomap \<Rightarrow> peer_identity list" where
  "namespace_peers sum256 nodesByName addresses policies nodePolicies =
     concat (map (\<lambda>policy. filter (\<lambda>peer. map_of nodePolicies (peer_name peer) = Some policy)
       (compileNamespaceManagementIdentities sum256 nodesByName policy addresses)) policies)"

definition shard_names :: "string list" where
  "shard_names = map PeerDirectoryShardConfigMapName [0..<PeerDirectoryShardCount]"

text \<open>\<open>clearEmptyPeerDirectory\<close>, over the ConfigMaps listed with the application label.\<close>

fun clear_shards :: "cm_api \<Rightarrow> nat \<Rightarrow> (string \<times> string) list \<Rightarrow> config_map list \<Rightarrow> cm_call list \<Rightarrow> cm_error option \<times> cm_call list" where
  "clear_shards api retries shards [] calls = (None, calls)"
| "clear_shards api retries shards (existing # rest) calls =
     (case map_of shards (meta_name (cm_meta existing)) of
        None \<Rightarrow> clear_shards api retries shards rest calls
      | Some content \<Rightarrow>
          (case reconcileDirectPeerDirectoryShard api retries (existing\<lparr> cm_data := [(PeerDirectoryConfigMapKey, content)] \<rparr>) calls of
             (Some e, _, calls') \<Rightarrow> (Some e, calls')
           | (None, _, calls') \<Rightarrow> clear_shards api retries shards rest calls'))"

definition clearEmptyPeerDirectory :: "peer_codec \<Rightarrow> cm_api \<Rightarrow> nat \<Rightarrow> cm_error + config_map list \<Rightarrow> cm_error option \<times> cm_call list" where
  "clearEmptyPeerDirectory codec api retries listed =
     (case listed of
        Inl e \<Rightarrow> (Some e, [])
      | Inr maps \<Rightarrow>
          (case RenderPeerDirectoryShards codec [] of
             Inl e \<Rightarrow> (Some (CmOther e), [])
           | Inr shards \<Rightarrow> clear_shards api retries (zip shard_names shards) maps []))"

definition reconcileNamespacePeerDirectory :: "digest \<Rightarrow> peer_codec \<Rightarrow> cm_api \<Rightarrow> nat \<Rightarrow> (string, string) gomap \<Rightarrow> (string, string) gomap
    \<Rightarrow> profile_lookup \<Rightarrow> string \<Rightarrow> cm_error + node list \<Rightarrow> cm_error + pod list \<Rightarrow> cm_error + config_map list
    \<Rightarrow> cm_error option \<times> config_map list \<times> cm_call list" where
  "reconcileNamespacePeerDirectory sum256 codec api retries annotations globalLabels profile namespace nodes pods maps =
     (case nodes of
        Inl e \<Rightarrow> (Some e, [], [])
      | Inr [] \<Rightarrow> (case clearEmptyPeerDirectory codec api retries maps of (err, calls) \<Rightarrow> (err, [], calls))
      | Inr items \<Rightarrow>
          (case pods of
             Inl e \<Rightarrow> (Some e, [], [])
           | Inr listed \<Rightarrow>
               let nodesByName = NodesByName items; addresses = directPodAddressesByNodeUID listed in
               (case collect_policies profile nodesByName [] [] of
                  Inl e \<Rightarrow> (Some e, [], [])
                | Inr (policies, nodePolicies) \<Rightarrow>
                    reconcileDirectPeerDirectory codec api retries annotations globalLabels namespace
                      (namespace_peers sum256 nodesByName addresses policies nodePolicies))))"

text \<open>\<open>refreshDirectPeerDirectory\<close>: the same writes for one policy.\<close>

definition refreshDirectPeerDirectory :: "digest \<Rightarrow> peer_codec \<Rightarrow> cm_api \<Rightarrow> nat \<Rightarrow> (string, string) gomap \<Rightarrow> (string, string) gomap
    \<Rightarrow> string \<Rightarrow> management_policy option \<Rightarrow> cm_error + node list \<Rightarrow> cm_error + pod list
    \<Rightarrow> cm_error option \<times> config_map list \<times> cm_call list" where
  "refreshDirectPeerDirectory sum256 codec api retries annotations globalLabels namespace management nodes pods =
     (case nodes of
        Inl e \<Rightarrow> (Some e, [], [])
      | Inr items \<Rightarrow>
          (case pods of
             Inl e \<Rightarrow> (Some e, [], [])
           | Inr listed \<Rightarrow>
               reconcileDirectPeerDirectory codec api retries annotations globalLabels namespace
                 (compileNamespaceManagementIdentities sum256 (NodesByName items) management (directPodAddressesByNodeUID listed))))"

section \<open>Writes\<close>

lemma shard_attempt_done:
  assumes "shard_attempt api rendered direct calls = (None, object, calls')"
  shows "\<exists>o'. object = Some o' \<and> gm_str (cm_data o') PeerDirectoryConfigMapKey = gm_str (cm_data rendered) PeerDirectoryConfigMapKey"
  using assms by (auto simp: shard_attempt_def Let_def split: sum.splits cm_error.splits option.splits if_splits)

lemma reconcile_shard_done:
  assumes "reconcile_shard api retries rendered direct calls = (None, object, calls')"
  shows "\<exists>o'. object = Some o' \<and> gm_str (cm_data o') PeerDirectoryConfigMapKey = gm_str (cm_data rendered) PeerDirectoryConfigMapKey"
  using assms
proof (induction retries arbitrary: direct calls)
  case 0
  then show ?case by (simp add: shard_attempt_done)
next
  case (Suc retries)
  obtain err tried calls1 where attempt: "shard_attempt api rendered direct calls = (err, tried, calls1)" by (cases "shard_attempt api rendered direct calls") auto
  with Suc.prems consider "err = None" "tried = object" | "reconcile_shard api retries rendered (ca_api_reader api) calls1 = (None, object, calls')"
    by (auto split: option.splits cm_error.splits)
  then show ?case
  proof cases
    case 1
    with attempt show ?thesis by (simp add: shard_attempt_done)
  next
    case 2
    then show ?thesis by (rule Suc.IH)
  qed
qed

lemma reconcile_shards_done:
  assumes "reconcile_shards api retries rendered calls = (None, objects, calls')"
  shows "map (\<lambda>o'. gm_str (cm_data o') PeerDirectoryConfigMapKey) objects = map (\<lambda>r. gm_str (cm_data r) PeerDirectoryConfigMapKey) rendered"
  using assms
proof (induction rendered arbitrary: calls objects)
  case (Cons r rendered)
  obtain err tried calls1 where shard: "reconcileDirectPeerDirectoryShard api retries r calls = (err, tried, calls1)"
    by (cases "reconcileDirectPeerDirectoryShard api retries r calls") auto
  with Cons.prems have "err = None" by (auto split: option.splits)
  with shard obtain o' where o': "tried = Some o'" "gm_str (cm_data o') PeerDirectoryConfigMapKey = gm_str (cm_data r) PeerDirectoryConfigMapKey"
    using reconcile_shard_done unfolding reconcileDirectPeerDirectoryShard_def by blast
  with Cons.prems shard \<open>err = None\<close> obtain rest where "objects = o' # rest" "reconcile_shards api retries rendered calls1 = (None, rest, calls')"
    by (auto split: prod.splits)
  with Cons.IH o' show ?case by simp
qed simp

lemma reconcileDirectPeerDirectory_done:
  assumes "reconcileDirectPeerDirectory codec api retries annotations globalLabels namespace peers = (None, objects, calls)"
  shows "RenderPeerDirectoryShards codec peers = Inr (map (\<lambda>o'. gm_str (cm_data o') PeerDirectoryConfigMapKey) objects)"
proof -
  from assms obtain shards where shards: "RenderPeerDirectoryShards codec peers = Inr shards"
    by (auto simp: reconcileDirectPeerDirectory_def split: sum.splits)
  let ?rendered = "map (shard_config_map namespace annotations (copy_map [(LabelApp, Clabernetes)] globalLabels)) (zip [0..<length shards] shards)"
  from assms shards obtain calls1 where "reconcile_shards api retries ?rendered [] = (None, objects, calls1)"
    by (auto simp: reconcileDirectPeerDirectory_def Let_def split: prod.splits option.splits)
  from reconcile_shards_done [OF this]
  have "map (\<lambda>o'. gm_str (cm_data o') PeerDirectoryConfigMapKey) objects = map (\<lambda>r. gm_str (cm_data r) PeerDirectoryConfigMapKey) ?rendered" .
  also have "\<dots> = map snd (zip [0..<length shards] shards)"
    by (simp add: shard_config_map_def gm_str_def comp_def split_def)
  also have "\<dots> = shards" by simp
  finally show ?thesis using shards by simp
qed

text \<open>Every read but the first asks the API server, when there is a reader for it, and the reads are bounded.\<close>

fun is_get :: "cm_call \<Rightarrow> bool" where
  "is_get (CmGet direct name) = True"
| "is_get _ = False"

fun reads_server :: "cm_call \<Rightarrow> bool" where
  "reads_server (CmGet direct name) = direct"
| "reads_server _ = True"

lemma shard_attempt_calls:
  assumes "shard_attempt api rendered direct calls = (err, object, calls')"
  shows "\<exists>sent. calls' = calls @ CmGet direct (meta_name (cm_meta rendered)) # sent \<and> length sent \<le> 1 \<and> (\<forall>c \<in> set sent. \<not> is_get c)"
  using assms by (auto simp: shard_attempt_def Let_def split: sum.splits cm_error.splits option.splits if_splits)

lemma reconcile_shard_calls:
  assumes "reconcile_shard api retries rendered direct calls = (err, object, calls')"
  shows "\<exists>more. calls' = calls @ CmGet direct (meta_name (cm_meta rendered)) # more \<and>
    length (filter is_get more) \<le> retries \<and> (ca_api_reader api \<longrightarrow> (\<forall>c \<in> set more. reads_server c))"
  using assms
proof (induction retries arbitrary: direct calls)
  case 0
  then have "shard_attempt api rendered direct calls = (err, object, calls')" by simp
  from shard_attempt_calls [OF this] obtain sent where sent: "calls' = calls @ CmGet direct (meta_name (cm_meta rendered)) # sent"
    "\<forall>c \<in> set sent. \<not> is_get c" by blast
  have "reads_server c" if "\<not> is_get c" for c using that by (cases c) simp_all
  with sent show ?case by (auto simp: filter_empty_conv)
next
  case (Suc retries)
  obtain err1 object1 calls1 where attempt: "shard_attempt api rendered direct calls = (err1, object1, calls1)" by (cases "shard_attempt api rendered direct calls") auto
  from shard_attempt_calls [OF attempt] obtain sent where sent: "calls1 = calls @ CmGet direct (meta_name (cm_meta rendered)) # sent"
    "\<forall>c \<in> set sent. \<not> is_get c" by blast
  have server: "reads_server c" if "\<not> is_get c" for c using that by (cases c) simp_all
  from attempt Suc.prems consider "calls' = calls1" | "reconcile_shard api retries rendered (ca_api_reader api) calls1 = (err, object, calls')"
    by (auto split: option.splits cm_error.splits)
  then show ?case
  proof cases
    case 1
    with sent server show ?thesis by (auto simp: filter_empty_conv)
  next
    case 2
    from Suc.IH [OF this] obtain more where more: "calls' = calls1 @ CmGet (ca_api_reader api) (meta_name (cm_meta rendered)) # more"
      "length (filter is_get more) \<le> retries" "ca_api_reader api \<longrightarrow> (\<forall>c \<in> set more. reads_server c)" by blast
    have "filter is_get sent = []" using sent(2) by (simp add: filter_empty_conv)
    then show ?thesis
      using more sent server by (intro exI [of _ "sent @ CmGet (ca_api_reader api) (meta_name (cm_meta rendered)) # more"]) auto
  qed
qed

section \<open>Namespaces\<close>

lemma NodesByName_entries:
  "distinct (map fst (NodesByName nodes))" "(name, node) \<in> set (NodesByName nodes) \<Longrightarrow> name = nd_name node"
proof -
  have "distinct (map fst (fold (\<lambda>n byName. AList.update (nd_name n) n byName) nodes m)) \<and>
      (\<forall>(name, node) \<in> set (fold (\<lambda>n byName. AList.update (nd_name n) n byName) nodes m). name = nd_name node)"
    if "distinct (map fst m)" "\<forall>(name, node) \<in> set m. name = nd_name node" for m
    using that
  proof (induction nodes arbitrary: m)
    case (Cons n nodes)
    have "set (AList.update (nd_name n) n m) \<subseteq> insert (nd_name n, n) (set m)" by (rule set_alist_update)
    then have "\<forall>(name, node) \<in> set (AList.update (nd_name n) n m). name = nd_name node" using Cons.prems(2) by auto
    from Cons.IH [OF distinct_update [OF Cons.prems(1)] this] show ?case by simp
  qed simp
  from this [of "[]"] show "distinct (map fst (NodesByName nodes))" "(name, node) \<in> set (NodesByName nodes) \<Longrightarrow> name = nd_name node"
    by (auto simp: NodesByName_def)
qed

text \<open>The policies collected are those of the nodes, each once.\<close>

lemma collect_policies_spec:
  assumes "collect_policies profile nodesByName policies nodePolicies = Inr (policies', nodePolicies')"
    and "distinct (map fst nodesByName)" "\<forall>(name, node) \<in> set nodesByName. name = nd_name node"
    and "distinct policies" "\<forall>policy \<in> ran (map_of nodePolicies). policy \<in> set policies"
  shows "distinct policies' \<and> (\<forall>policy \<in> ran (map_of nodePolicies'). policy \<in> set policies') \<and>
    (\<forall>name. name \<notin> fst ` set nodesByName \<longrightarrow> map_of nodePolicies' name = map_of nodePolicies name) \<and>
    (\<forall>(name, node) \<in> set nodesByName. case node_policy profile node of
        Inl _ \<Rightarrow> False | Inr None \<Rightarrow> map_of nodePolicies' name = map_of nodePolicies name | Inr (Some policy) \<Rightarrow> map_of nodePolicies' name = Some policy)"
  using assms
proof (induction nodesByName arbitrary: policies nodePolicies)
  case (Cons entry rest)
  obtain name node where entry: "entry = (name, node)" by (cases entry)
  have name: "nd_name node = name" "name \<notin> fst ` set rest" "distinct (map fst rest)" "\<forall>(name, node) \<in> set rest. name = nd_name node"
    using Cons.prems(2,3) by (auto simp: entry)
  show ?case
  proof (cases "node_policy profile node")
    case (Inl e)
    with Cons.prems(1) show ?thesis by (simp add: entry)
  next
    case (Inr found)
    show ?thesis
    proof (cases found)
      case None
      with Inr Cons.prems(1) have "collect_policies profile rest policies nodePolicies = Inr (policies', nodePolicies')" by (simp add: entry)
      from Cons.IH [OF this name(3,4) Cons.prems(4,5)] show ?thesis using Inr None name(2) by (auto simp: entry)
    next
      case (Some policy)
      let ?policies = "if policy \<in> set policies then policies else policies @ [policy]"
      let ?np = "AList.update name policy nodePolicies"
      from Inr Some Cons.prems(1) name(1) have run: "collect_policies profile rest ?policies ?np = Inr (policies', nodePolicies')" by (simp add: entry)
      have "distinct ?policies" using Cons.prems(4) by simp
      moreover have "\<forall>p \<in> ran (map_of ?np). p \<in> set ?policies"
        using Cons.prems(5) by (auto simp: update_conv' ran_def split: if_splits)
      ultimately have IH: "distinct policies' \<and> (\<forall>policy \<in> ran (map_of nodePolicies'). policy \<in> set policies') \<and>
          (\<forall>name. name \<notin> fst ` set rest \<longrightarrow> map_of nodePolicies' name = map_of ?np name) \<and>
          (\<forall>(name, node) \<in> set rest. case node_policy profile node of
            Inl _ \<Rightarrow> False | Inr None \<Rightarrow> map_of nodePolicies' name = map_of ?np name | Inr (Some policy) \<Rightarrow> map_of nodePolicies' name = Some policy)"
        by (rule Cons.IH [OF run name(3,4)])
      have other: "map_of ?np n = map_of nodePolicies n" if "n \<noteq> name" for n using that by (simp add: update_conv')
      have rest: "case node_policy profile d of Inl _ \<Rightarrow> False | Inr None \<Rightarrow> map_of nodePolicies' n = map_of nodePolicies n
          | Inr (Some policy) \<Rightarrow> map_of nodePolicies' n = Some policy" if "(n, d) \<in> set rest" for n d
      proof -
        have "n \<noteq> name" using that name(2) by force
        with bspec [OF IH [THEN conjunct2, THEN conjunct2, THEN conjunct2] that] show ?thesis by (simp add: other split: sum.splits option.splits)
      qed
      have "map_of nodePolicies' name = Some policy" using IH name(2) by (simp add: update_conv')
      then have here: "case node_policy profile node of Inl _ \<Rightarrow> False | Inr None \<Rightarrow> map_of nodePolicies' name = map_of nodePolicies name
          | Inr (Some policy) \<Rightarrow> map_of nodePolicies' name = Some policy" using Inr Some by simp
      have unlisted: "map_of nodePolicies' n = map_of nodePolicies n" if "n \<notin> fst ` set (entry # rest)" for n
        using IH other [of n] that by (simp add: entry)
      show ?thesis
        using IH [THEN conjunct1] IH [THEN conjunct2, THEN conjunct1] unlisted rest here by (intro conjI ballI allI impI) (auto simp: entry)
    qed
  qed
qed auto

lemma NodesByName_items: "(name, node) \<in> set (NodesByName nodes) \<Longrightarrow> node \<in> set nodes"
proof -
  have "snd ` set (fold (\<lambda>n byName. AList.update (nd_name n) n byName) nodes m) \<subseteq> snd ` set m \<union> set nodes" for m
  proof (induction nodes arbitrary: m)
    case (Cons n nodes)
    have "snd ` set (AList.update (nd_name n) n m) \<subseteq> insert n (snd ` set m)" using set_alist_update [of "nd_name n" n m] by auto
    with Cons [of "AList.update (nd_name n) n m"] show ?case by auto
  qed simp
  from this [of "[]"] show "(name, node) \<in> set (NodesByName nodes) \<Longrightarrow> node \<in> set nodes" by (force simp: NodesByName_def)
qed

lemma compileNamespace_from_nodes:
  assumes "p \<in> set (compileNamespaceManagementIdentities sum256 nodesByName mgmt pods)"
  shows "peer_name p \<in> fst ` set nodesByName"
proof -
  have "policy_pools mgmt \<noteq> None" using assms by (cases "policy_pools mgmt") (simp_all add: compileNamespace_pools)
  then obtain settings p4 p6 where "policy_pools mgmt = Some (settings, p4, p6)" by (metis not_None_eq prod_cases3)
  with assms obtain a4 a6 where "p \<in> set (concat (map (node_identity p4 p6 a4 a6 pods) nodesByName))"
    unfolding compileNamespace_pools by simp
  then obtain e where "e \<in> set nodesByName" "p \<in> set (node_identity p4 p6 a4 a6 pods e)" by auto
  with node_identity_entry(1) [of p4 p6 a4 a6 pods e] show ?thesis by auto
qed

lemma namespace_peers_mem:
  assumes "\<forall>policy \<in> ran (map_of nodePolicies). policy \<in> set policies"
  shows "p \<in> set (namespace_peers sum256 nodesByName addresses policies nodePolicies) \<longleftrightarrow>
    (\<exists>policy. map_of nodePolicies (peer_name p) = Some policy \<and> p \<in> set (compileNamespaceManagementIdentities sum256 nodesByName policy addresses))"
  using assms by (auto simp: namespace_peers_def ran_def)

lemma namespace_peers_names:
  assumes "distinct policies" "distinct (map fst nodesByName)"
  shows "distinct (map peer_name (namespace_peers sum256 nodesByName addresses policies nodePolicies))"
  using assms(1)
proof (induction policies)
  case (Cons policy policies)
  let ?own = "\<lambda>policy. filter (\<lambda>peer. map_of nodePolicies (peer_name peer) = Some policy)
      (compileNamespaceManagementIdentities sum256 nodesByName policy addresses)"
  have own: "distinct (map peer_name (?own policy))" using compileNamespace_names [OF assms(2)] by (rule distinct_map_filter)
  have policy: "map_of nodePolicies n = Some policy" if "n \<in> peer_name ` set (?own policy)" for n using that by auto
  have others: "\<exists>p \<in> set policies. map_of nodePolicies n = Some p"
    if "n \<in> peer_name ` set (namespace_peers sum256 nodesByName addresses policies nodePolicies)" for n
    using that by (auto simp: namespace_peers_def)
  have "peer_name ` set (?own policy) \<inter> peer_name ` set (namespace_peers sum256 nodesByName addresses policies nodePolicies) = {}"
  proof (rule equals0I, elim IntE)
    fix n assume "n \<in> peer_name ` set (?own policy)" "n \<in> peer_name ` set (namespace_peers sum256 nodesByName addresses policies nodePolicies)"
    with policy others Cons.prems show False by (metis distinct.simps(2) option.inject)
  qed
  moreover have "namespace_peers sum256 nodesByName addresses (policy # policies) nodePolicies =
      ?own policy @ namespace_peers sum256 nodesByName addresses policies nodePolicies" by (simp add: namespace_peers_def)
  ultimately show ?case using own Cons by simp
qed (simp add: namespace_peers_def)

lemma collected_policies:
  assumes "collect_policies profile (NodesByName items) [] [] = Inr (policies, nodePolicies)"
  shows "distinct policies" "\<forall>policy \<in> ran (map_of nodePolicies). policy \<in> set policies"
    "(name, node) \<in> set (NodesByName items) \<Longrightarrow> case node_policy profile node of
        Inl _ \<Rightarrow> False | Inr None \<Rightarrow> map_of nodePolicies name = None | Inr (Some policy) \<Rightarrow> map_of nodePolicies name = Some policy"
proof -
  have "\<forall>(name, node) \<in> set (NodesByName items). name = nd_name node" using NodesByName_entries(2) by auto
  note spec = collect_policies_spec [OF assms NodesByName_entries(1) this]
  have spec': "distinct policies" "\<forall>policy \<in> ran (map_of nodePolicies). policy \<in> set policies"
    "\<forall>(name, node) \<in> set (NodesByName items). case node_policy profile node of
        Inl _ \<Rightarrow> False | Inr None \<Rightarrow> map_of nodePolicies name = map_of [] name | Inr (Some policy) \<Rightarrow> map_of nodePolicies name = Some policy"
    using spec by (simp_all add: ran_def)
  show "distinct policies" "\<forall>policy \<in> ran (map_of nodePolicies). policy \<in> set policies" by (fact spec'(1), fact spec'(2))
  show "case node_policy profile node of
        Inl _ \<Rightarrow> False | Inr None \<Rightarrow> map_of nodePolicies name = None | Inr (Some policy) \<Rightarrow> map_of nodePolicies name = Some policy"
    if "(name, node) \<in> set (NodesByName items)" using bspec [OF spec'(3) that] by (simp split: sum.splits option.splits)
qed

lemma reconcileNamespacePeerDirectory_items:
  assumes "items \<noteq> []" "collect_policies profile (NodesByName items) [] [] = Inr (policies, nodePolicies)"
  shows "reconcileNamespacePeerDirectory sum256 codec api retries annotations globalLabels profile namespace (Inr items) (Inr pods) maps =
    reconcileDirectPeerDirectory codec api retries annotations globalLabels namespace
      (namespace_peers sum256 (NodesByName items) (directPodAddressesByNodeUID pods) policies nodePolicies)"
  using assms by (cases items) (simp_all add: reconcileNamespacePeerDirectory_def Let_def)

section \<open>A cluster for concrete instances\<close>

text \<open>A cluster that has no ConfigMap and accepts every write.\<close>

definition sample_cm_api :: cm_api where
  "sample_cm_api = \<lparr> ca_get = (\<lambda>calls direct name. Inl CmNotFound), ca_create = (\<lambda>calls cm. None), ca_update = (\<lambda>calls cm. None),
     ca_delete = (\<lambda>calls name. None), ca_api_reader = True \<rparr>"

definition sample_items :: "node list" where
  "sample_items = map snd sample_lab"

text \<open>Reading and writing in the sample cluster.\<close>

lemma sample_collected: "collect_policies (\<lambda>name. Inr (Some sample_policy)) (NodesByName sample_items) [] [] =
    Inr ([Some sample_policy], [(''r1'', Some sample_policy), (''r2'', Some sample_policy), (''r3'', Some sample_policy)])"
  by code_simp

lemma sample_items_lab: "NodesByName sample_items = sample_lab"
  by code_simp

lemma sample_namespace_peers:
  "namespace_peers sample_digest (NodesByName sample_items) (directPodAddressesByNodeUID []) [Some sample_policy]
     [(''r1'', Some sample_policy), (''r2'', Some sample_policy), (''r3'', Some sample_policy)] =
   [sample_peer ''r1'' ''10.0.0.48'', sample_peer ''r2'' ''10.0.0.9'', sample_peer ''r3'' ''10.0.0.49'']"
  by (simp add: namespace_peers_def sample_items_lab directPodAddressesByNodeUID_def newest_addressed_def sample_identities)
     (simp add: sample_peer_def)

lemma sample_shards: "\<exists>calls'. reconcile_shards sample_cm_api retries rendered calls = (None, rendered, calls')"
proof (induction rendered arbitrary: calls)
  case (Cons r rendered)
  have "\<exists>calls'. reconcile_shard sample_cm_api retries r direct calls = (None, Some r, calls')" for direct
    by (cases retries) (simp_all add: shard_attempt_def sample_cm_api_def Let_def)
  then obtain calls1 where "reconcileDirectPeerDirectoryShard sample_cm_api retries r calls = (None, Some r, calls1)"
    unfolding reconcileDirectPeerDirectoryShard_def by blast
  moreover obtain calls2 where "reconcile_shards sample_cm_api retries rendered calls1 = (None, rendered, calls2)" using Cons by blast
  ultimately show ?case by simp
qed simp

lemma sample_pass:
  assumes "\<forall>p \<in> set peers. ascii_peer p"
  shows "\<exists>objects calls. reconcileDirectPeerDirectory sample_codec sample_cm_api retries [] [] ''lab'' peers = (None, objects, calls)"
proof -
  from rendering_succeeds [OF sample_codec_faithful assms] obtain shards where "RenderPeerDirectoryShards sample_codec peers = Inr shards" by blast
  moreover obtain calls where "reconcile_shards sample_cm_api retries
      (map (shard_config_map ''lab'' [] (copy_map [(LabelApp, Clabernetes)] [])) (zip [0..<length shards] shards)) [] =
    (None, map (shard_config_map ''lab'' [] (copy_map [(LabelApp, Clabernetes)] [])) (zip [0..<length shards] shards), calls)"
    using sample_shards by blast
  moreover have "fst (removeLegacyDirectPeerDirectory sample_cm_api calls) = None"
    by (simp add: removeLegacyDirectPeerDirectory_def sample_cm_api_def Let_def)
  ultimately show ?thesis
    by (cases "removeLegacyDirectPeerDirectory sample_cm_api calls") (simp add: reconcileDirectPeerDirectory_def Let_def)
qed

section \<open>Properties\<close>

text \<open>
  C28: what is published is what Pods read. When a pass over a namespace reports no error, a Pod that
  mounts the ConfigMaps the pass last read or wrote reads exactly the peers compiled for the namespace,
  sorted by name and without error, whatever other writers did in between.
\<close>

theorem peer_directory_published:
  assumes codec: "faithful_codec codec"
    and run: "reconcileNamespacePeerDirectory sum256 codec api retries annotations globalLabels profile namespace (Inr items) (Inr pods) maps = (None, objects, calls)"
    and items: "items \<noteq> []" "\<forall>node \<in> set items. nd_name node \<noteq> ''''"
    and policies: "collect_policies profile (NodesByName items) [] [] = Inr (policies, nodePolicies)"
    and peers: "peers = namespace_peers sum256 (NodesByName items) (directPodAddressesByNodeUID pods) policies nodePolicies" "\<forall>p \<in> set peers. ascii_peer p"
  shows "ReadPeerDirectory codec root (mounted root (map (\<lambda>object. gm_str (cm_data object) PeerDirectoryConfigMapKey) objects)) =
    (sort_key peer_name peers, [])"
proof -
  have "reconcileDirectPeerDirectory codec api retries annotations globalLabels namespace peers = (None, objects, calls)"
    using run unfolding reconcileNamespacePeerDirectory_items [OF items(1) policies] peers(1) .
  note rendered = reconcileDirectPeerDirectory_done [OF this]
  have names: "distinct (map peer_name peers)"
    unfolding peers(1) by (rule namespace_peers_names [OF collected_policies(1) [OF policies] NodesByName_entries(1)])
  have "peer_name p \<noteq> ''''" if "p \<in> set peers" for p
  proof -
    from that have "peer_name p \<in> fst ` set (NodesByName items)"
      unfolding peers(1) namespace_peers_mem [OF collected_policies(2) [OF policies]] using compileNamespace_from_nodes by blast
    then obtain node where "(peer_name p, node) \<in> set (NodesByName items)" by auto
    with NodesByName_entries(2) NodesByName_items items(2) show ?thesis by metis
  qed
  then have "'''' \<notin> peer_name ` set peers" by (metis imageE)
  from peer_directory_round_trip [OF codec peers(2) names this, of root] rendered show ?thesis by simp
qed

lemma peer_directory_published_witness:
  "\<exists>objects calls. reconcileNamespacePeerDirectory sample_digest sample_codec sample_cm_api 4 [] [] (\<lambda>name. Inr (Some sample_policy)) ''lab''
      (Inr sample_items) (Inr []) (Inr []) = (None, objects, calls) \<and>
    ReadPeerDirectory sample_codec ''/peers'' (mounted ''/peers'' (map (\<lambda>object. gm_str (cm_data object) PeerDirectoryConfigMapKey) objects)) =
      ([sample_peer ''r1'' ''10.0.0.48'', sample_peer ''r2'' ''10.0.0.9'', sample_peer ''r3'' ''10.0.0.49''], [])"
proof -
  let ?peers = "[sample_peer ''r1'' ''10.0.0.48'', sample_peer ''r2'' ''10.0.0.9'', sample_peer ''r3'' ''10.0.0.49'']"
  have ascii: "\<forall>p \<in> set ?peers. ascii_peer p" by (simp add: sample_peer_def ascii_peer_def ascii_def)
  from sample_pass [OF this] obtain objects calls where pass: "reconcileDirectPeerDirectory sample_codec sample_cm_api 4 [] [] ''lab'' ?peers = (None, objects, calls)" by blast
  have items: "sample_items \<noteq> []" "\<forall>node \<in> set sample_items. nd_name node \<noteq> ''''"
    by (simp_all add: sample_items_def sample_lab_def sample_addressed_def sample_defs)
  have run: "reconcileNamespacePeerDirectory sample_digest sample_codec sample_cm_api 4 [] [] (\<lambda>name. Inr (Some sample_policy)) ''lab''
      (Inr sample_items) (Inr []) (Inr []) = (None, objects, calls)"
    using pass unfolding reconcileNamespacePeerDirectory_items [OF items(1) sample_collected] sample_namespace_peers .
  have "sort_key peer_name ?peers = ?peers" by code_simp
  then show ?thesis
    using peer_directory_published [OF sample_codec_faithful run items sample_collected sample_namespace_peers [symmetric] ascii, of "''/peers''"] run by auto
qed

text \<open>
  C30: every node is compiled under its own policy. The directory of a namespace with several policies has
  one entry per name; the entry of a node is the one its own policy gives, and a node whose profile does
  not exist has none.
\<close>

theorem peers_follow_their_policy:
  assumes policies: "collect_policies profile (NodesByName items) [] [] = Inr (policies, nodePolicies)"
    and node: "(name, node) \<in> set (NodesByName items)"
    and peers: "peers = namespace_peers sum256 (NodesByName items) addresses policies nodePolicies"
  shows "distinct (map peer_name peers) \<and>
    (\<exists>found. node_policy profile node = Inr found \<and>
      {p \<in> set peers. peer_name p = name} = (case found of
         None \<Rightarrow> {}
       | Some policy \<Rightarrow> {p \<in> set (compileNamespaceManagementIdentities sum256 (NodesByName items) policy addresses). peer_name p = name}))"
proof -
  note own = collected_policies(3) [OF policies node]
  then obtain found where found: "node_policy profile node = Inr found" by (cases "node_policy profile node") simp_all
  have "map_of nodePolicies name = found" using own found by (cases found) simp_all
  then have "{p \<in> set peers. peer_name p = name} = (case found of
         None \<Rightarrow> {}
       | Some policy \<Rightarrow> {p \<in> set (compileNamespaceManagementIdentities sum256 (NodesByName items) policy addresses). peer_name p = name})"
    unfolding peers by (cases found) (auto simp: namespace_peers_mem [OF collected_policies(2) [OF policies]])
  then show ?thesis
    using found namespace_peers_names [OF collected_policies(1) [OF policies] NodesByName_entries(1)] peers by blast
qed

lemma peers_follow_their_policy_witness:
  "\<exists>p \<in> set (namespace_peers sample_digest (NodesByName sample_items) (directPodAddressesByNodeUID []) [Some sample_policy]
     [(''r1'', Some sample_policy), (''r2'', Some sample_policy), (''r3'', Some sample_policy)]). peer_name p = ''r3''"
proof -
  have node: "(''r3'', sample_addressed ''r3'' '''') \<in> set (NodesByName sample_items)" by (simp add: sample_items_lab sample_lab_def)
  have policy: "node_policy (\<lambda>name. Inr (Some sample_policy)) (sample_addressed ''r3'' '''') = Inr (Some (Some sample_policy))"
    by (simp add: node_policy_def sample_addressed_def)
  have addresses: "directPodAddressesByNodeUID [] = []" by (simp add: directPodAddressesByNodeUID_def newest_addressed_def)
  have "sample_peer ''r3'' ''10.0.0.49'' \<in> {p \<in> set (compileNamespaceManagementIdentities sample_digest (NodesByName sample_items) (Some sample_policy)
      (directPodAddressesByNodeUID [])). peer_name p = ''r3''}"
    unfolding sample_items_lab addresses sample_identities by (simp add: sample_peer_def)
  with peers_follow_their_policy [OF sample_collected node refl, of sample_digest "directPodAddressesByNodeUID []"] policy
  have "sample_peer ''r3'' ''10.0.0.49'' \<in> {p \<in> set (namespace_peers sample_digest (NodesByName sample_items) (directPodAddressesByNodeUID []) [Some sample_policy]
     [(''r1'', Some sample_policy), (''r2'', Some sample_policy), (''r3'', Some sample_policy)]). peer_name p = ''r3''}" by force
  then show ?thesis by blast
qed

section \<open>Several policies in one namespace\<close>

text \<open>
  Each policy allocates over the whole namespace on its own, and a node keeps the address its own policy
  gives it. Two policies over the same subnet can therefore give two nodes the same address: here the
  first has the gateway \<open>10.0.0.48\<close>, which moves the first node on to the address the second policy gives
  the second node. \<open>ManagementMeshMAC\<close> and the mesh take management addresses to be unique within a
  namespace.
\<close>

definition shared_nodes :: nodes_by_name where
  "shared_nodes = [(''r1'', sample_addressed ''r1'' ''''), (''r3'', sample_addressed ''r3'' '''')]"

definition shared_policy :: management_policy where
  "shared_policy = sample_policy\<lparr> mp_ipv4_gw := ''10.0.0.48'' \<rparr>"

lemma shared_policy_pools: "policy_pools (Some shared_policy) = Some (shared_policy, sample_pool, sample_no_pool)"
  by code_simp

lemma shared_allocations:
  "allocateDirectManagementAddresses sample_digest shared_nodes sample_pool mgmt_ipv4 ''10.0.0.48'' = Inr [(''r1'', ''10.0.0.49/24''), (''r3'', ''10.0.0.50/24'')]"
  "allocateDirectManagementAddresses sample_digest shared_nodes sample_pool mgmt_ipv4 ''10.0.0.1'' = Inr [(''r1'', ''10.0.0.48/24''), (''r3'', ''10.0.0.49/24'')]"
  by code_simp+

theorem policies_share_an_address:
  "map (\<lambda>p. (peer_name p, peer_ipv4 p)) (namespace_peers sample_digest shared_nodes [] [Some shared_policy, Some sample_policy]
     [(''r1'', Some shared_policy), (''r3'', Some sample_policy)]) = [(''r1'', ''10.0.0.49''), (''r3'', ''10.0.0.49'')]"
proof -
  have none: "allocateDirectManagementAddresses sample_digest shared_nodes sample_no_pool mgmt_ipv6 gw = Inr []" for gw
    by (simp add: allocateDirectManagementAddresses_def sample_no_pool_def)
  have gateways: "mp_ipv4_gw shared_policy = ''10.0.0.48''" "shared_policy \<noteq> sample_policy" by (simp_all add: shared_policy_def sample_policy_def empty_policy_def)
  have "sort_key peer_name (concat (map (node_identity sample_pool sample_no_pool [(''r1'', ''10.0.0.49/24''), (''r3'', ''10.0.0.50/24'')] [] []) shared_nodes)) =
      [sample_peer ''r1'' ''10.0.0.49'', sample_peer ''r3'' ''10.0.0.50'']"
    "sort_key peer_name (concat (map (node_identity sample_pool sample_no_pool [(''r1'', ''10.0.0.48/24''), (''r3'', ''10.0.0.49/24'')] [] []) shared_nodes)) =
      [sample_peer ''r1'' ''10.0.0.48'', sample_peer ''r3'' ''10.0.0.49'']" by code_simp+
  then have "compileNamespaceManagementIdentities sample_digest shared_nodes (Some shared_policy) [] = [sample_peer ''r1'' ''10.0.0.49'', sample_peer ''r3'' ''10.0.0.50'']"
    "compileNamespaceManagementIdentities sample_digest shared_nodes (Some sample_policy) [] = [sample_peer ''r1'' ''10.0.0.48'', sample_peer ''r3'' ''10.0.0.49'']"
    by (simp_all add: compileNamespace_pools shared_policy_pools sample_policy_pools none gateways(1) shared_allocations or_none_def)
  then show ?thesis using gateways(2) by (simp add: namespace_peers_def sample_peer_def)
qed

end
