(* ===== verification/Plan_Codec.thy ===== *)
theory Plan_Codec
  imports Management_Addresses "HOL-Library.Product_Lexorder"
begin

text \<open>
  Validation, normalization and identity of planning inputs and device plans
  (\<open>src/internal/deviceplan/codec.go\<close>). Every loop of the validators is a \<open>check_each\<close>: the maps the source
  fills on the way are the list of the elements before, since an element is entered at the end of its
  turn. A failure is the value of \<open>planningError\<close>, or \<open>NilDereference\<close> where the source would read through a
  nil payload. \<open>slices.SortFunc\<close> is \<open>sort_key\<close> on the compared key.

  The clone through JSON leaves a value of UTF-8 text alone, except for the raw definition of a Node, which
  \<open>encoding/json\<close> rejects or rewrites to its compact form: that function, and the encoder and decoder of
  the two types, are the parameter \<open>plan_json\<close>.
\<close>

section \<open>Library functions\<close>

text \<open>\<open>path.IsAbs\<close> and \<open>path.Clean\<close>: the elements kept so far are in reverse.\<close>

definition is_abs :: "string \<Rightarrow> bool" where
  "is_abs p \<longleftrightarrow> has_prefix p ''/''"

fun clean_elements :: "bool \<Rightarrow> string list \<Rightarrow> string list \<Rightarrow> string list" where
  "clean_elements rooted [] kept = rev kept"
| "clean_elements rooted (e # es) kept =
     (if e = '''' \<or> e = ''.'' then clean_elements rooted es kept
      else if e = ''..''
        then (case kept of
                [] \<Rightarrow> clean_elements rooted es (if rooted then [] else [''..''])
              | k # ks \<Rightarrow> clean_elements rooted es (if k = ''..'' then ''..'' # kept else ks))
      else clean_elements rooted es (e # kept))"

definition path_clean :: "string \<Rightarrow> string" where
  "path_clean p =
     (let cleaned = (if is_abs p then ''/'' else '''') @ join (clean_elements (is_abs p) (split_on CHR ''/'' p) []) ''/'' in
      if cleaned = '''' then ''.'' else cleaned)"

text \<open>The texts \<open>hex.DecodeString\<close> accepts, and those \<open>net.ParseMAC\<close> accepts.\<close>

definition hex_decodable :: "string \<Rightarrow> bool" where
  "hex_decodable s \<longleftrightarrow> even (length s) \<and> list_all is_hex s"

definition mac_groups :: "char \<Rightarrow> nat \<Rightarrow> nat list \<Rightarrow> string \<Rightarrow> bool" where
  "mac_groups sep width counts s \<longleftrightarrow>
     (let groups = split_on sep s in
      length groups \<in> set counts \<and> list_all (\<lambda>g. length g = width \<and> list_all is_hex g) groups)"

definition valid_mac :: "string \<Rightarrow> bool" where
  "valid_mac s \<longleftrightarrow> mac_groups CHR '':'' 2 [6, 8, 20] s \<or> mac_groups CHR ''-'' 2 [6, 8, 20] s \<or> mac_groups CHR ''.'' 4 [3, 4, 10] s"

section \<open>Failures and loops\<close>

datatype plan_failure = PlanningError string string string | NilDereference

type_synonym check = "plan_failure option"

definition ErrorInvalidInput :: string where "ErrorInvalidInput = ''InvalidInput''"
definition ErrorMissingInput :: string where "ErrorMissingInput = ''MissingInput''"
definition ErrorUnsupported :: string where "ErrorUnsupported = ''Unsupported''"
definition ErrorInvariant :: string where "ErrorInvariant = ''Invariant''"
definition ErrorSerialization :: string where "ErrorSerialization = ''Serialization''"

text \<open>An \<open>if\<close> that returns an error, and a sequence of statements each of which may return one.\<close>

definition guard :: "bool \<Rightarrow> plan_failure \<Rightarrow> check" where
  "guard b e = (if b then Some e else None)"

fun first_error :: "check list \<Rightarrow> check" where
  "first_error [] = None"
| "first_error (c # cs) = (case c of Some e \<Rightarrow> Some e | None \<Rightarrow> first_error cs)"

fun check_each :: "(nat \<Rightarrow> 'a \<Rightarrow> 'a list \<Rightarrow> check) \<Rightarrow> nat \<Rightarrow> 'a list \<Rightarrow> 'a list \<Rightarrow> check" where
  "check_each check index earlier [] = None"
| "check_each check index earlier (x # xs) =
     (case check index x earlier of
        Some e \<Rightarrow> Some e
      | None \<Rightarrow> check_each check (Suc index) (earlier @ [x]) xs)"

definition at_index :: "string \<Rightarrow> nat \<Rightarrow> string" where
  "at_index field index = field @ ''['' @ itoa_nat index @ '']''"

text \<open>The element of a map keyed by identifier.\<close>

definition find_by :: "('a \<Rightarrow> string) \<Rightarrow> 'a list \<Rightarrow> string \<Rightarrow> 'a option" where
  "find_by key xs k = map_of (map (\<lambda>x. (key x, x)) xs) k"

section \<open>Shared checks\<close>

definition validDigest :: "string \<Rightarrow> bool" where
  "validDigest s \<longleftrightarrow> length s = 71 \<and> has_prefix s ''sha256:'' \<and> hex_decodable (trim_prefix s ''sha256:'')"

definition validateHeader :: "string \<Rightarrow> compatibility \<Rightarrow> check" where
  "validateHeader schema c = first_error
     [guard (schema \<noteq> SchemaVersion) (PlanningError ErrorInvalidInput ''schemaVersion'' ''unsupported schema version''),
      guard (cb_containerlab_module c = '''' \<or> cb_containerlab_version c = '''' \<or> \<not> validDigest (cb_registry_digest c) \<or>
             cb_plan_schema_version c \<noteq> SchemaVersion)
        (PlanningError ErrorInvalidInput ''compatibility'' ''compatibility identity is incomplete'')]"

definition validateUniqueKeyValues :: "key_value list \<Rightarrow> string \<Rightarrow> check" where
  "validateUniqueKeyValues values field =
     check_each (\<lambda>_ kv earlier. guard (kv_name kv = '''' \<or> kv_name kv \<in> set (map kv_name earlier))
       (PlanningError ErrorInvalidInput field ''key names must be non-empty and unique'')) 0 [] values"

fun hasDuplicates :: "string list \<Rightarrow> string list \<Rightarrow> bool" where
  "hasDuplicates seen [] = False"
| "hasDuplicates seen (v # vs) = (v = '''' \<or> v \<in> set seen \<or> hasDuplicates (v # seen) vs)"

definition maxVXLANIdentifier :: int where
  "maxVXLANIdentifier = 2 ^ 24 - 1"

definition validateManagementMesh :: "string \<Rightarrow> management_mesh \<Rightarrow> check" where
  "validateManagementMesh field mesh = first_error
     [guard (mesh_tunnel_id mesh \<le> 0 \<or> mesh_tunnel_id mesh > maxVXLANIdentifier)
        (PlanningError ErrorInvalidInput (field @ ''.tunnelID'') ''mesh tunnel ID is invalid''),
      guard (\<not> valid_mac (mesh_gateway_mac mesh))
        (PlanningError ErrorInvalidInput (field @ ''.gatewayMAC'') ''gateway MAC is invalid'')]"

section \<open>Inputs\<close>

definition PayloadConfigMap :: string where "PayloadConfigMap = ''ConfigMap''"
definition PayloadSecret :: string where "PayloadSecret = ''Secret''"
definition PayloadURL :: string where "PayloadURL = ''URL''"
definition PayloadInline :: string where "PayloadInline = ''Inline''"

definition validPayloadKind :: "string \<Rightarrow> bool" where
  "validPayloadKind kind \<longleftrightarrow> kind \<in> set [PayloadConfigMap, PayloadSecret, PayloadURL, PayloadInline]"

definition check_input_node :: "(string \<Rightarrow> string option) \<Rightarrow> nat \<Rightarrow> node_input \<Rightarrow> node_input list \<Rightarrow> check" where
  "check_input_node compact index node earlier =
     (let field = at_index ''nodes'' index in first_error
      [guard (ni_id node = '''' \<or> ni_name node = '''' \<or> ni_kind node = '''')
         (PlanningError ErrorInvalidInput field ''id, name, and kind are required''),
       guard (ni_id node \<in> set (map ni_id earlier) \<or> ni_name node \<in> set (map ni_name earlier))
         (PlanningError ErrorInvalidInput field ''Node identity is duplicated''),
       guard (compact (ni_definition node) = None)
         (PlanningError ErrorInvalidInput (field @ ''.definition'') ''must be valid JSON'')])"

definition check_group_owner :: "string list \<Rightarrow> nat \<Rightarrow> node_input \<Rightarrow> node_input list \<Rightarrow> check" where
  "check_group_owner nodes index node earlier =
     guard (ni_group_owner node \<noteq> '''' \<and> ni_group_owner node \<notin> set nodes)
       (PlanningError ErrorMissingInput (at_index ''nodes'' index @ ''.groupOwner'') ''references an unknown Node'')"

definition image_key :: "image_input \<Rightarrow> string" where
  "image_key img = ii_node_id img @ [CHR 0x00] @ (if ii_role img = '''' then ii_source_reference img else ii_role img)"

definition check_image :: "string list \<Rightarrow> nat \<Rightarrow> image_input \<Rightarrow> image_input list \<Rightarrow> check" where
  "check_image nodes index img earlier =
     (let field = at_index ''images'' index in first_error
      [guard (ii_node_id img \<notin> set nodes)
         (PlanningError ErrorMissingInput (field @ ''.nodeID'') ''references an unknown Node''),
       guard (image_key img \<in> set (map image_key earlier))
         (PlanningError ErrorInvalidInput field ''image identity is duplicated''),
       guard (ii_source_reference img = '''' \<or> ii_digest_reference img = '''' \<or>
              pf_os (ii_platform img) = '''' \<or> pf_architecture (ii_platform img) = '''')
         (PlanningError ErrorMissingInput field ''source, digest, operating system, and architecture are required''),
       validateUniqueKeyValues (ic_environment (ii_config img)) (field @ ''.config.environment''),
       validateUniqueKeyValues (ic_labels (ii_config img)) (field @ ''.config.labels'')])"

definition check_payload :: "string list \<Rightarrow> nat \<Rightarrow> payload_input \<Rightarrow> payload_input list \<Rightarrow> check" where
  "check_payload nodes index payload earlier =
     (let field = at_index ''payloads'' index in first_error
      [guard (pi_id payload = '''' \<or> pi_destination payload = '''' \<or> pi_node_id payload \<notin> set nodes)
         (PlanningError ErrorInvalidInput field ''id, known Node, and destination are required''),
       guard (pi_id payload \<in> set (map pi_id earlier))
         (PlanningError ErrorInvalidInput (field @ ''.id'') ''payload ID is duplicated''),
       guard (\<not> validPayloadKind (pi_kind payload))
         (PlanningError ErrorUnsupported (field @ ''.kind'') ''payload kind is unsupported''),
       guard (pi_reference payload = '''' \<or> pi_kind payload = PayloadInline \<and> pi_digest payload = '''')
         (PlanningError ErrorMissingInput field ''payload identity is incomplete'')])"

definition certificate_key :: "certificate_input \<Rightarrow> string" where
  "certificate_key c = ci_node_id c @ [CHR 0x00] @ ci_storage_name c"

definition check_certificate :: "string list \<Rightarrow> nat \<Rightarrow> certificate_input \<Rightarrow> certificate_input list \<Rightarrow> check" where
  "check_certificate nodes index c earlier =
     (let field = at_index ''certificates'' index in first_error
      [guard (ci_node_id c \<notin> set nodes)
         (PlanningError ErrorMissingInput (field @ ''.nodeID'') ''references an unknown Node''),
       guard (trim_space (ci_storage_name c) = '''' \<or> \<not> validDigest (ci_certificate_digest c) \<or>
              \<not> validDigest (ci_private_key_digest c) \<or> \<not> validDigest (ci_ca_certificate_digest c) \<or>
              \<not> validDigest (ci_ca_private_key_digest c))
         (PlanningError ErrorInvalidInput field ''certificate storage identity and material digests are required''),
       guard (certificate_key c \<in> set (map certificate_key earlier))
         (PlanningError ErrorInvalidInput field ''certificate storage identity is duplicated'')])"

definition check_inbound_port :: "string \<Rightarrow> nat \<Rightarrow> port \<Rightarrow> port list \<Rightarrow> check" where
  "check_inbound_port field index p earlier =
     (let portField = at_index (field @ ''.inboundPorts'') index in first_error
      [guard (port_number p \<le> 0 \<or> port_number p > 65535)
         (PlanningError ErrorInvalidInput portField ''port number is invalid''),
       guard (to_lower (port_protocol p) \<notin> set ['''', ''tcp'', ''udp''])
         (PlanningError ErrorInvalidInput portField ''port protocol is invalid'')])"

definition check_management_input :: "string list \<Rightarrow> nat \<Rightarrow> management_input \<Rightarrow> management_input list \<Rightarrow> check" where
  "check_management_input nodes index m earlier =
     (let field = at_index ''management'' index in first_error
      [guard (mi_node_id m \<notin> set nodes) (PlanningError ErrorInvalidInput field ''known Node is required''),
       guard (mi_interface_name m = '''' \<and> mi_ipv4 m = '''' \<and> mi_ipv4_gateway m = '''' \<and> mi_ipv6 m = '''' \<and>
              mi_ipv6_gateway m = '''' \<and> dns_servers (mi_dns m) = [] \<and> dns_search (mi_dns m) = [] \<and> dns_options (mi_dns m) = [])
         (PlanningError ErrorInvalidInput field ''management intent is empty''),
       guard (mi_node_id m \<in> set (map mi_node_id earlier))
         (PlanningError ErrorInvalidInput field ''Node management input is duplicated''),
       check_each (check_inbound_port field) 0 [] (mi_inbound_ports m),
       (case mi_mesh m of None \<Rightarrow> None | Some mesh \<Rightarrow> validateManagementMesh (field @ ''.mesh'') mesh)])"

definition check_interface_input :: "string list \<Rightarrow> nat \<Rightarrow> interface_input \<Rightarrow> interface_input list \<Rightarrow> check" where
  "check_interface_input nodes index intf earlier =
     (let field = at_index ''interfaces'' index in first_error
      [guard (ifi_id intf = '''' \<or> ifi_node_id intf \<notin> set nodes \<or> ifi_name intf = '''' \<or> ifi_link_id intf = '''' \<or>
              ifi_connectivity intf = '''' \<or> ifi_wire_id intf < 0 \<or> ifi_mtu intf < 0)
         (PlanningError ErrorInvalidInput field ''interface input is incomplete''),
       guard (ifi_id intf \<in> set (map ifi_id earlier))
         (PlanningError ErrorInvalidInput (field @ ''.id'') ''interface ID is duplicated'')])"

definition validateInput :: "(string \<Rightarrow> string option) \<Rightarrow> input \<Rightarrow> check" where
  "validateInput compact i =
     (let nodes = map ni_id (in_nodes i) in first_error
      [validateHeader (in_schema_version i) (in_compatibility i),
       guard (trim_space (in_topology_name i) = '''')
         (PlanningError ErrorMissingInput ''topologyName'' ''topology name is required''),
       guard (in_entropy_digest i \<noteq> '''' \<and> \<not> validDigest (in_entropy_digest i))
         (PlanningError ErrorInvalidInput ''entropyDigest'' ''must be a sha256 digest''),
       guard (in_nodes i = []) (PlanningError ErrorMissingInput ''nodes'' ''at least one Node is required''),
       check_each (check_input_node compact) 0 [] (in_nodes i),
       check_each (check_group_owner nodes) 0 [] (in_nodes i),
       check_each (check_image nodes) 0 [] (in_images i),
       check_each (check_payload nodes) 0 [] (in_payloads i),
       check_each (check_certificate nodes) 0 [] (in_certificates i),
       check_each (check_management_input nodes) 0 [] (in_management i),
       check_each (check_interface_input nodes) 0 [] (in_interfaces i)])"

subsection \<open>Order\<close>

definition comparePort :: "port \<Rightarrow> int \<times> string" where
  "comparePort p = (port_number p, port_protocol p)"

definition compareImageInput :: "image_input \<Rightarrow> string \<times> string \<times> string \<times> string" where
  "compareImageInput i = (ii_node_id i, ii_role i, ii_source_reference i, ii_component_id i)"

definition normalizeImageConfig :: "image_config \<Rightarrow> image_config" where
  "normalizeImageConfig c = c\<lparr> ic_environment := sort_key kv_name (ic_environment c), ic_labels := sort_key kv_name (ic_labels c),
     ic_ports := sort_key comparePort (ic_ports c), ic_declared_dirs := sort (ic_declared_dirs c) \<rparr>"

definition normalize_image :: "image_input \<Rightarrow> image_input" where
  "normalize_image i = i\<lparr> ii_config := normalizeImageConfig (ii_config i),
     ii_platform := (ii_platform i)\<lparr> pf_os_features := sort (pf_os_features (ii_platform i)) \<rparr> \<rparr>"

definition normalize_management_input :: "management_input \<Rightarrow> management_input" where
  "normalize_management_input m = m\<lparr> mi_inbound_ports := sort_key (\<lambda>p. (port_protocol p, port_number p)) (mi_inbound_ports m) \<rparr>"

definition sort_input :: "input \<Rightarrow> input" where
  "sort_input i = i\<lparr> in_nodes := sort_key ni_id (in_nodes i),
     in_images := map normalize_image (sort_key compareImageInput (in_images i)),
     in_payloads := sort_key pi_id (in_payloads i),
     in_certificates := sort_key (\<lambda>c. (ci_node_id c, ci_storage_name c)) (in_certificates i),
     in_management := map normalize_management_input (sort_key mi_node_id (in_management i)),
     in_interfaces := sort_key ifi_id (in_interfaces i) \<rparr>"

section \<open>Plans\<close>

subsection \<open>Vocabulary\<close>

definition FileSourcePayload :: string where "FileSourcePayload = ''Payload''"
definition FileSourceGenerator :: string where "FileSourceGenerator = ''Generator''"
definition FileSourceCertificate :: string where "FileSourceCertificate = ''Certificate''"
definition FileSourceEmpty :: string where "FileSourceEmpty = ''Empty''"
definition ArtifactRegular :: string where "ArtifactRegular = ''Regular''"
definition ArtifactSymlink :: string where "ArtifactSymlink = ''Symlink''"
definition ArtifactDirectory :: string where "ArtifactDirectory = ''Directory''"
definition VolumeEmptyDir :: string where "VolumeEmptyDir = ''EmptyDir''"
definition PhasePreStart :: string where "PhasePreStart = ''PreStart''"
definition PhasePostStart :: string where "PhasePostStart = ''PostStart''"
definition PhaseReadiness :: string where "PhaseReadiness = ''Readiness''"
definition PhaseInterfaceFixup :: string where "PhaseInterfaceFixup = ''InterfaceFixup''"
definition PhaseSave :: string where "PhaseSave = ''Save''"
definition ActionExec :: string where "ActionExec = ''Exec''"
definition ActionFile :: string where "ActionFile = ''File''"
definition ActionWriteStdin :: string where "ActionWriteStdin = ''WriteStdin''"
definition ActionMount :: string where "ActionMount = ''Mount''"
definition ActionSysctl :: string where "ActionSysctl = ''Sysctl''"
definition ActionWaitInterface :: string where "ActionWaitInterface = ''WaitInterface''"
definition ActionRenameInterface :: string where "ActionRenameInterface = ''RenameInterface''"
definition ActionManagementForwarding :: string where "ActionManagementForwarding = ''ManagementForwarding''"
definition ActionImportedDeployEndpoints :: string where "ActionImportedDeployEndpoints = ''ImportedDeployEndpoints''"
definition ActionImportedPostDeploy :: string where "ActionImportedPostDeploy = ''ImportedPostDeploy''"
definition ActionImportedReadiness :: string where "ActionImportedReadiness = ''ImportedReadiness''"
definition ActionSave :: string where "ActionSave = ''Save''"
definition SaveMethodImported :: string where "SaveMethodImported = ''ImportedPackage''"
definition FileWriteReplace :: string where "FileWriteReplace = ''Replace''"
definition FileWriteAppend :: string where "FileWriteAppend = ''Append''"
definition LinkApplyLive :: string where "LinkApplyLive = ''Live''"
definition LinkApplyRestart :: string where "LinkApplyRestart = ''Restart''"
definition LinkApplyRecreate :: string where "LinkApplyRecreate = ''Recreate''"
definition ManagementInterfacePodTransport :: string where "ManagementInterfacePodTransport = ''PodTransport''"
definition ManagementInterfaceInterposed :: string where "ManagementInterfaceInterposed = ''Interposed''"
definition filesystemTmpfs :: string where "filesystemTmpfs = ''tmpfs''"

definition maxGeneratedSymlinkTargetBytes :: nat where "maxGeneratedSymlinkTargetBytes = 4096"

definition validFileSourceKind :: "string \<Rightarrow> bool" where
  "validFileSourceKind kind \<longleftrightarrow> kind \<in> set [FileSourcePayload, FileSourceGenerator, FileSourceCertificate, FileSourceEmpty]"

definition validVolumeKind :: "string \<Rightarrow> bool" where
  "validVolumeKind kind \<longleftrightarrow> kind \<in> set [''Artifacts'', VolumeEmptyDir, ''ConfigMap'', ''Secret'', ''Persistent'', ''Device'']"

definition action_phases :: "string list" where
  "action_phases = [''Prepare'', PhasePreStart, PhaseInterfaceFixup, PhasePostStart, PhaseReadiness, PhaseSave, ''PostStop'']"

definition validActionPhase :: "string \<Rightarrow> bool" where
  "validActionPhase phase \<longleftrightarrow> phase \<in> set action_phases"

definition validLinkApplyMode :: "string \<Rightarrow> bool" where
  "validLinkApplyMode mode \<longleftrightarrow> mode \<in> set [LinkApplyLive, LinkApplyRestart, LinkApplyRecreate]"

definition validPortableOwnership :: "int option \<Rightarrow> bool" where
  "validPortableOwnership owner = (case owner of None \<Rightarrow> True | Some v \<Rightarrow> 0 \<le> v \<and> v < 2 ^ 31)"

subsection \<open>Nodes and containers\<close>

definition check_node_plan :: "nat \<Rightarrow> node_plan \<Rightarrow> node_plan list \<Rightarrow> check" where
  "check_node_plan index node earlier =
     (let field = at_index ''nodes'' index in first_error
      [guard (np_id node = '''' \<or> np_name node = '''' \<or> np_kind node = '''' \<or> np_container_ids node = [] \<or> np_readiness_container_ids node = [])
         (PlanningError ErrorInvalidInput field ''logical Node plan is incomplete''),
       guard (np_id node \<in> set (map np_id earlier)) (PlanningError ErrorInvariant (field @ ''.id'') ''Node ID is duplicated''),
       guard (hasDuplicates [] (np_container_ids node) \<or> hasDuplicates [] (np_readiness_container_ids node))
         (PlanningError ErrorInvariant field ''container references are duplicated'')])"

definition check_container_port :: "string \<Rightarrow> nat \<Rightarrow> port \<Rightarrow> port list \<Rightarrow> check" where
  "check_container_port field index p earlier =
     (let portField = at_index (field @ ''.ports'') index in first_error
      [guard (port_number p < 1 \<or> port_number p > 65535 \<or> port_protocol p \<noteq> ''TCP'' \<and> port_protocol p \<noteq> ''UDP'')
         (PlanningError ErrorInvalidInput portField ''port number or protocol is invalid''),
       guard (comparePort p \<in> set (map comparePort earlier))
         (PlanningError ErrorInvariant portField ''container port is duplicated'')])"

definition check_container :: "string list \<Rightarrow> nat \<Rightarrow> container_plan \<Rightarrow> container_plan list \<Rightarrow> check" where
  "check_container nodes index c earlier =
     (let field = at_index ''containers'' index in first_error
      [guard (cp_id c = '''' \<or> cp_runtime_id c = '''' \<or> cp_image c = '''' \<or> cp_namespace_owner_id c = '''')
         (PlanningError ErrorInvalidInput field ''container identity and image are required''),
       guard (cp_image_digest c \<noteq> '''' \<and> \<not> validDigest (cp_image_digest c))
         (PlanningError ErrorInvalidInput (field @ ''.imageDigest'') ''image digest must be a sha256 digest''),
       guard (cp_node_id c \<notin> set nodes) (PlanningError ErrorInvariant (field @ ''.nodeID'') ''references an unknown Node''),
       guard (cp_id c \<in> set (map cp_id earlier)) (PlanningError ErrorInvariant (field @ ''.id'') ''container ID is duplicated''),
       guard (cp_runtime_id c \<in> set (map cp_runtime_id earlier))
         (PlanningError ErrorInvariant (field @ ''.runtimeID'') ''runtime ID is duplicated''),
       validateUniqueKeyValues (cp_environment c) (field @ ''.environment''),
       validateUniqueKeyValues (cp_labels c) (field @ ''.labels''),
       validateUniqueKeyValues (sec_sysctls (cp_security c)) (field @ ''.security.sysctls''),
       check_each (check_container_port field) 0 [] (cp_ports c)])"

definition check_namespace_owner :: "container_plan list \<Rightarrow> nat \<Rightarrow> container_plan \<Rightarrow> container_plan list \<Rightarrow> check" where
  "check_namespace_owner containers index c earlier =
     guard (find_by cp_id containers (cp_namespace_owner_id c) = None)
       (PlanningError ErrorInvariant (at_index ''containers'' index @ ''.namespaceOwnerID'') ''references an unknown container'')"

definition check_node_containers :: "container_plan list \<Rightarrow> nat \<Rightarrow> node_plan \<Rightarrow> node_plan list \<Rightarrow> check" where
  "check_node_containers containers index node earlier = first_error
     [guard (list_ex (\<lambda>i. case find_by cp_id containers i of None \<Rightarrow> True | Some c \<Rightarrow> cp_node_id c \<noteq> np_id node)
               (np_container_ids node @ np_readiness_container_ids node))
        (PlanningError ErrorInvariant (at_index ''nodes'' index @ ''.containerIDs'') ''references a missing or foreign container''),
      guard (list_ex (\<lambda>i. i \<notin> set (np_container_ids node)) (np_readiness_container_ids node))
        (PlanningError ErrorInvariant (at_index ''nodes'' index @ ''.readinessContainerIDs'')
           ''references a container outside the Node component inventory'')]"

subsection \<open>Files, volumes and mounts\<close>

definition generated_source :: "file_plan \<Rightarrow> bool" where
  "generated_source f \<longleftrightarrow> fp_source_kind f = FileSourceGenerator \<or> fp_source_kind f = FileSourceCertificate"

definition check_attribute :: "string \<Rightarrow> nat \<Rightarrow> extended_attribute \<Rightarrow> extended_attribute list \<Rightarrow> check" where
  "check_attribute field index a earlier =
     guard (xa_name a = '''' \<or> length (xa_name a) > 255 \<or> CHR 0x00 \<in> set (xa_name a) \<or> \<not> validDigest (xa_digest a) \<or>
            xa_name a \<in> set (map xa_name earlier))
       (PlanningError ErrorInvalidInput (at_index (field @ ''.extendedAttributes'') index) ''extended attribute metadata is invalid'')"

definition check_file :: "string list \<Rightarrow> nat \<Rightarrow> file_plan \<Rightarrow> file_plan list \<Rightarrow> check" where
  "check_file nodes index f earlier =
     (let field = at_index ''files'' index;
          artifactKind = (if fp_artifact_kind f = '''' then ArtifactRegular else fp_artifact_kind f);
          artifactPath = path_clean (fp_artifact_path f) in first_error
      [guard (fp_id f = '''' \<or> \<not> validFileSourceKind (fp_source_kind f) \<or>
              artifactKind \<notin> set [ArtifactRegular, ArtifactSymlink, ArtifactDirectory] \<or>
              fp_artifact_path f = '''' \<or> is_abs (fp_artifact_path f) \<or>
              artifactPath = ''.'' \<and> artifactKind \<noteq> ArtifactDirectory \<or> has_prefix artifactPath ''../'' \<or>
              fp_destination f \<noteq> '''' \<and> \<not> is_abs (fp_destination f) \<or>
              fp_mode f > 511 \<or> \<not> validPortableOwnership (fp_uid f) \<or> \<not> validPortableOwnership (fp_gid f))
         (PlanningError ErrorInvalidInput field ''file plan is incomplete''),
       guard (artifactKind = ArtifactSymlink \<and>
              (\<not> generated_source f \<or> fp_link_target f = '''' \<or> length (fp_link_target f) > maxGeneratedSymlinkTargetBytes \<or>
               CHR 0x00 \<in> set (fp_link_target f) \<or> fp_mode f \<noteq> 0))
         (PlanningError ErrorInvalidInput field ''symbolic-link plan is incomplete''),
       guard (artifactKind = ArtifactDirectory \<and>
              (\<not> generated_source f \<or> fp_link_target f \<noteq> '''' \<or> fp_digest f \<noteq> '''' \<or> fp_destination f \<noteq> ''''))
         (PlanningError ErrorInvalidInput field ''directory plan is incomplete''),
       guard (artifactKind \<noteq> ArtifactSymlink \<and> artifactKind \<noteq> ArtifactDirectory \<and> fp_link_target f \<noteq> '''')
         (PlanningError ErrorInvalidInput field ''regular artifact has a link target''),
       guard (length (fp_extended_attributes f) > 128 \<or> fp_extended_attributes f \<noteq> [] \<and> \<not> generated_source f)
         (PlanningError ErrorInvalidInput field ''artifact metadata is invalid''),
       check_each (check_attribute field) 0 [] (fp_extended_attributes f),
       guard (fp_source_kind f = FileSourcePayload \<and> fp_destination f = '''')
         (PlanningError ErrorInvalidInput field ''payload destination is required''),
       guard (fp_digest f \<noteq> '''' \<and> \<not> validDigest (fp_digest f))
         (PlanningError ErrorInvalidInput (field @ ''.digest'') ''file digest is invalid''),
       guard ((fp_source_kind f = FileSourceEmpty) \<noteq> (fp_source_reference f = ''''))
         (PlanningError ErrorInvalidInput field ''file source identity is invalid''),
       validateUniqueKeyValues (fp_variables f) (field @ ''.variables''),
       guard (fp_node_id f \<notin> set nodes) (PlanningError ErrorInvariant (field @ ''.nodeID'') ''references an unknown Node''),
       guard (fp_id f \<in> set (map fp_id earlier)) (PlanningError ErrorInvariant (field @ ''.id'') ''file ID is duplicated'')])"

definition check_volume :: "string list \<Rightarrow> nat \<Rightarrow> volume_plan \<Rightarrow> volume_plan list \<Rightarrow> check" where
  "check_volume nodes index v earlier =
     (let field = at_index ''volumes'' index in first_error
      [guard (vp_id v = '''' \<or> \<not> validVolumeKind (vp_kind v)) (PlanningError ErrorInvalidInput field ''volume ID or kind is invalid''),
       guard (vp_node_id v \<notin> set nodes) (PlanningError ErrorInvariant (field @ ''.nodeID'') ''references an unknown Node''),
       guard (vp_id v \<in> set (map vp_id earlier)) (PlanningError ErrorInvariant (field @ ''.id'') ''volume ID is duplicated'')])"

definition check_mount :: "container_plan list \<Rightarrow> volume_plan list \<Rightarrow> nat \<Rightarrow> mount_plan \<Rightarrow> mount_plan list \<Rightarrow> check" where
  "check_mount containers volumes index m earlier =
     (let field = at_index ''mounts'' index in first_error
      [guard (mt_id m = '''' \<or> mt_destination m = '''' \<or> \<not> is_abs (mt_destination m) \<or> path_clean (mt_destination m) \<noteq> mt_destination m)
         (PlanningError ErrorInvalidInput field ''mount ID and destination are required''),
       guard (find_by cp_id containers (mt_container_id m) = None)
         (PlanningError ErrorInvariant (field @ ''.containerID'') ''references an unknown container''),
       guard (find_by vp_id volumes (mt_volume_id m) = None)
         (PlanningError ErrorInvariant (field @ ''.volumeID'') ''references an unknown volume''),
       guard (mt_id m \<in> set (map mt_id earlier)) (PlanningError ErrorInvariant (field @ ''.id'') ''mount ID is duplicated'')])"

definition check_container_mounts :: "mount_plan list \<Rightarrow> nat \<Rightarrow> container_plan \<Rightarrow> container_plan list \<Rightarrow> check" where
  "check_container_mounts mounts index c earlier =
     guard (list_ex (\<lambda>i. case find_by mt_id mounts i of None \<Rightarrow> True | Some m \<Rightarrow> mt_container_id m \<noteq> cp_id c) (cp_mount_ids c))
       (PlanningError ErrorInvariant (at_index ''containers'' index @ ''.mountIDs'') ''references a missing or foreign mount'')"

subsection \<open>Management and interfaces\<close>

definition validateManagementInterposition :: "string \<Rightarrow> management_plan \<Rightarrow> check" where
  "validateManagementInterposition field item =
     (if mg_interface_selector item \<noteq> ManagementInterfaceInterposed
      then guard (mg_interposition item \<noteq> None)
        (PlanningError ErrorInvalidInput (field @ ''.interposition'') ''interposition contract requires the Interposed selector'')
      else case mg_interposition item of
        None \<Rightarrow> Some (PlanningError ErrorInvalidInput (field @ ''.interposition'') ''interposed management requires a valid device interface'')
      | Some contract \<Rightarrow> first_error
          [guard (ip_device_interface contract = '''' \<or> length (ip_device_interface contract) \<ge> 16)
             (PlanningError ErrorInvalidInput (field @ ''.interposition'') ''interposed management requires a valid device interface''),
           guard (mg_ipv4 item = '''' \<or> mg_ipv4_gateway item = '''')
             (PlanningError ErrorInvalidInput (field @ ''.interposition'')
                ''interposed management requires an allocated IPv4 identity and gateway''),
           guard (ip_device_mac contract \<noteq> '''' \<and> \<not> valid_mac (ip_device_mac contract))
             (PlanningError ErrorInvalidInput (field @ ''.interposition.deviceMAC'') ''device MAC is invalid''),
           guard (list_ex (\<lambda>cidr. ParsePrefix cidr = None) (ip_transport_cidrs contract))
             (PlanningError ErrorInvalidInput (field @ ''.interposition.transportCIDRs'') ''transport CIDR is invalid''),
           guard (list_ex (\<lambda>p. pm_protocol p \<noteq> ''tcp'' \<and> pm_protocol p \<noteq> ''udp'' \<or> pm_pod_port p = 0 \<or> pm_device_port p = 0)
                    (ip_inbound_ports contract))
             (PlanningError ErrorInvalidInput (field @ ''.interposition.inboundPorts'') ''inbound port map is invalid''),
           (case ip_mesh contract of None \<Rightarrow> None | Some mesh \<Rightarrow> validateManagementMesh (field @ ''.interposition.mesh'') mesh)])"

definition check_management_plan :: "string list \<Rightarrow> nat \<Rightarrow> management_plan \<Rightarrow> management_plan list \<Rightarrow> check" where
  "check_management_plan nodes index item earlier =
     (let field = at_index ''management'' index in first_error
      [guard (mg_id item = '''' \<or> mg_interface_name item = '''' \<and> mg_interface_selector item = '''' \<or>
              mg_interface_name item \<noteq> '''' \<and> mg_interface_selector item \<noteq> '''' \<or>
              mg_interface_selector item \<noteq> '''' \<and> mg_interface_selector item \<noteq> ManagementInterfacePodTransport \<and>
                mg_interface_selector item \<noteq> ManagementInterfaceInterposed)
         (PlanningError ErrorInvalidInput field ''management plan is incomplete''),
       validateManagementInterposition field item,
       guard (mg_node_id item \<notin> set nodes \<or> mg_node_id item \<in> set (map mg_node_id earlier))
         (PlanningError ErrorInvariant (field @ ''.nodeID'') ''Node is unknown or duplicated''),
       guard (mg_id item \<in> set (map mg_id earlier)) (PlanningError ErrorInvariant (field @ ''.id'') ''management ID is duplicated'')])"

definition check_interface_plan :: "string list \<Rightarrow> container_plan list \<Rightarrow> nat \<Rightarrow> interface_plan \<Rightarrow> interface_plan list \<Rightarrow> check" where
  "check_interface_plan nodes containers index intf earlier =
     (let field = at_index ''interfaces'' index in first_error
      [guard (ifp_id intf = '''' \<or> ifp_name intf = '''' \<or> ifp_namespace_owner_id intf = '''' \<or> ifp_link_id intf = '''' \<or>
              ifp_connectivity intf = '''' \<or> ifp_wire_id intf < 0 \<or> ifp_mtu intf < 0 \<or> \<not> validLinkApplyMode (ifp_link_apply_mode intf))
         (PlanningError ErrorInvalidInput field ''interface plan is incomplete''),
       guard (ifp_node_id intf \<notin> set nodes) (PlanningError ErrorInvariant (field @ ''.nodeID'') ''references an unknown Node''),
       guard (find_by cp_id containers (ifp_namespace_owner_id intf) = None)
         (PlanningError ErrorInvariant (field @ ''.namespaceOwnerID'') ''references an unknown container''),
       guard (ifp_id intf \<in> set (map ifp_id earlier)) (PlanningError ErrorInvariant (field @ ''.id'') ''interface ID is duplicated'')])"

subsection \<open>Actions\<close>

definition payload_count :: "action \<Rightarrow> nat" where
  "payload_count a = length (filter id
     [ac_exec a \<noteq> None, ac_file a \<noteq> None, ac_write_stdin a \<noteq> None, ac_mount a \<noteq> None, ac_sysctl a \<noteq> None,
      ac_wait_interface a \<noteq> None, ac_rename_interface a \<noteq> None, ac_management_forwarding a \<noteq> None,
      ac_imported_deploy_endpoints a \<noteq> None, ac_imported_post_deploy a \<noteq> None, ac_imported_readiness a \<noteq> None, ac_save a \<noteq> None])"

definition valueOrEmpty :: "('a \<Rightarrow> string) \<Rightarrow> 'a option \<Rightarrow> string" where
  "valueOrEmpty get x = (case x of None \<Rightarrow> '''' | Some v \<Rightarrow> get v)"

definition mount_option_ok :: "string \<Rightarrow> bool" where
  "mount_option_ok option \<longleftrightarrow> option \<noteq> '''' \<and> CHR 0x00 \<notin> set option \<and> CHR 0x0A \<notin> set option \<and> CHR 0x0D \<notin> set option"

text \<open>The outcome of the switch over the kind: a truth value, a read through a nil payload, or the default branch.\<close>

datatype verdict = Verdict bool | NilPayload | UnknownKind

definition payload_verdict :: "plan \<Rightarrow> action \<Rightarrow> verdict" where
  "payload_verdict p a =
     (let kind = ac_kind a; phase = ac_phase a; container = at_container_id (ac_target a) in
      if kind = ActionExec then Verdict (case ac_exec a of None \<Rightarrow> False | Some e \<Rightarrow> ex_command e \<noteq> [])
      else if kind = ActionFile then
        (case find_by fp_id (pn_files p) (valueOrEmpty fa_file_id (ac_file a)) of
           None \<Rightarrow> Verdict False
         | Some f \<Rightarrow>
             (case ac_file a of
                None \<Rightarrow> NilPayload
              | Some fa \<Rightarrow> Verdict (fa_write_mode fa \<in> set ['''', FileWriteReplace, FileWriteAppend] \<and>
                  (phase = PhasePostStart \<longrightarrow> fa_destination fa \<noteq> '''' \<and> fp_artifact_kind f = ArtifactRegular))))
      else if kind = ActionWriteStdin then
        Verdict (case find_by fp_id (pn_files p) (valueOrEmpty id (ac_write_stdin a)) of
           None \<Rightarrow> False | Some f \<Rightarrow> fp_artifact_kind f = ArtifactRegular)
      else if kind = ActionMount then
        (case find_by mt_id (pn_mounts p) (valueOrEmpty ma_mount_id (ac_mount a)) of
           None \<Rightarrow> Verdict False
         | Some m \<Rightarrow>
             (case find_by vp_id (pn_volumes p) (mt_volume_id m) of
                None \<Rightarrow> Verdict False
              | Some v \<Rightarrow>
                  if vp_kind v = VolumeEmptyDir \<and> to_lower (vp_medium v) = ''memory''
                  then (case ac_mount a of
                          None \<Rightarrow> NilPayload
                        | Some ma \<Rightarrow> Verdict (ma_filesystem ma = filesystemTmpfs \<and> ma_source ma = filesystemTmpfs \<and>
                            phase = PhasePreStart \<and> container = mt_container_id m \<and> list_all mount_option_ok (ma_options ma)))
                  else Verdict False))
      else if kind = ActionSysctl then Verdict (case ac_sysctl a of None \<Rightarrow> False | Some s \<Rightarrow> sa_name s \<noteq> '''')
      else if kind = ActionWaitInterface then
        (case find_by ifp_id (pn_interfaces p) (valueOrEmpty wa_interface_id (ac_wait_interface a)) of
           None \<Rightarrow> Verdict False
         | Some _ \<Rightarrow> (case ac_wait_interface a of None \<Rightarrow> NilPayload | Some w \<Rightarrow> Verdict (wa_timeout_seconds w > 0)))
      else if kind = ActionRenameInterface then
        (case find_by ifp_id (pn_interfaces p) (valueOrEmpty ra_interface_id (ac_rename_interface a)) of
           None \<Rightarrow> Verdict False
         | Some _ \<Rightarrow> (case ac_rename_interface a of None \<Rightarrow> NilPayload | Some r \<Rightarrow> Verdict (ra_from r \<noteq> '''' \<and> ra_to r \<noteq> '''')))
      else if kind = ActionManagementForwarding then
        Verdict (find_by mg_id (pn_management p) (valueOrEmpty mf_management_id (ac_management_forwarding a)) \<noteq> None)
      else if kind = ActionImportedDeployEndpoints then
        Verdict (ac_imported_deploy_endpoints a \<noteq> None \<and> phase = PhaseInterfaceFixup \<and> container \<noteq> '''' \<and>
          at_namespace_owner_id (ac_target a) \<noteq> '''')
      else if kind = ActionImportedPostDeploy then
        Verdict (ac_imported_post_deploy a \<noteq> None \<and> phase = PhasePostStart \<and> container \<noteq> '''')
      else if kind = ActionImportedReadiness then
        Verdict (ac_imported_readiness a \<noteq> None \<and> phase = PhaseReadiness \<and> container \<noteq> '''')
      else if kind = ActionSave then
        Verdict (case ac_save a of
           None \<Rightarrow> False
         | Some s \<Rightarrow> sv_method s = SaveMethodImported \<and> phase = PhaseSave \<and> container \<noteq> '''' \<and>
             (sv_file_id s \<noteq> '''' \<longrightarrow>
                (case find_by fp_id (pn_files p) (sv_file_id s) of None \<Rightarrow> False | Some f \<Rightarrow> fp_artifact_kind f = ArtifactRegular)))
      else UnknownKind)"

definition validateActionPayload :: "plan \<Rightarrow> action \<Rightarrow> string \<Rightarrow> check" where
  "validateActionPayload p a field =
     (if payload_count a \<noteq> 1 then Some (PlanningError ErrorInvariant field ''action must contain exactly one typed payload'')
      else case payload_verdict p a of
        NilPayload \<Rightarrow> Some NilDereference
      | UnknownKind \<Rightarrow> Some (PlanningError ErrorUnsupported (field @ ''.kind'') ''action kind is unsupported'')
      | Verdict valid \<Rightarrow> guard (\<not> valid) (PlanningError ErrorInvariant field ''typed action payload is incomplete or mismatched''))"

definition check_action :: "plan \<Rightarrow> nat \<Rightarrow> action \<Rightarrow> action list \<Rightarrow> check" where
  "check_action p index a earlier =
     (let field = at_index ''actions'' index; target = ac_target a in first_error
      [guard (ac_id a = '''' \<or> \<not> validActionPhase (ac_phase a)) (PlanningError ErrorInvalidInput field ''action ID or phase is invalid''),
       guard (ac_id a \<in> set (map ac_id earlier)) (PlanningError ErrorInvariant (field @ ''.id'') ''action ID is duplicated''),
       guard (at_node_id target \<notin> set (map np_id (pn_nodes p)))
         (PlanningError ErrorInvariant (field @ ''.target.nodeID'') ''references an unknown Node''),
       guard (at_container_id target \<noteq> '''' \<and> find_by cp_id (pn_containers p) (at_container_id target) = None)
         (PlanningError ErrorInvariant (field @ ''.target.containerID'') ''references an unknown container''),
       guard (at_namespace_owner_id target \<noteq> '''' \<and> find_by cp_id (pn_containers p) (at_namespace_owner_id target) = None)
         (PlanningError ErrorInvariant (field @ ''.target.namespaceOwnerID'') ''references an unknown container''),
       validateActionPayload p a field])"

subsection \<open>The whole plan\<close>

definition validatePlan :: "plan \<Rightarrow> check" where
  "validatePlan p =
     (let nodes = map np_id (pn_nodes p) in first_error
      [validateHeader (pn_schema_version p) (pn_compatibility p),
       guard (\<not> validDigest (pn_input_digest p)) (PlanningError ErrorInvalidInput ''inputDigest'' ''must be a sha256 digest''),
       guard (pl_name (pn_planner p) = '''' \<or> pl_revision (pn_planner p) = '''')
         (PlanningError ErrorMissingInput ''planner'' ''name and revision are required''),
       guard (pn_nodes p = [] \<or> pn_containers p = []) (PlanningError ErrorMissingInput ''plan'' ''Nodes and containers are required''),
       check_each check_node_plan 0 [] (pn_nodes p),
       check_each (check_container nodes) 0 [] (pn_containers p),
       check_each (check_namespace_owner (pn_containers p)) 0 [] (pn_containers p),
       check_each (check_node_containers (pn_containers p)) 0 [] (pn_nodes p),
       check_each (check_file nodes) 0 [] (pn_files p),
       check_each (check_volume nodes) 0 [] (pn_volumes p),
       check_each (check_mount (pn_containers p) (pn_volumes p)) 0 [] (pn_mounts p),
       check_each (check_container_mounts (pn_mounts p)) 0 [] (pn_containers p),
       check_each (check_management_plan nodes) 0 [] (pn_management p),
       check_each (check_interface_plan nodes (pn_containers p)) 0 [] (pn_interfaces p),
       check_each (check_action p) 0 [] (pn_actions p)])"

subsection \<open>Order\<close>

text \<open>\<open>actionPhaseRank\<close>: the position of the phase, or -1.\<close>

fun phase_index :: "string list \<Rightarrow> string \<Rightarrow> int \<Rightarrow> int" where
  "phase_index [] phase index = -1"
| "phase_index (candidate # rest) phase index = (if phase = candidate then index else phase_index rest phase (index + 1))"

definition actionPhaseRank :: "string \<Rightarrow> int" where
  "actionPhaseRank phase = phase_index action_phases phase 0"

definition compareAction :: "action \<Rightarrow> int \<times> int \<times> string" where
  "compareAction a = (actionPhaseRank (ac_phase a), ac_order a, ac_id a)"

definition compareDevice :: "device \<Rightarrow> string \<times> string" where
  "compareDevice d = (dev_container_path d, dev_host_path d)"

definition compareRoute :: "route \<Rightarrow> string \<times> string \<times> int" where
  "compareRoute r = (rt_destination r, rt_gateway r, rt_metric r)"

definition comparePortMap :: "management_port_map \<Rightarrow> string \<times> 16 word" where
  "comparePortMap m = (pm_protocol m, pm_pod_port m)"

definition default_container :: "container_plan \<Rightarrow> container_plan" where
  "default_container c = (if cp_runtime_id c = '''' then c\<lparr> cp_runtime_id := cp_id c \<rparr> else c)"

definition default_file :: "file_plan \<Rightarrow> file_plan" where
  "default_file f = (if fp_artifact_kind f = '''' then f\<lparr> fp_artifact_kind := ArtifactRegular \<rparr> else f)"

definition default_plan :: "plan \<Rightarrow> plan" where
  "default_plan p = p\<lparr> pn_containers := map default_container (pn_containers p), pn_files := map default_file (pn_files p) \<rparr>"

definition sort_node_plan :: "node_plan \<Rightarrow> node_plan" where
  "sort_node_plan n = n\<lparr> np_readiness_container_ids := sort (np_readiness_container_ids n), np_aliases := sort (np_aliases n) \<rparr>"

definition sort_security :: "security_plan \<Rightarrow> security_plan" where
  "sort_security s = s\<lparr> sec_capabilities_add := sort (sec_capabilities_add s), sec_capabilities_drop := sort (sec_capabilities_drop s),
     sec_devices := sort_key compareDevice (sec_devices s), sec_sysctls := sort_key kv_name (sec_sysctls s) \<rparr>"

definition sort_container :: "container_plan \<Rightarrow> container_plan" where
  "sort_container c = c\<lparr> cp_mount_ids := sort (cp_mount_ids c), cp_security := sort_security (cp_security c),
     cp_environment := sort_key kv_name (cp_environment c), cp_labels := sort_key kv_name (cp_labels c),
     cp_ports := sort_key comparePort (cp_ports c) \<rparr>"

definition sort_file :: "file_plan \<Rightarrow> file_plan" where
  "sort_file f = f\<lparr> fp_variables := sort_key kv_name (fp_variables f),
     fp_extended_attributes := sort_key xa_name (fp_extended_attributes f) \<rparr>"

definition sort_interposition :: "management_interposition \<Rightarrow> management_interposition" where
  "sort_interposition c = c\<lparr> ip_transport_cidrs := sort (ip_transport_cidrs c),
     ip_inbound_ports := sort_key comparePortMap (ip_inbound_ports c) \<rparr>"

definition sort_management :: "management_plan \<Rightarrow> management_plan" where
  "sort_management m = m\<lparr> mg_routes := sort_key compareRoute (mg_routes m),
     mg_interposition := map_option sort_interposition (mg_interposition m) \<rparr>"

definition sort_plan :: "plan \<Rightarrow> plan" where
  "sort_plan p = p\<lparr>
     pn_nodes := map sort_node_plan (sort_key np_id (pn_nodes p)),
     pn_containers := map sort_container (sort_key cp_id (pn_containers p)),
     pn_files := map sort_file (sort_key fp_id (pn_files p)),
     pn_volumes := sort_key vp_id (pn_volumes p),
     pn_mounts := sort_key mt_id (pn_mounts p),
     pn_actions := sort_key compareAction (pn_actions p),
     pn_management := map sort_management (sort_key mg_id (pn_management p)),
     pn_interfaces := sort_key ifp_id (pn_interfaces p) \<rparr>"

section \<open>Normalization\<close>

record plan_json =
  pj_compact :: "string \<Rightarrow> string option"
  pj_encode_input :: "input \<Rightarrow> string"
  pj_encode_plan :: "plan \<Rightarrow> string"
  pj_decode_input :: "string \<Rightarrow> input option"
  pj_decode_plan :: "string \<Rightarrow> plan option"

fun clone_nodes :: "(string \<Rightarrow> string option) \<Rightarrow> node_input list \<Rightarrow> node_input list option" where
  "clone_nodes compact [] = Some []"
| "clone_nodes compact (n # ns) =
     (case compact (ni_definition n) of
        None \<Rightarrow> None
      | Some definition \<Rightarrow> map_option ((#) (n\<lparr> ni_definition := definition \<rparr>)) (clone_nodes compact ns))"

definition clone_input :: "(string \<Rightarrow> string option) \<Rightarrow> input \<Rightarrow> input option" where
  "clone_input compact i = map_option (\<lambda>nodes. i\<lparr> in_nodes := nodes \<rparr>) (clone_nodes compact (in_nodes i))"

definition NormalizeInput :: "plan_json \<Rightarrow> input \<Rightarrow> plan_failure + input" where
  "NormalizeInput json i =
     (case clone_input (pj_compact json) i of
        None \<Rightarrow> Inl (PlanningError ErrorSerialization ''input'' ''cannot clone input'')
      | Some normalized \<Rightarrow>
          (case validateInput (pj_compact json) normalized of
             Some e \<Rightarrow> Inl e
           | None \<Rightarrow> Inr (sort_input normalized)))"

definition NormalizePlan :: "plan \<Rightarrow> plan_failure + plan" where
  "NormalizePlan p =
     (let normalized = default_plan p in
      case validatePlan normalized of
        Some e \<Rightarrow> Inl e
      | None \<Rightarrow> Inr (sort_plan normalized))"

definition Digest :: "digest \<Rightarrow> string \<Rightarrow> string" where
  "Digest sum256 raw = ''sha256:'' @ concat (map hex2 (sum256 raw))"

definition input_canonical_json :: "plan_json \<Rightarrow> input \<Rightarrow> plan_failure + string" where
  "input_canonical_json json i = map_sum id (pj_encode_input json) (NormalizeInput json i)"

definition plan_canonical_json :: "plan_json \<Rightarrow> plan \<Rightarrow> plan_failure + string" where
  "plan_canonical_json json p = map_sum id (pj_encode_plan json) (NormalizePlan p)"

definition input_digest :: "plan_json \<Rightarrow> digest \<Rightarrow> input \<Rightarrow> plan_failure + string" where
  "input_digest json sum256 i = map_sum id (Digest sum256) (input_canonical_json json i)"

definition plan_digest :: "plan_json \<Rightarrow> digest \<Rightarrow> plan \<Rightarrow> plan_failure + string" where
  "plan_digest json sum256 p = map_sum id (Digest sum256) (plan_canonical_json json p)"

definition DecodeInput :: "plan_json \<Rightarrow> string \<Rightarrow> plan_failure + input" where
  "DecodeInput json raw =
     (case pj_decode_input json raw of
        None \<Rightarrow> Inl (PlanningError ErrorSerialization ''input'' ''cannot decode JSON'')
      | Some decoded \<Rightarrow> NormalizeInput json decoded)"

definition DecodePlan :: "plan_json \<Rightarrow> string \<Rightarrow> plan_failure + plan" where
  "DecodePlan json raw =
     (case pj_decode_plan json raw of
        None \<Rightarrow> Inl (PlanningError ErrorSerialization ''plan'' ''cannot decode JSON'')
      | Some decoded \<Rightarrow> NormalizePlan decoded)"

end
