(* ===== verification/Plan_Normal.thy ===== *)
theory Plan_Normal
  imports Plan_Codec
begin

text \<open>
  Normal forms of planning inputs and device plans. The locale \<open>element_check\<close> is what the validators'
  loops rely on: whether an element is accepted depends on the elements before it only through clashing
  identities. So acceptance does not depend on the order of a list, normalization is idempotent and does
  not depend on the order of the set-like fields, and an accepted plan has no dangling reference.
\<close>

section \<open>Loops\<close>

lemma guard_None [simp]: "guard b e = None \<longleftrightarrow> \<not> b"
  by (simp add: guard_def)

lemma first_error_None: "first_error cs = None \<longleftrightarrow> (\<forall>c \<in> set cs. c = None)"
  by (induction cs) (auto split: option.splits)

declare first_error.simps(2) [simp del]

lemma first_error_Cons [simp]: "first_error (c # cs) = None \<longleftrightarrow> c = None \<and> first_error cs = None"
  by (simp add: first_error_None)

text \<open>An identity is taken when an element before has it.\<close>

lemma seen_iff: "k \<in> key ` set xs \<longleftrightarrow> (\<exists>y \<in> set xs. key y = k)"
  by auto

locale element_check =
  fixes check :: "nat \<Rightarrow> 'a \<Rightarrow> 'a list \<Rightarrow> check" and clash :: "'a \<Rightarrow> 'a \<Rightarrow> bool"
  assumes accepts: "check index x earlier = None \<longleftrightarrow> check 0 x [] = None \<and> (\<forall>y \<in> set earlier. \<not> clash y x)"
begin

lemma each_from:
  "check_each check index earlier xs = None \<longleftrightarrow>
     (\<forall>x \<in> set xs. check 0 x [] = None) \<and> (\<forall>y \<in> set earlier. \<forall>x \<in> set xs. \<not> clash y x) \<and> sorted_wrt (\<lambda>y x. \<not> clash y x) xs"
proof (induction xs arbitrary: index earlier)
  case Nil
  then show ?case by simp
next
  case (Cons x xs)
  show ?case
  proof (cases "check index x earlier")
    case None
    with accepts [of index x earlier] Cons.IH show ?thesis by auto
  next
    case (Some e)
    with accepts [of index x earlier] show ?thesis by auto
  qed
qed

lemma each: "check_each check 0 [] xs = None \<longleftrightarrow> (\<forall>x \<in> set xs. check 0 x [] = None) \<and> sorted_wrt (\<lambda>y x. \<not> clash y x) xs"
  by (simp add: each_from)

end

lemma sorted_wrt_keys [simp]: "sorted_wrt (\<lambda>a b. key a \<noteq> key b) xs \<longleftrightarrow> distinct (map key xs)"
  by (induction xs) auto

lemma sorted_wrt_two_keys [simp]:
  "sorted_wrt (\<lambda>a b. key a \<noteq> key b \<and> key' a \<noteq> key' b) xs \<longleftrightarrow> distinct (map key xs) \<and> distinct (map key' xs)"
  by (induction xs) auto

lemma sorted_wrt_True [simp]: "sorted_wrt (\<lambda>a b. True) xs"
  by (induction xs) auto

interpretation kv_check: element_check
  "\<lambda>_ kv earlier. guard (kv_name kv = '''' \<or> kv_name kv \<in> set (map kv_name earlier)) e" "\<lambda>a b. kv_name a = kv_name b" for e
  by unfold_locales (auto simp: seen_iff)

lemma key_values_None [simp]:
  "validateUniqueKeyValues kvs field = None \<longleftrightarrow> '''' \<notin> kv_name ` set kvs \<and> distinct (map kv_name kvs)"
  unfolding validateUniqueKeyValues_def kv_check.each by (auto simp: seen_iff)

lemma hasDuplicates_from: "hasDuplicates seen vs \<longleftrightarrow> '''' \<in> set vs \<or> \<not> distinct vs \<or> set seen \<inter> set vs \<noteq> {}"
  by (induction vs arbitrary: seen) auto

lemma hasDuplicates_iff [simp]: "hasDuplicates [] vs \<longleftrightarrow> '''' \<in> set vs \<or> \<not> distinct vs"
  by (simp add: hasDuplicates_from)

lemma mesh_None [simp]:
  "validateManagementMesh field mesh = None \<longleftrightarrow> 0 < mesh_tunnel_id mesh \<and> mesh_tunnel_id mesh \<le> maxVXLANIdentifier \<and> valid_mac (mesh_gateway_mac mesh)"
  by (auto simp: validateManagementMesh_def)

interpretation input_node_check: element_check "check_input_node compact" "\<lambda>a b. ni_id a = ni_id b \<or> ni_name a = ni_name b" for compact
  by unfold_locales (auto simp: seen_iff check_input_node_def Let_def)

interpretation group_owner_check: element_check "check_group_owner nodes" "\<lambda>a b. False" for nodes
  by unfold_locales (auto simp: seen_iff check_group_owner_def)

interpretation image_check: element_check "check_image nodes" "\<lambda>a b. image_key a = image_key b" for nodes
  by unfold_locales (auto simp: seen_iff check_image_def Let_def)

interpretation payload_check: element_check "check_payload nodes" "\<lambda>a b. pi_id a = pi_id b" for nodes
  by unfold_locales (auto simp: seen_iff check_payload_def Let_def)

interpretation certificate_check: element_check "check_certificate nodes" "\<lambda>a b. certificate_key a = certificate_key b" for nodes
  by unfold_locales (auto simp: seen_iff check_certificate_def Let_def)

interpretation inbound_port_check: element_check "check_inbound_port field" "\<lambda>a b. False" for field
  by unfold_locales (auto simp: seen_iff check_inbound_port_def Let_def)

lemma inbound_port_field: "check_inbound_port field index p earlier = None \<longleftrightarrow> check_inbound_port [] 0 p [] = None"
  by (simp add: check_inbound_port_def Let_def)

lemma inbound_ports_None:
  "check_each (check_inbound_port field) 0 [] ports = None \<longleftrightarrow> (\<forall>p \<in> set ports. check_inbound_port [] 0 p [] = None)"
  by (simp add: inbound_port_check.each inbound_port_field [of field])

interpretation management_input_check: element_check "check_management_input nodes" "\<lambda>a b. mi_node_id a = mi_node_id b" for nodes
  by unfold_locales (auto simp: seen_iff check_management_input_def Let_def inbound_ports_None split: option.splits)

interpretation interface_input_check: element_check "check_interface_input nodes" "\<lambda>a b. ifi_id a = ifi_id b" for nodes
  by unfold_locales (auto simp: seen_iff check_interface_input_def Let_def)

interpretation node_plan_check: element_check check_node_plan "\<lambda>a b. np_id a = np_id b"
  by unfold_locales (auto simp: seen_iff check_node_plan_def Let_def)

interpretation container_port_check: element_check "check_container_port field" "\<lambda>a b. comparePort a = comparePort b" for field
  by unfold_locales (auto simp: seen_iff check_container_port_def Let_def)

lemma container_port_field: "check_container_port field index p [] = None \<longleftrightarrow> check_container_port [] 0 p [] = None"
  by (simp add: check_container_port_def Let_def)

lemma container_ports_None:
  "check_each (check_container_port field) 0 [] ports = None \<longleftrightarrow>
     (\<forall>p \<in> set ports. check_container_port [] 0 p [] = None) \<and> distinct (map comparePort ports)"
  by (simp add: container_port_check.each container_port_field [of field])

interpretation container_check: element_check "check_container nodes" "\<lambda>a b. cp_id a = cp_id b \<or> cp_runtime_id a = cp_runtime_id b" for nodes
  by unfold_locales (auto simp: seen_iff check_container_def Let_def container_ports_None)

interpretation namespace_owner_check: element_check "check_namespace_owner containers" "\<lambda>a b. False" for containers
  by unfold_locales (auto simp: seen_iff check_namespace_owner_def)

interpretation node_containers_check: element_check "check_node_containers containers" "\<lambda>a b. False" for containers
  by unfold_locales (auto simp: seen_iff check_node_containers_def)

interpretation attribute_check: element_check "check_attribute field" "\<lambda>a b. xa_name a = xa_name b" for field
  by unfold_locales (auto simp: seen_iff check_attribute_def)

lemma attribute_field: "check_attribute field index a [] = None \<longleftrightarrow> check_attribute [] 0 a [] = None"
  by (simp add: check_attribute_def)

lemma attributes_None:
  "check_each (check_attribute field) 0 [] as = None \<longleftrightarrow> (\<forall>a \<in> set as. check_attribute [] 0 a [] = None) \<and> distinct (map xa_name as)"
  by (simp add: attribute_check.each attribute_field [of field])

interpretation file_check: element_check "check_file nodes" "\<lambda>a b. fp_id a = fp_id b" for nodes
  by unfold_locales (auto simp: seen_iff check_file_def Let_def attributes_None)

interpretation volume_check: element_check "check_volume nodes" "\<lambda>a b. vp_id a = vp_id b" for nodes
  by unfold_locales (auto simp: seen_iff check_volume_def Let_def)

interpretation mount_check: element_check "check_mount containers volumes" "\<lambda>a b. mt_id a = mt_id b" for containers volumes
  by unfold_locales (auto simp: seen_iff check_mount_def Let_def)

interpretation container_mounts_check: element_check "check_container_mounts mounts" "\<lambda>a b. False" for mounts
  by unfold_locales (auto simp: seen_iff check_container_mounts_def)

lemma interposition_field: "validateManagementInterposition field m = None \<longleftrightarrow> validateManagementInterposition [] m = None"
  by (auto simp: validateManagementInterposition_def split: option.splits)

interpretation management_plan_check: element_check "check_management_plan nodes"
  "\<lambda>a b. mg_node_id a = mg_node_id b \<or> mg_id a = mg_id b" for nodes
  by unfold_locales (auto simp: seen_iff check_management_plan_def Let_def interposition_field [of "at_index s n" for s n])

interpretation interface_plan_check: element_check "check_interface_plan nodes containers" "\<lambda>a b. ifp_id a = ifp_id b" for nodes containers
  by unfold_locales (auto simp: seen_iff check_interface_plan_def Let_def)

lemma payload_field: "validateActionPayload p a field = None \<longleftrightarrow> payload_count a = 1 \<and> payload_verdict p a = Verdict True"
  by (auto simp: validateActionPayload_def split: verdict.splits)

interpretation action_check: element_check "check_action p" "\<lambda>a b. ac_id a = ac_id b" for p
  by unfold_locales (auto simp: seen_iff check_action_def Let_def payload_field)

section \<open>Sorting keeps acceptance\<close>

lemma find_by_None: "find_by key xs k = None \<longleftrightarrow> k \<notin> key ` set xs"
  by (simp add: find_by_def map_of_eq_None_iff image_image)

lemma find_by_Some: "distinct (map key xs) \<Longrightarrow> find_by key xs k = Some x \<longleftrightarrow> x \<in> set xs \<and> key x = k"
  unfolding find_by_def by (subst map_of_eq_Some_iff) (auto simp: comp_def)

lemma distinct_map_sort [simp]: "distinct (map f (sort_key g xs)) \<longleftrightarrow> distinct (map f xs)"
  by (rule mset_eq_imp_distinct_iff) (simp add: mset_map)

lemma find_by_sorted:
  assumes "distinct (map key xs)" "\<And>x. key (g x) = key x"
  shows "find_by key (map g (sort_key k' xs)) k = map_option g (find_by key xs k)"
proof (cases "find_by key xs k")
  case None
  then have "find_by key (map g (sort_key k' xs)) k = None" using assms(2) by (simp add: find_by_None image_image)
  with None show ?thesis by simp
next
  case (Some x)
  have "distinct (map key (map g (sort_key k' xs)))" using assms by (simp add: comp_def)
  moreover have "x \<in> set xs" "key x = k" using Some find_by_Some [OF assms(1)] by auto
  ultimately have "find_by key (map g (sort_key k' xs)) k = Some (g x)" using assms(2) by (simp add: find_by_Some)
  with Some show ?thesis by simp
qed

lemma find_by_sort: "distinct (map key xs) \<Longrightarrow> find_by key (sort_key k' xs) k = find_by key xs k"
  using find_by_sorted [of key xs id k' k] by (simp add: option.map_id)

lemma sort_fields [simp]:
  "np_id (sort_node_plan n) = np_id n" "cp_id (sort_container c) = cp_id c" "cp_node_id (sort_container c) = cp_node_id c"
  "cp_runtime_id (sort_container c) = cp_runtime_id c" "cp_namespace_owner_id (sort_container c) = cp_namespace_owner_id c"
  "fp_id (sort_file f) = fp_id f" "fp_artifact_kind (sort_file f) = fp_artifact_kind f"
  "set (cp_mount_ids (sort_container c)) = set (cp_mount_ids c)"
  "mg_id (sort_management m) = mg_id m" "mg_node_id (sort_management m) = mg_node_id m"
  by (simp_all add: sort_node_plan_def sort_container_def sort_file_def sort_management_def)

lemma sort_plan_fields [simp]:
  "pn_schema_version (sort_plan p) = pn_schema_version p" "pn_compatibility (sort_plan p) = pn_compatibility p"
  "pn_input_digest (sort_plan p) = pn_input_digest p" "pn_planner (sort_plan p) = pn_planner p"
  "pn_nodes (sort_plan p) = map sort_node_plan (sort_key np_id (pn_nodes p))"
  "pn_containers (sort_plan p) = map sort_container (sort_key cp_id (pn_containers p))"
  "pn_files (sort_plan p) = map sort_file (sort_key fp_id (pn_files p))"
  "pn_volumes (sort_plan p) = sort_key vp_id (pn_volumes p)" "pn_mounts (sort_plan p) = sort_key mt_id (pn_mounts p)"
  "pn_actions (sort_plan p) = sort_key compareAction (pn_actions p)"
  "pn_management (sort_plan p) = map sort_management (sort_key mg_id (pn_management p))"
  "pn_interfaces (sort_plan p) = sort_key ifp_id (pn_interfaces p)"
  by (simp_all add: sort_plan_def)

lemma check_node_plan_sorted [simp]: "check_node_plan 0 (sort_node_plan n) [] = None \<longleftrightarrow> check_node_plan 0 n [] = None"
  by (simp add: check_node_plan_def Let_def sort_node_plan_def) (metis length_0_conv length_sort)

lemma check_container_sorted [simp]:
  "check_container nodes 0 (sort_container c) [] = None \<longleftrightarrow> check_container nodes 0 c [] = None"
  by (simp add: check_container_def Let_def sort_container_def sort_security_def container_ports_None)

lemma check_file_sorted [simp]: "check_file nodes 0 (sort_file f) [] = None \<longleftrightarrow> check_file nodes 0 f [] = None"
proof -
  have "fp_extended_attributes (sort_file f) = [] \<longleftrightarrow> fp_extended_attributes f = []"
    by (simp add: sort_file_def) (metis length_0_conv length_sort)
  moreover have "generated_source (sort_file f) = generated_source f" by (simp add: generated_source_def sort_file_def)
  ultimately show ?thesis by (simp add: check_file_def Let_def attributes_None) (simp add: sort_file_def)
qed

lemma check_management_sorted [simp]:
  "check_management_plan nodes 0 (sort_management m) [] = None \<longleftrightarrow> check_management_plan nodes 0 m [] = None"
proof -
  have "validateManagementInterposition field (sort_management m) = None \<longleftrightarrow> validateManagementInterposition field m = None" for field
    by (cases "mg_interposition m")
      (auto simp: validateManagementInterposition_def sort_management_def sort_interposition_def list_ex_iff split: option.splits)
  then show ?thesis by (simp add: check_management_plan_def Let_def) (simp add: sort_management_def)
qed

lemma case_map_option: "(case map_option g x of None \<Rightarrow> d | Some y \<Rightarrow> h y) = (case x of None \<Rightarrow> d | Some y \<Rightarrow> h (g y))"
  by (cases x) simp_all

text \<open>Acceptance of a plan, element by element.\<close>

definition distinct_ids :: "plan \<Rightarrow> bool" where
  "distinct_ids p \<longleftrightarrow> distinct (map np_id (pn_nodes p)) \<and>
     (distinct (map cp_id (pn_containers p)) \<and> distinct (map cp_runtime_id (pn_containers p))) \<and>
     distinct (map fp_id (pn_files p)) \<and> distinct (map vp_id (pn_volumes p)) \<and> distinct (map mt_id (pn_mounts p)) \<and>
     (distinct (map mg_node_id (pn_management p)) \<and> distinct (map mg_id (pn_management p))) \<and>
     distinct (map ifp_id (pn_interfaces p)) \<and> distinct (map ac_id (pn_actions p))"

definition plan_header_ok :: "plan \<Rightarrow> bool" where
  "plan_header_ok p \<longleftrightarrow> validateHeader (pn_schema_version p) (pn_compatibility p) = None \<and> validDigest (pn_input_digest p) \<and>
     pl_name (pn_planner p) \<noteq> '''' \<and> pl_revision (pn_planner p) \<noteq> '''' \<and> pn_nodes p \<noteq> [] \<and> pn_containers p \<noteq> []"

definition elements_ok :: "plan \<Rightarrow> bool" where
  "elements_ok p \<longleftrightarrow> (let nodes = map np_id (pn_nodes p) in
     (\<forall>n \<in> set (pn_nodes p). check_node_plan 0 n [] = None \<and> check_node_containers (pn_containers p) 0 n [] = None) \<and>
     (\<forall>c \<in> set (pn_containers p). check_container nodes 0 c [] = None \<and> check_namespace_owner (pn_containers p) 0 c [] = None \<and>
        check_container_mounts (pn_mounts p) 0 c [] = None) \<and>
     (\<forall>f \<in> set (pn_files p). check_file nodes 0 f [] = None) \<and>
     (\<forall>v \<in> set (pn_volumes p). check_volume nodes 0 v [] = None) \<and>
     (\<forall>m \<in> set (pn_mounts p). check_mount (pn_containers p) (pn_volumes p) 0 m [] = None) \<and>
     (\<forall>m \<in> set (pn_management p). check_management_plan nodes 0 m [] = None) \<and>
     (\<forall>i \<in> set (pn_interfaces p). check_interface_plan nodes (pn_containers p) 0 i [] = None) \<and>
     (\<forall>a \<in> set (pn_actions p). check_action p 0 a [] = None))"

lemma validatePlan_None: "validatePlan p = None \<longleftrightarrow> plan_header_ok p \<and> distinct_ids p \<and> elements_ok p"
  unfolding validatePlan_def plan_header_ok_def distinct_ids_def elements_ok_def Let_def
    node_plan_check.each container_check.each namespace_owner_check.each node_containers_check.each file_check.each
    volume_check.each mount_check.each container_mounts_check.each management_plan_check.each interface_plan_check.each
    action_check.each first_error_Cons first_error.simps(1) guard_None de_Morgan_disj
    sorted_wrt_keys sorted_wrt_two_keys not_False_eq_True simp_thms ball_conj_distrib
  by (simp only: sorted_wrt_True simp_thms conj_ac)

lemma distinct_ids_sorted: "distinct_ids (sort_plan p) = distinct_ids p"
  by (simp add: distinct_ids_def comp_def)

lemma payload_verdict_sorted:
  assumes "distinct_ids p"
  shows "payload_verdict (sort_plan p) a = payload_verdict p a"
proof -
  note ids = assms [unfolded distinct_ids_def]
  have finds:
    "find_by fp_id (pn_files (sort_plan p)) k = map_option sort_file (find_by fp_id (pn_files p) k)"
    "find_by mt_id (pn_mounts (sort_plan p)) k = find_by mt_id (pn_mounts p) k"
    "find_by vp_id (pn_volumes (sort_plan p)) k = find_by vp_id (pn_volumes p) k"
    "find_by ifp_id (pn_interfaces (sort_plan p)) k = find_by ifp_id (pn_interfaces p) k"
    "find_by mg_id (pn_management (sort_plan p)) k = map_option sort_management (find_by mg_id (pn_management p) k)" for k
    using ids by (simp_all add: find_by_sorted find_by_sort)
  show ?thesis unfolding payload_verdict_def finds Let_def case_map_option
    by (simp only: sort_fields option.map_disc_iff)
qed

lemma elements_ok_sorted:
  assumes "distinct_ids p"
  shows "elements_ok (sort_plan p) = elements_ok p"
proof -
  note ids = assms [unfolded distinct_ids_def]
  have containers: "find_by cp_id (pn_containers (sort_plan p)) k = map_option sort_container (find_by cp_id (pn_containers p) k)" for k
    using ids by (simp add: find_by_sorted)
  have known: "set (map np_id (pn_nodes (sort_plan p))) = set (map np_id (pn_nodes p))" by (simp add: image_image)
  have "check_node_containers (pn_containers (sort_plan p)) 0 (sort_node_plan n) [] = None \<longleftrightarrow> check_node_containers (pn_containers p) 0 n [] = None" for n
    unfolding check_node_containers_def first_error_Cons guard_None containers case_map_option sort_fields
    by (simp add: sort_node_plan_def list_ex_iff)
  moreover have "check_namespace_owner (pn_containers (sort_plan p)) 0 (sort_container c) [] = None \<longleftrightarrow>
      check_namespace_owner (pn_containers p) 0 c [] = None" for c
    unfolding check_namespace_owner_def guard_None containers by simp
  moreover have "check_container_mounts (pn_mounts (sort_plan p)) 0 (sort_container c) [] = None \<longleftrightarrow>
      check_container_mounts (pn_mounts p) 0 c [] = None" for c
    unfolding check_container_mounts_def sort_fields using ids by (simp add: find_by_sort list_ex_iff)
  moreover have "check_container (map np_id (pn_nodes (sort_plan p))) 0 c [] = None \<longleftrightarrow> check_container (map np_id (pn_nodes p)) 0 c [] = None"
    "check_file (map np_id (pn_nodes (sort_plan p))) 0 f [] = None \<longleftrightarrow> check_file (map np_id (pn_nodes p)) 0 f [] = None"
    "check_volume (map np_id (pn_nodes (sort_plan p))) 0 v [] = None \<longleftrightarrow> check_volume (map np_id (pn_nodes p)) 0 v [] = None"
    "check_management_plan (map np_id (pn_nodes (sort_plan p))) 0 m [] = None \<longleftrightarrow> check_management_plan (map np_id (pn_nodes p)) 0 m [] = None"
    for c f v m
    unfolding check_container_def check_file_def check_volume_def check_management_plan_def known by simp_all
  moreover have "check_mount (pn_containers (sort_plan p)) (pn_volumes (sort_plan p)) 0 m [] = None \<longleftrightarrow>
      check_mount (pn_containers p) (pn_volumes p) 0 m [] = None" for m
    unfolding check_mount_def Let_def containers using ids by (simp add: find_by_sort)
  moreover have "check_interface_plan (map np_id (pn_nodes (sort_plan p))) (pn_containers (sort_plan p)) 0 i [] = None \<longleftrightarrow>
      check_interface_plan (map np_id (pn_nodes p)) (pn_containers p) 0 i [] = None" for i
    unfolding check_interface_plan_def Let_def containers known by simp
  moreover have "check_action (sort_plan p) 0 a [] = None \<longleftrightarrow> check_action p 0 a [] = None" for a
    unfolding check_action_def Let_def containers known first_error_Cons payload_field payload_verdict_sorted [OF assms] by simp
  ultimately show ?thesis
    unfolding elements_ok_def Let_def
    by (simp only: sort_plan_fields(5-12) set_map set_sort ball_simps(9) image_iff
        check_node_plan_sorted check_container_sorted check_file_sorted check_management_sorted)
qed

lemma sort_key_Nil_iff [simp]: "sort_key k xs = [] \<longleftrightarrow> xs = []"
  by (metis length_0_conv length_sort)

lemma validatePlan_sorted: "validatePlan (sort_plan p) = None \<longleftrightarrow> validatePlan p = None"
  using elements_ok_sorted [of p] by (auto simp: validatePlan_None distinct_ids_sorted plan_header_ok_def)

section \<open>Normal forms\<close>

lemma sort_key_sorted: "sorted (map k xs) \<Longrightarrow> sort_key k xs = xs"
  by (induction xs) (auto simp: insort_is_Cons)

lemma sort_key_idem [simp]: "sort_key k (sort_key k xs) = sort_key k xs"
  by (rule sort_key_sorted) simp

lemma sort_map_idem:
  assumes "\<And>x. k (g x) = k x" "\<And>x. g (g x) = g x"
  shows "map g (sort_key k (map g (sort_key k xs))) = map g (sort_key k xs)"
proof -
  have "sort_key k (map g (sort_key k xs)) = map g (sort_key k xs)"
    using assms(1) by (intro sort_key_sorted) (simp add: comp_def)
  then show ?thesis using assms(2) by simp
qed

lemma sort_elements_idem:
  "sort_node_plan (sort_node_plan n) = sort_node_plan n" "sort_container (sort_container c) = sort_container c"
  "sort_file (sort_file f) = sort_file f" "sort_management (sort_management m) = sort_management m"
  by (simp_all add: sort_node_plan_def sort_container_def sort_security_def sort_file_def sort_management_def
      option.map_comp comp_def) (simp add: sort_interposition_def [abs_def])

lemma sort_plan_idem: "sort_plan (sort_plan p) = sort_plan p"
  by (rule plan.equality) (simp_all add: sort_map_idem sort_elements_idem)

lemma default_plan_fields [simp]:
  "pn_schema_version (default_plan p) = pn_schema_version p" "pn_compatibility (default_plan p) = pn_compatibility p"
  "pn_input_digest (default_plan p) = pn_input_digest p" "pn_planner (default_plan p) = pn_planner p"
  "pn_nodes (default_plan p) = pn_nodes p" "pn_containers (default_plan p) = map default_container (pn_containers p)"
  "pn_files (default_plan p) = map default_file (pn_files p)" "pn_volumes (default_plan p) = pn_volumes p"
  "pn_mounts (default_plan p) = pn_mounts p" "pn_actions (default_plan p) = pn_actions p"
  "pn_management (default_plan p) = pn_management p" "pn_interfaces (default_plan p) = pn_interfaces p"
  by (simp_all add: default_plan_def)

lemma default_plan_id:
  assumes "\<forall>c \<in> set (pn_containers p). cp_runtime_id c \<noteq> ''''" "\<forall>f \<in> set (pn_files p). fp_artifact_kind f \<noteq> ''''"
  shows "default_plan p = p"
  using assms by (intro plan.equality) (auto simp: default_container_def default_file_def intro!: map_idI)

lemma valid_runtime_id: "validatePlan p = None \<Longrightarrow> c \<in> set (pn_containers p) \<Longrightarrow> cp_runtime_id c \<noteq> ''''"
  by (auto simp: validatePlan_None elements_ok_def check_container_def Let_def)

lemma NormalizePlan_Inr:
  "NormalizePlan p = Inr q \<longleftrightarrow> validatePlan (default_plan p) = None \<and> q = sort_plan (default_plan p)"
  by (auto simp: NormalizePlan_def Let_def split: option.splits)

lemma default_sorted:
  assumes "validatePlan (default_plan p) = None"
  shows "default_plan (sort_plan (default_plan p)) = sort_plan (default_plan p)"
proof (rule default_plan_id)
  show "\<forall>c \<in> set (pn_containers (sort_plan (default_plan p))). cp_runtime_id c \<noteq> ''''"
    using valid_runtime_id [OF assms] by simp
  show "\<forall>f \<in> set (pn_files (sort_plan (default_plan p))). fp_artifact_kind f \<noteq> ''''"
    by (auto simp: default_file_def ArtifactRegular_def split: if_splits)
qed

lemma NormalizePlan_fixed: "NormalizePlan p = Inr q \<Longrightarrow> NormalizePlan q = Inr q"
  by (simp add: NormalizePlan_Inr default_sorted validatePlan_sorted sort_plan_idem)

lemma NormalizePlan_valid: "NormalizePlan p = Inr q \<Longrightarrow> validatePlan q = None"
  by (simp add: NormalizePlan_Inr validatePlan_sorted)

lemma NormalizePlan_self: "NormalizePlan q = Inr q \<longleftrightarrow> validatePlan q = None \<and> default_plan q = q \<and> sort_plan q = q"
proof
  assume self: "NormalizePlan q = Inr q"
  then have valid: "validatePlan (default_plan q) = None" "q = sort_plan (default_plan q)" by (auto simp: NormalizePlan_Inr)
  have "default_plan q = q" using default_sorted [OF valid(1)] valid(2) by simp
  with valid show "validatePlan q = None \<and> default_plan q = q \<and> sort_plan q = q" by simp
qed (simp add: NormalizePlan_Inr)

section \<open>No read through a nil payload\<close>

lemma guard_Some: "guard b e = Some e' \<longleftrightarrow> b \<and> e' = e"
  by (auto simp: guard_def)

lemma first_error_Some: "first_error (c # cs) = Some e \<longleftrightarrow> c = Some e \<or> c = None \<and> first_error cs = Some e"
  by (simp add: first_error.simps(2) split: option.splits)

lemma check_each_Some: "check_each check index earlier xs = Some e \<Longrightarrow> \<exists>i x ys. x \<in> set xs \<and> check i x ys = Some e"
  by (induction xs arbitrary: index earlier) (fastforce split: option.splits)+

lemma no_nil_each: "(\<And>i x ys. x \<in> set xs \<Longrightarrow> check i x ys \<noteq> Some NilDereference) \<Longrightarrow> check_each check index earlier xs \<noteq> Some NilDereference"
  using check_each_Some by fast

lemma no_nil_key_values [simp]: "validateUniqueKeyValues kvs field \<noteq> Some NilDereference"
  unfolding validateUniqueKeyValues_def by (rule no_nil_each) (simp add: guard_Some)

lemma no_nil_checks [simp]:
  "validateHeader schema identity \<noteq> Some NilDereference" "check_node_plan i n ns \<noteq> Some NilDereference"
  "check_namespace_owner cs i c es \<noteq> Some NilDereference" "check_node_containers cs i n ns \<noteq> Some NilDereference"
  "check_volume nodes i v vs \<noteq> Some NilDereference" "check_mount cs vs i m ms \<noteq> Some NilDereference"
  "check_container_mounts ms i c es \<noteq> Some NilDereference" "check_interface_plan nodes cs i intf is \<noteq> Some NilDereference"
  "validateManagementMesh field mesh \<noteq> Some NilDereference"
  by (simp_all add: validateHeader_def check_node_plan_def check_namespace_owner_def check_node_containers_def check_volume_def
      check_mount_def check_container_mounts_def check_interface_plan_def validateManagementMesh_def Let_def first_error_Some guard_Some)

lemma no_nil_nested [simp]:
  "check_container nodes i c cs \<noteq> Some NilDereference" "check_file nodes i f fs \<noteq> Some NilDereference"
  "check_management_plan nodes i m ms \<noteq> Some NilDereference"
proof -
  have "check_each (check_container_port field) 0 [] ports \<noteq> Some NilDereference" for field ports
    by (rule no_nil_each) (simp add: check_container_port_def Let_def first_error_Some guard_Some)
  then show "check_container nodes i c cs \<noteq> Some NilDereference"
    by (simp add: check_container_def Let_def first_error_Some guard_Some)
  have "check_each (check_attribute field) 0 [] as \<noteq> Some NilDereference" for field as
    by (rule no_nil_each) (simp add: check_attribute_def guard_Some)
  then show "check_file nodes i f fs \<noteq> Some NilDereference"
    by (simp add: check_file_def Let_def first_error_Some guard_Some)
  have "validateManagementInterposition field m \<noteq> Some NilDereference" for field
    by (auto simp: validateManagementInterposition_def first_error_Some guard_Some split: option.splits)
  then show "check_management_plan nodes i m ms \<noteq> Some NilDereference"
    by (simp add: check_management_plan_def Let_def first_error_Some guard_Some)
qed

lemma ids_nonempty:
  "check_file nodes 0 f [] = None \<Longrightarrow> fp_id f \<noteq> ''''" "check_mount cs vs 0 m [] = None \<Longrightarrow> mt_id m \<noteq> ''''"
  "check_interface_plan nodes cs 0 i [] = None \<Longrightarrow> ifp_id i \<noteq> ''''"
  by (simp_all add: check_file_def check_mount_def check_interface_plan_def Let_def)

lemma loop_ids_nonempty:
  "check_each (check_file nodes) 0 [] fs = None \<Longrightarrow> '''' \<notin> fp_id ` set fs"
  "check_each (check_mount cs vs) 0 [] ms = None \<Longrightarrow> '''' \<notin> mt_id ` set ms"
  "check_each (check_interface_plan nodes cs) 0 [] is = None \<Longrightarrow> '''' \<notin> ifp_id ` set is"
  unfolding seen_iff file_check.each mount_check.each interface_plan_check.each by (blast dest: ids_nonempty)+

lemmas no_nil_loops =
  no_nil_each [OF no_nil_checks(2)] no_nil_each [OF no_nil_checks(3)] no_nil_each [OF no_nil_checks(4)]
  no_nil_each [OF no_nil_checks(5)] no_nil_each [OF no_nil_checks(6)] no_nil_each [OF no_nil_checks(7)]
  no_nil_each [OF no_nil_checks(8)] no_nil_each [OF no_nil_nested(1)] no_nil_each [OF no_nil_nested(2)]
  no_nil_each [OF no_nil_nested(3)]

lemma payload_not_nil:
  assumes "'''' \<notin> fp_id ` set (pn_files p)" "'''' \<notin> mt_id ` set (pn_mounts p)" "'''' \<notin> ifp_id ` set (pn_interfaces p)"
  shows "payload_verdict p a \<noteq> NilPayload"
proof -
  have "find_by fp_id (pn_files p) '''' = None" "find_by mt_id (pn_mounts p) '''' = None" "find_by ifp_id (pn_interfaces p) '''' = None"
    using assms by (simp_all add: find_by_None)
  moreover have branches: "x \<noteq> v \<Longrightarrow> y \<noteq> v \<Longrightarrow> (if b then x else y) \<noteq> v" for b and x y v :: verdict by simp
  ultimately show ?thesis
    unfolding payload_verdict_def Let_def valueOrEmpty_def by (intro branches) (auto split: option.splits)
qed

lemma no_nil_action:
  assumes "payload_verdict p a \<noteq> NilPayload"
  shows "check_action p i a as \<noteq> Some NilDereference"
  using assms by (auto simp: check_action_def Let_def first_error_Some guard_Some validateActionPayload_def split: verdict.splits if_splits)

text \<open>
  C37: validation does not panic. Whatever a plan holds, every payload of an action is present where the
  validator reads through it: identifiers are non-empty by the time actions are checked, so the lookup
  with the empty identifier of an absent payload fails first.
\<close>

theorem plan_validation_total: "NormalizePlan p \<noteq> Inl NilDereference"
proof -
  have "validatePlan q \<noteq> Some NilDereference" for q
  proof
    assume "validatePlan q = Some NilDereference"
    then have reached: "check_each (check_file (map np_id (pn_nodes q))) 0 [] (pn_files q) = None \<and>
        check_each (check_mount (pn_containers q) (pn_volumes q)) 0 [] (pn_mounts q) = None \<and>
        check_each (check_interface_plan (map np_id (pn_nodes q)) (pn_containers q)) 0 [] (pn_interfaces q) = None \<and>
        check_each (check_action q) 0 [] (pn_actions q) = Some NilDereference"
      unfolding validatePlan_def Let_def first_error_Some guard_Some by (simp add: no_nil_loops)
    then have "'''' \<notin> fp_id ` set (pn_files q)" "'''' \<notin> mt_id ` set (pn_mounts q)" "'''' \<notin> ifp_id ` set (pn_interfaces q)"
      by (blast dest: loop_ids_nonempty)+
    from no_nil_action [OF payload_not_nil [OF this]] reached no_nil_each show False by blast
  qed
  then show ?thesis by (auto simp: NormalizePlan_def Let_def split: option.splits)
qed

section \<open>Plans up to order\<close>

text \<open>
  What a plan means: its set-like fields as multisets, next to the plan without them.
\<close>

definition node_view :: "node_plan \<Rightarrow> node_plan \<times> string multiset \<times> string multiset" where
  "node_view n = (n\<lparr> np_readiness_container_ids := [], np_aliases := [] \<rparr>, mset (np_readiness_container_ids n), mset (np_aliases n))"

definition security_view :: "security_plan \<Rightarrow> security_plan \<times> string multiset \<times> string multiset \<times> device multiset \<times> key_value multiset" where
  "security_view s =
     (s\<lparr> sec_capabilities_add := [], sec_capabilities_drop := [], sec_devices := [], sec_sysctls := [] \<rparr>,
      mset (sec_capabilities_add s), mset (sec_capabilities_drop s), mset (sec_devices s), mset (sec_sysctls s))"

definition container_view :: "container_plan \<Rightarrow> container_plan \<times>
    (string multiset \<times> key_value multiset \<times> key_value multiset \<times> port multiset) \<times>
    string multiset \<times> string multiset \<times> device multiset \<times> key_value multiset" where
  "container_view c =
     (c\<lparr> cp_mount_ids := [], cp_security := fst (security_view (cp_security c)), cp_environment := [], cp_labels := [], cp_ports := [] \<rparr>,
      (mset (cp_mount_ids c), mset (cp_environment c), mset (cp_labels c), mset (cp_ports c)), snd (security_view (cp_security c)))"

definition file_view :: "file_plan \<Rightarrow> file_plan \<times> key_value multiset \<times> extended_attribute multiset" where
  "file_view f = (f\<lparr> fp_variables := [], fp_extended_attributes := [] \<rparr>, mset (fp_variables f), mset (fp_extended_attributes f))"

definition interposition_view :: "management_interposition \<Rightarrow> management_interposition \<times> string multiset \<times> management_port_map multiset" where
  "interposition_view c =
     (c\<lparr> ip_transport_cidrs := [], ip_inbound_ports := [] \<rparr>, mset (ip_transport_cidrs c), mset (ip_inbound_ports c))"

definition management_view :: "management_plan \<Rightarrow> management_plan \<times> route multiset \<times>
    (management_interposition \<times> string multiset \<times> management_port_map multiset) option" where
  "management_view m =
     (m\<lparr> mg_routes := [], mg_interposition := None \<rparr>, mset (mg_routes m), map_option interposition_view (mg_interposition m))"

definition same_plan :: "plan \<Rightarrow> plan \<Rightarrow> bool" where
  "same_plan p q \<longleftrightarrow>
     pn_schema_version p = pn_schema_version q \<and> pn_compatibility p = pn_compatibility q \<and>
     pn_input_digest p = pn_input_digest q \<and> pn_planner p = pn_planner q \<and>
     image_mset node_view (mset (pn_nodes p)) = image_mset node_view (mset (pn_nodes q)) \<and>
     image_mset container_view (mset (pn_containers p)) = image_mset container_view (mset (pn_containers q)) \<and>
     image_mset file_view (mset (pn_files p)) = image_mset file_view (mset (pn_files q)) \<and>
     mset (pn_volumes p) = mset (pn_volumes q) \<and> mset (pn_mounts p) = mset (pn_mounts q) \<and>
     mset (pn_actions p) = mset (pn_actions q) \<and>
     image_mset management_view (mset (pn_management p)) = image_mset management_view (mset (pn_management q)) \<and>
     mset (pn_interfaces p) = mset (pn_interfaces q)"

text \<open>Two fields are sorted by a part of their elements only.\<close>

definition unambiguous :: "plan \<Rightarrow> bool" where
  "unambiguous p \<longleftrightarrow>
     (\<forall>c \<in> set (pn_containers p). distinct (map compareDevice (sec_devices (cp_security c)))) \<and>
     (\<forall>m \<in> set (pn_management p). case mg_interposition m of
        None \<Rightarrow> True | Some contract \<Rightarrow> distinct (map comparePortMap (ip_inbound_ports contract)))"

lemma sort_perm: "mset xs = mset ys \<Longrightarrow> sort xs = sort ys"
  by (rule sort_key_perm) simp_all

lemma sort_key_distinct: "mset xs = mset ys \<Longrightarrow> distinct (map k xs) \<Longrightarrow> sort_key k xs = sort_key k ys"
  by (rule sort_key_perm) (simp_all add: distinct_map)

lemma total_keys: "inj comparePort" "inj compareRoute"
  by (auto intro!: injI simp: comparePort_def compareRoute_def)

lemma sort_total: "mset xs = mset ys \<Longrightarrow> inj k \<Longrightarrow> sort_key k xs = sort_key k ys"
  by (rule sort_key_perm) (auto intro: inj_on_subset)

lemma view_node:
  assumes "node_view a = node_view b"
  shows "sort_node_plan a = sort_node_plan b"
proof -
  have fill: "sort_node_plan n = (fst (node_view n))\<lparr> np_readiness_container_ids := sort (np_readiness_container_ids n),
      np_aliases := sort (np_aliases n) \<rparr>" for n
    by (simp add: sort_node_plan_def node_view_def)
  have same: "mset (np_readiness_container_ids a) = mset (np_readiness_container_ids b)" "mset (np_aliases a) = mset (np_aliases b)"
    using assms by (simp_all add: node_view_def)
  show ?thesis unfolding fill assms sort_perm [OF same(1)] sort_perm [OF same(2)] ..
qed

lemma view_container:
  assumes "container_view a = container_view b"
    and "distinct (map kv_name (cp_environment a))" "distinct (map kv_name (cp_labels a))"
    and "distinct (map kv_name (sec_sysctls (cp_security a)))" "distinct (map compareDevice (sec_devices (cp_security a)))"
  shows "sort_container a = sort_container b"
proof -
  have fill: "sort_container c = (fst (container_view c))\<lparr> cp_mount_ids := sort (cp_mount_ids c),
      cp_security := (cp_security (fst (container_view c)))\<lparr> sec_capabilities_add := sort (sec_capabilities_add (cp_security c)),
        sec_capabilities_drop := sort (sec_capabilities_drop (cp_security c)),
        sec_devices := sort_key compareDevice (sec_devices (cp_security c)), sec_sysctls := sort_key kv_name (sec_sysctls (cp_security c)) \<rparr>,
      cp_environment := sort_key kv_name (cp_environment c), cp_labels := sort_key kv_name (cp_labels c),
      cp_ports := sort_key comparePort (cp_ports c) \<rparr>" for c
    by (simp add: sort_container_def sort_security_def container_view_def security_view_def)
  have parts: "mset (cp_mount_ids c) = fst (fst (snd (container_view c)))" "mset (cp_environment c) = fst (snd (fst (snd (container_view c))))"
    "mset (cp_labels c) = fst (snd (snd (fst (snd (container_view c)))))" "mset (cp_ports c) = snd (snd (snd (fst (snd (container_view c)))))"
    "mset (sec_capabilities_add (cp_security c)) = fst (snd (snd (container_view c)))"
    "mset (sec_capabilities_drop (cp_security c)) = fst (snd (snd (snd (container_view c))))"
    "mset (sec_devices (cp_security c)) = fst (snd (snd (snd (snd (container_view c)))))"
    "mset (sec_sysctls (cp_security c)) = snd (snd (snd (snd (snd (container_view c)))))" for c
    by (simp_all add: container_view_def security_view_def)
  have same: "mset (cp_mount_ids a) = mset (cp_mount_ids b)" "mset (cp_environment a) = mset (cp_environment b)"
    "mset (cp_labels a) = mset (cp_labels b)" "mset (cp_ports a) = mset (cp_ports b)"
    "mset (sec_capabilities_add (cp_security a)) = mset (sec_capabilities_add (cp_security b))"
    "mset (sec_capabilities_drop (cp_security a)) = mset (sec_capabilities_drop (cp_security b))"
    "mset (sec_devices (cp_security a)) = mset (sec_devices (cp_security b))"
    "mset (sec_sysctls (cp_security a)) = mset (sec_sysctls (cp_security b))"
    by (simp_all only: parts assms(1))
  note sorted = sort_perm [OF same(1)] sort_key_distinct [OF same(2) assms(2)] sort_key_distinct [OF same(3) assms(3)]
    sort_total [OF same(4) total_keys(1)] sort_perm [OF same(5)] sort_perm [OF same(6)]
    sort_key_distinct [OF same(7) assms(5)] sort_key_distinct [OF same(8) assms(4)]
  show ?thesis unfolding fill assms(1) sorted ..
qed

lemma view_file:
  assumes "file_view a = file_view b" "distinct (map kv_name (fp_variables a))" "distinct (map xa_name (fp_extended_attributes a))"
  shows "sort_file a = sort_file b"
proof -
  have fill: "sort_file f = (fst (file_view f))\<lparr> fp_variables := sort_key kv_name (fp_variables f),
      fp_extended_attributes := sort_key xa_name (fp_extended_attributes f) \<rparr>" for f
    by (simp add: sort_file_def file_view_def)
  have same: "mset (fp_variables a) = mset (fp_variables b)" "mset (fp_extended_attributes a) = mset (fp_extended_attributes b)"
    using assms(1) by (simp_all add: file_view_def)
  show ?thesis unfolding fill assms(1) sort_key_distinct [OF same(1) assms(2)] sort_key_distinct [OF same(2) assms(3)] ..
qed

lemma view_interposition:
  assumes "interposition_view a = interposition_view b" "distinct (map comparePortMap (ip_inbound_ports a))"
  shows "sort_interposition a = sort_interposition b"
proof -
  have fill: "sort_interposition c = (fst (interposition_view c))\<lparr> ip_transport_cidrs := sort (ip_transport_cidrs c),
      ip_inbound_ports := sort_key comparePortMap (ip_inbound_ports c) \<rparr>" for c
    by (simp add: sort_interposition_def interposition_view_def)
  have same: "mset (ip_transport_cidrs a) = mset (ip_transport_cidrs b)" "mset (ip_inbound_ports a) = mset (ip_inbound_ports b)"
    using assms(1) by (simp_all add: interposition_view_def)
  show ?thesis unfolding fill assms(1) sort_perm [OF same(1)] sort_key_distinct [OF same(2) assms(2)] ..
qed

lemma view_management:
  assumes "management_view a = management_view b"
    and "\<And>contract. mg_interposition a = Some contract \<Longrightarrow> distinct (map comparePortMap (ip_inbound_ports contract))"
  shows "sort_management a = sort_management b"
proof -
  have fill: "sort_management m = (fst (management_view m))\<lparr> mg_routes := sort_key compareRoute (mg_routes m),
      mg_interposition := map_option sort_interposition (mg_interposition m) \<rparr>" for m
    by (simp add: sort_management_def management_view_def)
  have parts: "mset (mg_routes m) = fst (snd (management_view m))"
    "map_option interposition_view (mg_interposition m) = snd (snd (management_view m))" for m
    by (simp_all add: management_view_def)
  have contracts: "map_option interposition_view (mg_interposition a) = map_option interposition_view (mg_interposition b)"
    and same: "mset (mg_routes a) = mset (mg_routes b)" by (simp_all only: parts assms(1))
  note routes = sort_total [OF same total_keys(2)]
  have "map_option sort_interposition (mg_interposition a) = map_option sort_interposition (mg_interposition b)"
  proof (cases "mg_interposition a")
    case None
    then show ?thesis using contracts by simp
  next
    case (Some x)
    with contracts obtain y where y: "mg_interposition b = Some y" "interposition_view x = interposition_view y"
      by (cases "mg_interposition b") auto
    from view_interposition [OF y(2) assms(2) [OF Some]] show ?thesis by (simp add: Some y(1))
  qed
  then show ?thesis unfolding fill assms(1) routes by simp
qed

lemma image_views:
  assumes "image_mset v A = image_mset v B" "\<And>a b. a \<in># A \<Longrightarrow> b \<in># B \<Longrightarrow> v a = v b \<Longrightarrow> g a = g b"
  shows "image_mset g A = image_mset g B"
  using assms
proof (induction A arbitrary: B)
  case empty
  then show ?case by simp
next
  case (add x A)
  from add.prems(1) have "v x \<in># image_mset v B" by (metis image_mset_add_mset union_single_eq_member)
  then obtain y where y: "y \<in># B" "v y = v x" by auto
  then obtain B' where B': "B = add_mset y B'" by (metis insert_DiffM)
  have "image_mset g A = image_mset g B'" using add.prems y by (intro add.IH) (simp_all add: B')
  moreover have "g x = g y" using add.prems(2) [of x y] y by simp
  ultimately show ?case by (simp add: B')
qed

lemma map_sort_key:
  assumes "\<And>x. k (g x) = k x"
  shows "map g (sort_key k xs) = sort_key k (map g xs)"
proof -
  have "map g (insort_key k x xs) = insort_key k (g x) (map g xs)" for x xs
    by (induction xs) (simp_all add: assms)
  then show ?thesis by (induction xs) simp_all
qed

lemma sorted_views:
  assumes "image_mset v (mset xs) = image_mset v (mset ys)" "\<And>x. k (g x) = k x" "distinct (map k xs)"
    and "\<And>a b. a \<in> set xs \<Longrightarrow> v a = v b \<Longrightarrow> g a = g b"
  shows "map g (sort_key k xs) = map g (sort_key k ys)"
proof -
  have same: "mset (map g xs) = mset (map g ys)"
    unfolding mset_map by (rule image_views [OF assms(1)]) (use assms(4) in simp)
  have "distinct (map k (map g xs))" using assms(2,3) by (simp add: comp_def)
  from sort_key_distinct [OF same this] show ?thesis by (simp add: map_sort_key assms(2))
qed

lemma sort_plan_view:
  assumes same: "same_plan p q" and valid: "validatePlan p = None" and devices: "unambiguous p"
  shows "sort_plan p = sort_plan q"
proof -
  have ids: "distinct_ids p" and ok: "elements_ok p" using valid by (simp_all add: validatePlan_None)
  note ids = ids [unfolded distinct_ids_def] and ok = ok [unfolded elements_ok_def Let_def]
  have nodes: "pn_nodes (sort_plan p) = pn_nodes (sort_plan q)"
    unfolding sort_plan_fields
    by (rule sorted_views [OF _ _ _ view_node]) (use same ids in \<open>simp_all add: same_plan_def\<close>)
  have containers: "pn_containers (sort_plan p) = pn_containers (sort_plan q)"
    unfolding sort_plan_fields
  proof (rule sorted_views [of container_view])
    fix a b assume a: "a \<in> set (pn_containers p)" and view: "container_view a = container_view b"
    have "check_container (map np_id (pn_nodes p)) 0 a [] = None" using ok a by simp
    then have "distinct (map kv_name (cp_environment a))" "distinct (map kv_name (cp_labels a))" "distinct (map kv_name (sec_sysctls (cp_security a)))"
      by (simp_all add: check_container_def Let_def)
    moreover have "distinct (map compareDevice (sec_devices (cp_security a)))" using devices a by (simp add: unambiguous_def)
    ultimately show "sort_container a = sort_container b" by (rule view_container [OF view])
  qed (use same ids in \<open>simp_all add: same_plan_def\<close>)
  have files: "pn_files (sort_plan p) = pn_files (sort_plan q)"
    unfolding sort_plan_fields
  proof (rule sorted_views [of file_view])
    fix a b assume a: "a \<in> set (pn_files p)" and view: "file_view a = file_view b"
    have "check_file (map np_id (pn_nodes p)) 0 a [] = None" using ok a by simp
    then have "distinct (map kv_name (fp_variables a))" "distinct (map xa_name (fp_extended_attributes a))"
      by (simp_all add: check_file_def Let_def attributes_None)
    then show "sort_file a = sort_file b" by (rule view_file [OF view])
  qed (use same ids in \<open>simp_all add: same_plan_def\<close>)
  have management: "pn_management (sort_plan p) = pn_management (sort_plan q)"
    unfolding sort_plan_fields
  proof (rule sorted_views [of management_view])
    fix a b assume a: "a \<in> set (pn_management p)" and view: "management_view a = management_view b"
    show "sort_management a = sort_management b"
      by (rule view_management [OF view]) (use devices a in \<open>force simp: unambiguous_def split: option.splits\<close>)
  qed (use same ids in \<open>simp_all add: same_plan_def\<close>)
  have "inj_on compareAction (set (pn_actions p))"
    using ids by (auto simp: compareAction_def distinct_map intro!: inj_onI dest: inj_onD)
  then have actions: "pn_actions (sort_plan p) = pn_actions (sort_plan q)"
    unfolding sort_plan_fields by (intro sort_key_perm) (use same in \<open>simp_all add: same_plan_def\<close>)
  have rest: "pn_volumes (sort_plan p) = pn_volumes (sort_plan q)" "pn_mounts (sort_plan p) = pn_mounts (sort_plan q)"
    "pn_interfaces (sort_plan p) = pn_interfaces (sort_plan q)"
    unfolding sort_plan_fields by (rule sort_key_distinct, use same ids in \<open>simp_all add: same_plan_def\<close>)+
  show ?thesis
    by (rule plan.equality) (use same nodes containers files management actions rest in \<open>simp_all add: same_plan_def\<close>)
qed

lemma default_views: "container_view (default_container c) = apfst default_container (container_view c)"
  "file_view (default_file f) = apfst default_file (file_view f)"
  by (simp_all add: container_view_def file_view_def default_container_def default_file_def)

lemma same_plan_default: "same_plan p q \<Longrightarrow> same_plan (default_plan p) (default_plan q)"
proof -
  assume same: "same_plan p q"
  have "image_mset container_view (mset (pn_containers (default_plan r))) =
      image_mset (apfst default_container) (image_mset container_view (mset (pn_containers r)))"
    "image_mset file_view (mset (pn_files (default_plan r))) = image_mset (apfst default_file) (image_mset file_view (mset (pn_files r)))" for r
    by (simp_all add: image_mset.compositionality comp_def default_views)
  with same show ?thesis by (simp add: same_plan_def)
qed

lemma unambiguous_default: "unambiguous (default_plan p) = unambiguous p"
proof -
  have "cp_security (default_container c) = cp_security c" for c by (simp add: default_container_def)
  then show ?thesis by (simp add: unambiguous_def)
qed

lemma sorted_view: "node_view (sort_node_plan n) = node_view n" "container_view (sort_container c) = container_view c"
  "file_view (sort_file f) = file_view f" "management_view (sort_management m) = management_view m"
proof -
  have "interposition_view (sort_interposition x) = interposition_view x" for x by (simp add: interposition_view_def sort_interposition_def)
  then show "management_view (sort_management m) = management_view m"
    by (simp add: management_view_def sort_management_def option.map_comp comp_def)
qed (simp_all add: node_view_def sort_node_plan_def container_view_def security_view_def sort_container_def sort_security_def
    file_view_def sort_file_def)

lemma same_plan_sorted: "same_plan p (sort_plan p)"
  by (simp add: same_plan_def image_mset.compositionality comp_def sorted_view)

text \<open>
  C33: normalization computes a normal form. The result means the same as the plan with its defaults filled
  in, normalizing it again changes nothing, and every plan that differs only in the order of its
  set-like fields normalizes to the same value, so to the same canonical JSON and the same digest. The
  last part needs the devices of a container and the port maps of a contract to differ in the fields
  they are sorted by.
\<close>

theorem plan_normal_form:
  assumes "NormalizePlan p = Inr q"
  shows "same_plan (default_plan p) q \<and> NormalizePlan q = Inr q \<and>
    (unambiguous p \<longrightarrow> (\<forall>p'. same_plan p p' \<longrightarrow> NormalizePlan p' = Inr q))"
proof -
  from assms have valid: "validatePlan (default_plan p) = None" and q: "q = sort_plan (default_plan p)"
    by (simp_all add: NormalizePlan_Inr)
  have "NormalizePlan p' = Inr q" if clear: "unambiguous p" and same: "same_plan p p'" for p'
  proof -
    have equal: "sort_plan (default_plan p) = sort_plan (default_plan p')"
      using same_plan_default [OF same] valid clear by (intro sort_plan_view) (simp_all add: unambiguous_default)
    then have "validatePlan (default_plan p') = None"
      using valid validatePlan_sorted [of "default_plan p"] validatePlan_sorted [of "default_plan p'"] by simp
    then show ?thesis by (simp add: NormalizePlan_Inr q equal)
  qed
  then show ?thesis using same_plan_sorted [of "default_plan p"] NormalizePlan_fixed [OF assms] q by blast
qed

section \<open>References\<close>

lemma found_key: "find_by key xs k = Some x \<Longrightarrow> k \<in> key ` set xs"
  by (auto simp: find_by_def dest!: map_of_SomeD)

lemma found_or: "\<not> (case find_by key xs k of None \<Rightarrow> True | Some x \<Rightarrow> R x) \<Longrightarrow> \<exists>x \<in> set xs. key x = k \<and> \<not> R x"
  by (auto simp: find_by_def dest!: map_of_SomeD split: option.splits)

lemma valid_action:
  assumes "validatePlan q = None" "a \<in> set (pn_actions q)"
  shows "at_node_id (ac_target a) \<in> np_id ` set (pn_nodes q)" "payload_count a = 1" "payload_verdict q a = Verdict True"
proof -
  have "check_action q 0 a [] = None" using assms by (simp add: validatePlan_None elements_ok_def Let_def)
  then show "at_node_id (ac_target a) \<in> np_id ` set (pn_nodes q)" "payload_count a = 1" "payload_verdict q a = Verdict True"
    by (simp_all add: check_action_def Let_def payload_field)
qed

lemma valid_payload:
  assumes "validatePlan q = None" "a \<in> set (pn_actions q)"
  shows "ac_kind a = ActionWaitInterface \<Longrightarrow> \<exists>w. ac_wait_interface a = Some w \<and> wa_interface_id w \<in> ifp_id ` set (pn_interfaces q)"
    and "ac_kind a = ActionFile \<Longrightarrow> \<exists>f. ac_file a = Some f \<and> fa_file_id f \<in> fp_id ` set (pn_files q)"
proof -
  have kinds: "ActionWaitInterface \<noteq> ActionExec" "ActionWaitInterface \<noteq> ActionFile" "ActionWaitInterface \<noteq> ActionWriteStdin"
    "ActionWaitInterface \<noteq> ActionMount" "ActionWaitInterface \<noteq> ActionSysctl" "ActionFile \<noteq> ActionExec"
    by (simp_all add: ActionWaitInterface_def ActionExec_def ActionFile_def ActionWriteStdin_def ActionMount_def ActionSysctl_def)
  note verdict = valid_action(3) [OF assms]
  show "\<exists>w. ac_wait_interface a = Some w \<and> wa_interface_id w \<in> ifp_id ` set (pn_interfaces q)" if "ac_kind a = ActionWaitInterface"
    using verdict kinds that
    by (cases "ac_wait_interface a") (auto simp: payload_verdict_def Let_def valueOrEmpty_def dest: found_key split: option.splits)
  show "\<exists>f. ac_file a = Some f \<and> fa_file_id f \<in> fp_id ` set (pn_files q)" if "ac_kind a = ActionFile"
    using verdict kinds that
    by (cases "ac_file a") (auto simp: payload_verdict_def Let_def valueOrEmpty_def dest: found_key split: option.splits)
qed


section \<open>A concrete plan\<close>

definition sample_sha :: string where
  "sample_sha = ''sha256:'' @ replicate 64 CHR ''0''"

definition sample_compatibility :: compatibility where
  "sample_compatibility = \<lparr> cb_containerlab_module = ''containerlab'', cb_containerlab_version = ''v0.60'',
     cb_registry_digest = sample_sha, cb_plan_schema_version = SchemaVersion \<rparr>"

definition sample_security :: "device list \<Rightarrow> security_plan" where
  "sample_security devices = \<lparr> sec_privileged = True, sec_capabilities_add = [], sec_capabilities_drop = [], sec_devices = devices,
     sec_sysctls = [], sec_seccomp_profile = '''', sec_app_armor_profile = '''', sec_read_only_root_fs = False \<rparr>"

definition sample_container :: "device list \<Rightarrow> container_plan" where
  "sample_container devices = \<lparr> cp_id = ''c1'', cp_node_id = ''r1'', cp_runtime_id = '''', cp_component_id = '''', cp_namespace_owner_id = ''c1'',
     cp_image = ''router:1'', cp_image_digest = '''', cp_image_pull_policy = '''', cp_image_pull_policy_explicit = False,
     cp_image_entrypoint = [], cp_image_command = [], cp_entrypoint = [], cp_command = [], cp_environment = [], cp_labels = [],
     cp_user = '''', cp_working_dir = '''', cp_ports = [], cp_stop_signal = '''', cp_restart_policy = '''', cp_startup_delay = 0,
     cp_tty = False, cp_stdin = False, cp_security = sample_security devices,
     cp_resources = \<lparr> res_cpu_request = '''', res_cpu_limit = '''', res_memory_request = '''', res_memory_limit = '''', res_huge_pages = '''', res_cpu_set = '''' \<rparr>,
     cp_dns = no_dns, cp_healthcheck = None, cp_required = True, cp_mount_ids = [] \<rparr>"

definition sample_node_plan :: node_plan where
  "sample_node_plan = \<lparr> np_id = ''r1'', np_name = ''r1'', np_kind = ''linux'', np_group = '''', np_position = '''', np_aliases = [],
     np_container_ids = [''c1''], np_readiness_container_ids = [''c1''], np_primary_container_id = ''c1'', np_enforce_startup_config = False \<rparr>"

definition sample_interface_plan :: "string \<Rightarrow> string \<Rightarrow> int \<Rightarrow> interface_plan" where
  "sample_interface_plan i mode mtu = \<lparr> ifp_id = i, ifp_node_id = ''r1'', ifp_namespace_owner_id = ''c1'', ifp_name = i, ifp_alias = '''',
     ifp_link_id = ''l-'' @ i, ifp_link_name = '''', ifp_peer_node_id = '''', ifp_peer_interface = '''', ifp_peer_transport = '''',
     ifp_connectivity = ''wire'', ifp_wire_id = 7, ifp_mtu = mtu, ifp_link_apply_mode = mode, ifp_required_at_start = False \<rparr>"

definition sample_wait :: "string \<Rightarrow> action" where
  "sample_wait i = \<lparr> ac_id = ''wait-'' @ i, ac_phase = PhasePreStart, ac_order = 0,
     ac_target = \<lparr> at_node_id = ''r1'', at_container_id = ''c1'', at_namespace_owner_id = '''' \<rparr>, ac_kind = ActionWaitInterface,
     ac_exec = None, ac_file = None, ac_write_stdin = None, ac_mount = None, ac_sysctl = None,
     ac_wait_interface = Some \<lparr> wa_interface_id = i, wa_timeout_seconds = 60 \<rparr>, ac_rename_interface = None, ac_management_forwarding = None,
     ac_imported_deploy_endpoints = None, ac_imported_post_deploy = None, ac_imported_readiness = None, ac_save = None \<rparr>"

definition sample_plan :: "device list \<Rightarrow> string \<Rightarrow> interface_plan list \<Rightarrow> plan" where
  "sample_plan devices inputDigest interfaces = \<lparr> pn_schema_version = SchemaVersion, pn_compatibility = sample_compatibility,
     pn_input_digest = inputDigest, pn_planner = \<lparr> pl_name = ''clabernetes'', pl_revision = ''1'' \<rparr>,
     pn_nodes = [sample_node_plan], pn_containers = [sample_container devices], pn_files = [], pn_volumes = [], pn_mounts = [],
     pn_actions = map (\<lambda>i. sample_wait (ifp_id i)) interfaces, pn_management = [], pn_interfaces = interfaces \<rparr>"

lemma sample_plan_valid:
  "validatePlan (default_plan (sample_plan [] sample_sha [sample_interface_plan ''e1'' LinkApplyLive 1500, sample_interface_plan ''e0'' LinkApplyLive 1500])) = None"
  by code_simp

lemma plan_normal_form_witness:
  "\<exists>q. NormalizePlan (sample_plan [] sample_sha [sample_interface_plan ''e1'' LinkApplyLive 1500, sample_interface_plan ''e0'' LinkApplyLive 1500]) = Inr q \<and>
     NormalizePlan (sample_plan [] sample_sha [sample_interface_plan ''e0'' LinkApplyLive 1500, sample_interface_plan ''e1'' LinkApplyLive 1500]) = Inr q"
proof -
  let ?p = "sample_plan [] sample_sha [sample_interface_plan ''e1'' LinkApplyLive 1500, sample_interface_plan ''e0'' LinkApplyLive 1500]"
  have run: "NormalizePlan ?p = Inr (sort_plan (default_plan ?p))" using sample_plan_valid by (simp add: NormalizePlan_Inr)
  have "unambiguous ?p" by (simp add: unambiguous_def sample_plan_def sample_container_def sample_security_def)
  moreover have "same_plan ?p (sample_plan [] sample_sha [sample_interface_plan ''e0'' LinkApplyLive 1500, sample_interface_plan ''e1'' LinkApplyLive 1500])"
    by (simp add: same_plan_def sample_plan_def add_mset_commute)
  ultimately show ?thesis using plan_normal_form [OF run] run by blast
qed


text \<open>
  Two devices at the same paths with different permissions are left in the order they came in, so two
  plans with the same content get two normal forms.
\<close>

definition sample_device :: "string \<Rightarrow> device" where
  "sample_device permissions = \<lparr> dev_host_path = ''/dev/kvm'', dev_container_path = ''/dev/kvm'', dev_permissions = permissions \<rparr>"

theorem device_order_reaches_digest:
  "same_plan (sample_plan [sample_device ''r'', sample_device ''rw''] sample_sha []) (sample_plan [sample_device ''rw'', sample_device ''r''] sample_sha []) \<and>
   (\<exists>q q'. NormalizePlan (sample_plan [sample_device ''r'', sample_device ''rw''] sample_sha []) = Inr q \<and>
      NormalizePlan (sample_plan [sample_device ''rw'', sample_device ''r''] sample_sha []) = Inr q' \<and> q \<noteq> q')"
proof -
  let ?p = "sample_plan [sample_device ''r'', sample_device ''rw''] sample_sha []" and ?q = "sample_plan [sample_device ''rw'', sample_device ''r''] sample_sha []"
  have "validatePlan (default_plan ?p) = None" "validatePlan (default_plan ?q) = None" by code_simp+
  then have "NormalizePlan ?p = Inr (sort_plan (default_plan ?p))" "NormalizePlan ?q = Inr (sort_plan (default_plan ?q))"
    by (simp_all add: NormalizePlan_Inr)
  moreover have "map (\<lambda>c. map dev_permissions (sec_devices (cp_security c))) (pn_containers (sort_plan (default_plan ?p))) \<noteq>
      map (\<lambda>c. map dev_permissions (sec_devices (cp_security c))) (pn_containers (sort_plan (default_plan ?q)))" by code_simp
  moreover have "same_plan ?p ?q"
    by (simp add: same_plan_def sample_plan_def container_view_def security_view_def sample_container_def sample_security_def add_mset_commute)
  ultimately show ?thesis by metis
qed

text \<open>The validator refuses artifact paths below the parent directory, but not the parent directory itself.\<close>

definition sample_file :: "string \<Rightarrow> file_plan" where
  "sample_file path = \<lparr> fp_id = ''f1'', fp_node_id = ''r1'', fp_source_kind = FileSourceGenerator, fp_artifact_kind = ArtifactRegular,
     fp_source_reference = ''startup'', fp_digest = '''', fp_artifact_path = path, fp_link_target = '''', fp_destination = '''', fp_mode = 420,
     fp_uid = None, fp_gid = None, fp_extended_attributes = [], fp_sensitive = False, fp_preserve_existing = False, fp_variables = [] \<rparr>"

theorem parent_artifact_accepted:
  "check_file [''r1''] 0 (sample_file ''..'') [] = None \<and> check_file [''r1''] 0 (sample_file ''../f'') [] \<noteq> None \<and>
   check_file [''r1''] 0 (sample_file ''a/../../f'') [] \<noteq> None"
  by code_simp

end
