(* ===== verification/Plan_Inputs.thy ===== *)
theory Plan_Inputs
  imports Plan_Normal Management_Identities
begin

text \<open>
  Normal forms of planning inputs, canonical JSON and digests of both types, and the interface between
  the management inputs the controller compiles and the validator that receives them.
\<close>

section \<open>Acceptance of an input\<close>

lemma validateInput_None:
  "validateInput compact i = None \<longleftrightarrow>
     validateHeader (in_schema_version i) (in_compatibility i) = None \<and> trim_space (in_topology_name i) \<noteq> '''' \<and>
     (in_entropy_digest i \<noteq> '''' \<longrightarrow> validDigest (in_entropy_digest i)) \<and> in_nodes i \<noteq> [] \<and>
     (\<forall>n \<in> set (in_nodes i). check_input_node compact 0 n [] = None \<and> check_group_owner (map ni_id (in_nodes i)) 0 n [] = None) \<and>
     distinct (map ni_id (in_nodes i)) \<and> distinct (map ni_name (in_nodes i)) \<and>
     (\<forall>x \<in> set (in_images i). check_image (map ni_id (in_nodes i)) 0 x [] = None) \<and> distinct (map image_key (in_images i)) \<and>
     (\<forall>x \<in> set (in_payloads i). check_payload (map ni_id (in_nodes i)) 0 x [] = None) \<and> distinct (map pi_id (in_payloads i)) \<and>
     (\<forall>x \<in> set (in_certificates i). check_certificate (map ni_id (in_nodes i)) 0 x [] = None) \<and>
       distinct (map certificate_key (in_certificates i)) \<and>
     (\<forall>x \<in> set (in_management i). check_management_input (map ni_id (in_nodes i)) 0 x [] = None) \<and>
       distinct (map mi_node_id (in_management i)) \<and>
     (\<forall>x \<in> set (in_interfaces i). check_interface_input (map ni_id (in_nodes i)) 0 x [] = None) \<and> distinct (map ifi_id (in_interfaces i))"
  unfolding validateInput_def Let_def input_node_check.each group_owner_check.each image_check.each payload_check.each
    certificate_check.each management_input_check.each interface_input_check.each first_error_Cons first_error.simps(1)
    guard_None de_Morgan_disj de_Morgan_conj not_not sorted_wrt_keys sorted_wrt_two_keys not_False_eq_True simp_thms ball_conj_distrib
  by (simp only: sorted_wrt_True simp_thms conj_ac imp_conv_disj not_not)

lemma input_fields [simp]:
  "in_schema_version (sort_input i) = in_schema_version i" "in_topology_name (sort_input i) = in_topology_name i"
  "in_compatibility (sort_input i) = in_compatibility i" "in_entropy_digest (sort_input i) = in_entropy_digest i"
  "in_nodes (sort_input i) = sort_key ni_id (in_nodes i)"
  "in_images (sort_input i) = map normalize_image (sort_key compareImageInput (in_images i))"
  "in_payloads (sort_input i) = sort_key pi_id (in_payloads i)"
  "in_certificates (sort_input i) = sort_key (\<lambda>c. (ci_node_id c, ci_storage_name c)) (in_certificates i)"
  "in_management (sort_input i) = map normalize_management_input (sort_key mi_node_id (in_management i))"
  "in_interfaces (sort_input i) = sort_key ifi_id (in_interfaces i)"
  by (simp_all add: sort_input_def)

lemma normalized_keys [simp]:
  "compareImageInput (normalize_image x) = compareImageInput x" "image_key (normalize_image x) = image_key x"
  "mi_node_id (normalize_management_input m) = mi_node_id m"
  by (simp_all add: compareImageInput_def image_key_def normalize_image_def normalize_management_input_def)

lemma check_image_sorted [simp]: "check_image nodes 0 (normalize_image x) [] = None \<longleftrightarrow> check_image nodes 0 x [] = None"
  by (simp add: check_image_def Let_def normalize_image_def normalizeImageConfig_def)

lemma check_management_input_sorted [simp]:
  "check_management_input nodes 0 (normalize_management_input m) [] = None \<longleftrightarrow> check_management_input nodes 0 m [] = None"
  by (simp add: check_management_input_def Let_def inbound_ports_None normalize_management_input_def)

text \<open>The checks read the list of node identifiers as a set.\<close>

lemma known_nodes:
  assumes "set nodes = set nodes'"
  shows "check_group_owner nodes i n ns = check_group_owner nodes' i n ns" "check_image nodes i x xs = check_image nodes' i x xs"
    "check_payload nodes i p ps = check_payload nodes' i p ps" "check_certificate nodes i c cs = check_certificate nodes' i c cs"
    "check_management_input nodes i m ms = check_management_input nodes' i m ms"
    "check_interface_input nodes i f fs = check_interface_input nodes' i f fs"
  using assms by (simp_all add: check_group_owner_def check_image_def check_payload_def check_certificate_def
      check_management_input_def check_interface_input_def)

lemma validateInput_sorted: "validateInput compact (sort_input i) = None \<longleftrightarrow> validateInput compact i = None"
proof -
  have "set (map ni_id (in_nodes (sort_input i))) = set (map ni_id (in_nodes i))" by simp
  from known_nodes [OF this] show ?thesis
    unfolding validateInput_None input_fields by (simp add: comp_def)
qed

lemma normalize_elements_idem:
  "normalize_image (normalize_image x) = normalize_image x"
  "normalize_management_input (normalize_management_input m) = normalize_management_input m"
  by (simp_all add: normalize_image_def normalizeImageConfig_def normalize_management_input_def)

lemma sort_input_idem: "sort_input (sort_input i) = sort_input i"
  by (rule input.equality) (simp_all add: sort_map_idem normalize_elements_idem)

section \<open>Normal forms\<close>

text \<open>What \<open>encoding/json\<close> does with a raw definition: compacting a compact text changes nothing.\<close>

definition compacting :: "(string \<Rightarrow> string option) \<Rightarrow> bool" where
  "compacting compact \<longleftrightarrow> (\<forall>s t. compact s = Some t \<longrightarrow> compact t = Some t)"

lemma clone_fixed: "(\<forall>n \<in> set ns. compact (ni_definition n) = Some (ni_definition n)) \<Longrightarrow> clone_nodes compact ns = Some ns"
  by (induction ns) auto

lemma clone_defined: "clone_nodes compact ns = Some ms \<Longrightarrow> n \<in> set ms \<Longrightarrow> \<exists>s. compact s = Some (ni_definition n)"
proof (induction ns arbitrary: ms)
  case (Cons a ns)
  then obtain d z where run: "compact (ni_definition a) = Some d" "clone_nodes compact ns = Some z"
    "ms = a\<lparr> ni_definition := d \<rparr> # z" by (auto split: option.splits)
  show ?case
  proof (cases "n \<in> set z")
    case True
    with Cons.IH run(2) show ?thesis by blast
  next
    case False
    with Cons.prems(2) run(3) have "ni_definition n = d" by simp
    with run(1) show ?thesis by blast
  qed
qed simp

lemma clone_sorted:
  assumes "compacting compact" "clone_input compact i = Some j"
  shows "clone_input compact (sort_input j) = Some (sort_input j)"
proof -
  have "compact (ni_definition n) = Some (ni_definition n)" if "n \<in> set (in_nodes j)" for n
    using assms that clone_defined by (fastforce simp: clone_input_def compacting_def)
  then have "clone_nodes compact (in_nodes (sort_input j)) = Some (in_nodes (sort_input j))" by (intro clone_fixed) simp
  then show ?thesis by (simp add: clone_input_def)
qed

lemma NormalizeInput_Inr:
  "NormalizeInput json i = Inr j \<longleftrightarrow>
     (\<exists>c. clone_input (pj_compact json) i = Some c \<and> validateInput (pj_compact json) c = None \<and> j = sort_input c)"
  by (auto simp: NormalizeInput_def split: option.splits)

lemma NormalizeInput_fixed:
  assumes "compacting (pj_compact json)" "NormalizeInput json i = Inr j"
  shows "NormalizeInput json j = Inr j"
proof -
  from assms(2) obtain c where c: "clone_input (pj_compact json) i = Some c" "validateInput (pj_compact json) c = None" "j = sort_input c"
    by (auto simp: NormalizeInput_Inr)
  then show ?thesis using clone_sorted [OF assms(1) c(1)] by (simp add: NormalizeInput_Inr validateInput_sorted sort_input_idem)
qed

lemma NormalizeInput_self:
  assumes "compacting (pj_compact json)" "NormalizeInput json j = Inr j"
  shows "clone_input (pj_compact json) j = Some j" "validateInput (pj_compact json) j = None" "sort_input j = j"
proof -
  from assms(2) obtain c where c: "clone_input (pj_compact json) j = Some c" "validateInput (pj_compact json) c = None" "j = sort_input c"
    by (auto simp: NormalizeInput_Inr)
  have "clone_input (pj_compact json) j = Some j" using clone_sorted [OF assms(1) c(1)] unfolding c(3) .
  then have same: "c = j" using c(1) by (metis option.inject)
  show "clone_input (pj_compact json) j = Some j" "validateInput (pj_compact json) j = None" "sort_input j = j"
    using c(1,2) c(3) [symmetric] unfolding same by blast+
qed

section \<open>Canonical JSON\<close>

text \<open>What the codec relies on: decoding an encoded value gives it back, where definitions are compact.\<close>

definition faithful_json :: "plan_json \<Rightarrow> bool" where
  "faithful_json json \<longleftrightarrow> compacting (pj_compact json) \<and>
     (\<forall>i. clone_input (pj_compact json) i = Some i \<longrightarrow> pj_decode_input json (pj_encode_input json i) = Some i) \<and>
     (\<forall>p. pj_decode_plan json (pj_encode_plan json p) = Some p)"

text \<open>
  Canonical JSON is read back. Decoding the canonical text of an input or a plan gives its normal form,
  and encoding that again gives the same text, so a stored input or plan keeps its digest.
\<close>

theorem canonical_json_roundtrip:
  assumes "faithful_json json"
  shows "(\<forall>i raw. input_canonical_json json i = Inr raw \<longrightarrow>
      (\<exists>j. NormalizeInput json i = Inr j \<and> DecodeInput json raw = Inr j \<and> input_canonical_json json j = Inr raw)) \<and>
    (\<forall>p raw. plan_canonical_json json p = Inr raw \<longrightarrow>
      (\<exists>q. NormalizePlan p = Inr q \<and> DecodePlan json raw = Inr q \<and> plan_canonical_json json q = Inr raw))"
proof (intro conjI allI impI)
  fix i raw assume "input_canonical_json json i = Inr raw"
  then obtain j where j: "NormalizeInput json i = Inr j" "raw = pj_encode_input json j"
    by (cases "NormalizeInput json i") (auto simp: input_canonical_json_def)
  have compact: "compacting (pj_compact json)" using assms by (simp add: faithful_json_def)
  note fixed = NormalizeInput_fixed [OF compact j(1)]
  have "pj_decode_input json raw = Some j"
    using assms NormalizeInput_self(1) [OF compact fixed] by (simp add: faithful_json_def j(2))
  with fixed j show "\<exists>j. NormalizeInput json i = Inr j \<and> DecodeInput json raw = Inr j \<and> input_canonical_json json j = Inr raw"
    by (simp add: DecodeInput_def input_canonical_json_def)
next
  fix p raw assume "plan_canonical_json json p = Inr raw"
  then obtain q where q: "NormalizePlan p = Inr q" "raw = pj_encode_plan json q"
    by (cases "NormalizePlan p") (auto simp: plan_canonical_json_def)
  have "pj_decode_plan json raw = Some q" using assms by (simp add: faithful_json_def q(2))
  with NormalizePlan_fixed [OF q(1)] q show "\<exists>q. NormalizePlan p = Inr q \<and> DecodePlan json raw = Inr q \<and> plan_canonical_json json q = Inr raw"
    by (simp add: DecodePlan_def plan_canonical_json_def)
qed

section \<open>Compiled management inputs\<close>

lemma hex_char_hex: "n < 16 \<Longrightarrow> is_hex (hex_char n) \<and> hex_char n \<noteq> CHR '':''"
  using hex_char_not [of n] of_char_hex [of n] by (auto simp: is_hex_def hex_val_def Let_def split: if_splits)

lemma hex2_ok: "length (hex2 b) = 2" "list_all is_hex (hex2 b)" "CHR '':'' \<notin> set (hex2 b)"
proof -
  have "unat b < 256" by (rule order_less_le_trans [OF unsigned_less]) simp
  then have "unat b div 16 < 16" "unat b mod 16 < 16" by simp_all
  then show "list_all is_hex (hex2 b)" "CHR '':'' \<notin> set (hex2 b)"
    using hex_char_hex [of "unat b div 16"] hex_char_hex [of "unat b mod 16"] by (auto simp: hex2_def)
qed (simp add: hex2_def)

text \<open>SHA-256 sums have 32 bytes.\<close>

definition sha256_sized :: "digest \<Rightarrow> bool" where
  "sha256_sized sum256 \<longleftrightarrow> (\<forall>raw. length (sum256 raw) = 32)"

lemma mesh_mac_valid:
  assumes "sha256_sized sum256"
  shows "valid_mac (snd (managementMeshIdentity sum256 namespace))"
proof -
  define sum where "sum = take 4 (drop 4 (sum256 (''c9s-management-mesh/'' @ namespace)))"
  have len: "length sum = 4" using assms by (simp add: sum_def sha256_sized_def)
  then have nonempty: "map hex2 sum \<noteq> []" by auto
  let ?groups = "[''02'', ''c9''] @ map hex2 sum"
  have mac: "snd (managementMeshIdentity sum256 namespace) = join ?groups [CHR '':'']"
    using nonempty by (cases "map hex2 sum") (simp_all add: managementMeshIdentity_def Let_def sum_def)
  have groups: "split_on CHR '':'' (join ?groups [CHR '':'']) = ?groups"
    by (rule split_on_join) (auto simp: hex2_ok)
  have "is_hex CHR ''0''" "is_hex CHR ''2''" "is_hex CHR ''c''" "is_hex CHR ''9''" by code_simp+
  then have "list_all (\<lambda>g. length g = 2 \<and> list_all is_hex g) ?groups"
    by (simp add: list.pred_map comp_def hex2_ok list_all_iff [of "\<lambda>_. True"])
  then have "mac_groups CHR '':'' 2 [6, 8, 20] (join ?groups [CHR '':''])"
    unfolding mac_groups_def groups Let_def by (simp add: len)
  then show ?thesis unfolding valid_mac_def mac ..
qed

text \<open>The loop over the members keeps an input per node and no empty one.\<close>

lemma compile_members_inputs:
  assumes "compile_members step nodesByName members addresses result = Inr final" "distinct members"
    and "\<And>name node seen v claimed. step name node seen = Inr (v, claimed) \<Longrightarrow> mi_node_id v = nd_uid node"
    and "\<And>a b m n. a \<in> set members \<Longrightarrow> b \<in> set members \<Longrightarrow> map_of nodesByName a = Some m \<Longrightarrow> map_of nodesByName b = Some n \<Longrightarrow>
      nd_uid m = nd_uid n \<Longrightarrow> a = b"
    and "distinct (map mi_node_id result)" "\<forall>v \<in> set result. input_nonempty v"
    and "\<And>v a m. v \<in> set result \<Longrightarrow> a \<in> set members \<Longrightarrow> map_of nodesByName a = Some m \<Longrightarrow> mi_node_id v \<noteq> nd_uid m"
  shows "distinct (map mi_node_id final) \<and> (\<forall>v \<in> set final. input_nonempty v)"
  using assms
proof (induction members arbitrary: addresses result)
  case (Cons name members)
  have uids: "\<And>a b m n. a \<in> set members \<Longrightarrow> b \<in> set members \<Longrightarrow> map_of nodesByName a = Some m \<Longrightarrow> map_of nodesByName b = Some n \<Longrightarrow>
      nd_uid m = nd_uid n \<Longrightarrow> a = b" using Cons.prems(4) by simp
  have skip: ?case if "compile_members step nodesByName members addresses result = Inr final"
  proof (rule Cons.IH [OF that])
    show "distinct members" using Cons.prems(2) by simp
    show "mi_node_id v \<noteq> nd_uid m" if "v \<in> set result" "a \<in> set members" "map_of nodesByName a = Some m" for v a m
      using Cons.prems(7) [of v a m] that by simp
  qed (fact Cons.prems(3), fact uids, fact Cons.prems(5), fact Cons.prems(6))
  show ?case
  proof (cases "map_of nodesByName name")
    case None
    with Cons.prems(1) skip show ?thesis by simp
  next
    case (Some node)
    show ?thesis
    proof (cases "has_prefix (ns_network_mode (nd_spec node)) ''container:''")
      case True
      with Some Cons.prems(1) skip show ?thesis by simp
    next
      case False
      with Some Cons.prems(1) obtain v claimed where v: "step name node addresses = Inr (v, claimed)"
        and rest: "compile_members step nodesByName members claimed (if input_nonempty v then result @ [v] else result) = Inr final"
        by (auto split: sum.splits)
      note uid = Cons.prems(3) [OF v]
      have other: "nd_uid node \<noteq> nd_uid m" if "a \<in> set members" "map_of nodesByName a = Some m" for a m
        using Cons.prems(2) Cons.prems(4) [of name a node m] that Some by auto
      have fresh: "mi_node_id v \<notin> mi_node_id ` set result" using Cons.prems(7) [OF _ _ Some] uid by (force simp: seen_iff)
      show ?thesis
      proof (rule Cons.IH [OF rest])
        show "distinct members" using Cons.prems(2) by simp
        show "distinct (map mi_node_id (if input_nonempty v then result @ [v] else result))" using Cons.prems(5) fresh by simp
        show "\<forall>v \<in> set (if input_nonempty v then result @ [v] else result). input_nonempty v" using Cons.prems(6) by simp
        show "mi_node_id x \<noteq> nd_uid m" if "x \<in> set (if input_nonempty v then result @ [v] else result)" "a \<in> set members"
          "map_of nodesByName a = Some m" for x a m
          using that Cons.prems(7) [of x a m] other [of a m] uid by (auto split: if_splits)
      qed (fact Cons.prems(3), fact uids)
    qed
  qed
qed simp

text \<open>
  C36: the planner accepts the management inputs the controller compiles. For a group of distinct members
  whose nodes have distinct identities known to the input, and inbound ports that are valid, the
  validator's loop over the compiled management inputs finds no error: no node has two, none is empty,
  and the mesh identifier and the gateway hardware address are well formed.
\<close>

theorem compiled_management_accepted:
  assumes "sha256_sized sum256" "compileDirectManagement sum256 members nodesByName mgmt ports = Inr inputs" "distinct members"
    and known: "\<And>name node. name \<in> set members \<Longrightarrow> map_of nodesByName name = Some node \<Longrightarrow> nd_uid node \<in> set nodes"
    and uids: "\<And>a b m n. a \<in> set members \<Longrightarrow> b \<in> set members \<Longrightarrow> map_of nodesByName a = Some m \<Longrightarrow> map_of nodesByName b = Some n \<Longrightarrow>
      nd_uid m = nd_uid n \<Longrightarrow> a = b"
    and ports: "\<forall>p \<in> set ports. check_inbound_port '''' 0 p [] = None"
  shows "check_each (check_management_input nodes) 0 [] inputs = None"
proof -
  have loop: "distinct (map mi_node_id inputs) \<and> (\<forall>v \<in> set inputs. input_nonempty v)"
  proof (cases "case mgmt of None \<Rightarrow> False | Some policy \<Rightarrow> mp_disabled policy")
    case True
    with assms(2) show ?thesis by (auto simp: compileDirectManagement_def split: option.splits)
  next
    case False
    with assms(2) obtain settings p4 p6 a4 a6 where
      run: "compile_members (member_input sum256 settings p4 p6 a4 a6 ports) nodesByName members [] [] = Inr inputs"
      by (auto simp: compileDirectManagement_def split: option.splits if_splits sum.splits)
    show ?thesis
      by (rule compile_members_inputs [OF run assms(3)]) (fact member_input_Inr(5), fact uids, simp_all)
  qed
  have "check_management_input nodes 0 v [] = None" if v: "v \<in> set inputs" for v
  proof -
    from compileDirectManagement_mem [OF assms(2) v] obtain settings p4 p6 a4 a6 name node addresses claimed where
      member: "name \<in> set members" "map_of nodesByName name = Some node"
      and input: "member_input sum256 settings p4 p6 a4 a6 ports name node addresses = Inr (v, claimed)"
      by (elim exE conjE) (rule that)
    note fields = member_input_Inr [OF input]
    have "mi_inbound_ports v = ports" using input by (auto simp: member_input_def Let_def split: sum.splits option.splits)
    moreover have "mi_node_id v \<in> set nodes" using known [OF member] fields(5) by simp
    moreover have "input_nonempty v" using loop v by blast
    ultimately show ?thesis
      using ports mesh_tunnel_id_range [of sum256 "nd_namespace node"] mesh_mac_valid [OF assms(1)]
      by (auto simp: check_management_input_def Let_def inbound_ports_None fields(6) input_nonempty_def maxVXLANIdentifier_def)
  qed
  with loop show ?thesis by (simp add: management_input_check.each)
qed

lemma compiled_management_accepted_witness:
  "\<exists>input. compileDirectManagement sample_digest [''r3''] sample_lab (Some sample_policy) [] = Inr [input] \<and>
     check_each (check_management_input [''uid-r3'']) 0 [] [input] = None"
proof -
  from sample_input obtain input where run: "compileDirectManagement sample_digest [''r3''] sample_lab (Some sample_policy) [] = Inr [input]" by blast
  have "map_of sample_lab ''r3'' = Some (sample_addressed ''r3'' '''')" "nd_uid (sample_addressed ''r3'' '''') = ''uid-r3''" by code_simp+
  then have "check_each (check_management_input [''uid-r3'']) 0 [] [input] = None"
    by (intro compiled_management_accepted [OF _ run]) (auto simp: sha256_sized_def sample_digest_def)
  with run show ?thesis by blast
qed

end
