(* ===== verification/Connectivity_Revision.thy ===== *)
theory Connectivity_Revision
  imports Plan_Inputs
begin

text \<open>
  Connectivity revisions (\<open>src/internal/directruntime/connectivity.go\<close>): a Pod runs an immutable cold plan,
  and a change of its Links reaches it as a revision that replaces the interfaces and the waits for them.
  The controller makes a revision from two plans, the Pod merges it into its cold plan and accepts it only
  if the merged plan has the digest the controller computed. The transition between two plans is rated by
  the most disruptive mode of an affected endpoint.

  JSON and SHA-256 are the parameters \<open>plan_json\<close> and \<open>digest\<close>. Go maps used as sets are lists of their keys.
\<close>

section \<open>Definitions\<close>

definition ConnectivityRevisionSchemaVersion :: string where
  "ConnectivityRevisionSchemaVersion = ''c9s.direct-connectivity/v1alpha1''"

definition MaximumConnectivityRevisionJSONSize :: nat where
  "MaximumConnectivityRevisionJSONSize = 768 * 1024"

record connectivity_revision =
  cr_schema_version :: string
  cr_base_plan_digest :: string
  cr_desired_plan_digest :: string
  cr_maximum_mode :: string
  cr_input_interfaces :: "interface_input list"
  cr_interfaces :: "interface_plan list"
  cr_actions :: "action list"

record connectivity_transition =
  ct_changed :: bool
  ct_required_mode :: string
  ct_affected_node_ids :: "string list"

datatype revision_error =
    PlanFailure plan_failure
  | RevisionInvalid string
  | ModeTooDisruptive string string
  | IdentityDiffers string

text \<open>A call that returns an error next to its value, and an \<open>if\<close> that returns an error.\<close>

definition and_then :: "'e + 'a \<Rightarrow> ('a \<Rightarrow> 'e + 'b) \<Rightarrow> 'e + 'b" where
  "and_then r f = (case r of Inl e \<Rightarrow> Inl e | Inr x \<Rightarrow> f x)"

definition require :: "bool \<Rightarrow> 'e \<Rightarrow> 'e + unit" where
  "require b e = (if b then Inr () else Inl e)"

definition planning :: "plan_failure + 'a \<Rightarrow> revision_error + 'a" where
  "planning r = map_sum PlanFailure id r"

subsection \<open>Waits and modes\<close>

definition isConnectivityWaitAction :: "action \<Rightarrow> bool" where
  "isConnectivityWaitAction a \<longleftrightarrow> ac_phase a = PhasePreStart \<and> ac_kind a = ActionWaitInterface \<and> ac_wait_interface a \<noteq> None"

definition connectivityWaitActions :: "action list \<Rightarrow> action list" where
  "connectivityWaitActions actions = filter isConnectivityWaitAction actions"

definition wait_target :: "action \<Rightarrow> string" where
  "wait_target a = valueOrEmpty wa_interface_id (ac_wait_interface a)"

definition linkApplyModeRank :: "string \<Rightarrow> nat" where
  "linkApplyModeRank mode =
     (if mode = LinkApplyLive then 0 else if mode = LinkApplyRestart then 1 else if mode = LinkApplyRecreate then 2 else 3)"

definition validRevisionDigest :: "string \<Rightarrow> bool" where
  "validRevisionDigest s \<longleftrightarrow>
     (let encoded = trim_prefix s ''sha256:'' in length encoded = 64 \<and> encoded \<noteq> s \<and> hex_decodable encoded)"

subsection \<open>Transitions\<close>

text \<open>Reading an absent key of a map gives the zero value.\<close>

definition zero_interface_input :: interface_input where
  "zero_interface_input = \<lparr> ifi_id = '''', ifi_node_id = '''', ifi_name = '''', ifi_link_id = '''', ifi_link_name = '''', ifi_peer_node_id = '''',
     ifi_peer_interface = '''', ifi_peer_transport = '''', ifi_connectivity = '''', ifi_wire_id = 0, ifi_mtu = 0 \<rparr>"

definition zero_interface_plan :: interface_plan where
  "zero_interface_plan = \<lparr> ifp_id = '''', ifp_node_id = '''', ifp_namespace_owner_id = '''', ifp_name = '''', ifp_alias = '''', ifp_link_id = '''',
     ifp_link_name = '''', ifp_peer_node_id = '''', ifp_peer_interface = '''', ifp_peer_transport = '''', ifp_connectivity = '''', ifp_wire_id = 0,
     ifp_mtu = 0, ifp_link_apply_mode = '''', ifp_required_at_start = False \<rparr>"

definition zero_action :: action where
  "zero_action = \<lparr> ac_id = '''', ac_phase = '''', ac_order = 0,
     ac_target = \<lparr> at_node_id = '''', at_container_id = '''', at_namespace_owner_id = '''' \<rparr>, ac_kind = '''', ac_exec = None, ac_file = None,
     ac_write_stdin = None, ac_mount = None, ac_sysctl = None, ac_wait_interface = None, ac_rename_interface = None,
     ac_management_forwarding = None, ac_imported_deploy_endpoints = None, ac_imported_post_deploy = None, ac_imported_readiness = None,
     ac_save = None \<rparr>"

definition index_by :: "('a \<Rightarrow> string) \<Rightarrow> 'a list \<Rightarrow> (string, 'a) gomap" where
  "index_by key xs = foldl (\<lambda>m x. AList.update (key x) x m) [] xs"

definition read_or :: "'a \<Rightarrow> (string, 'a) gomap \<Rightarrow> string \<Rightarrow> 'a" where
  "read_or zero m k = (case map_of m k of None \<Rightarrow> zero | Some x \<Rightarrow> x)"

definition interfaceInputsByID :: "interface_input list \<Rightarrow> (string, interface_input) gomap" where
  "interfaceInputsByID interfaces = index_by ifi_id interfaces"

definition interfacePlansByID :: "interface_plan list \<Rightarrow> (string, interface_plan) gomap" where
  "interfacePlansByID interfaces = index_by ifp_id interfaces"

definition interfaceWaitActionsByID :: "action list \<Rightarrow> (string, action) gomap" where
  "interfaceWaitActionsByID actions = index_by wait_target (filter isConnectivityWaitAction actions)"

definition changedConnectivityInterfaces :: "input \<Rightarrow> plan \<Rightarrow> input \<Rightarrow> plan \<Rightarrow> string list" where
  "changedConnectivityInterfaces baseInput basePlan desiredInput desiredPlan =
     (let baseInputs = interfaceInputsByID (in_interfaces baseInput); desiredInputs = interfaceInputsByID (in_interfaces desiredInput);
          baseInterfaces = interfacePlansByID (pn_interfaces basePlan); desiredInterfaces = interfacePlansByID (pn_interfaces desiredPlan);
          baseWaits = interfaceWaitActionsByID (pn_actions basePlan); desiredWaits = interfaceWaitActionsByID (pn_actions desiredPlan) in
      filter (\<lambda>i. read_or zero_interface_input baseInputs i \<noteq> read_or zero_interface_input desiredInputs i \<or>
                  read_or zero_interface_plan baseInterfaces i \<noteq> read_or zero_interface_plan desiredInterfaces i \<or>
                  read_or zero_action baseWaits i \<noteq> read_or zero_action desiredWaits i)
        (remdups (map fst baseInputs @ map fst desiredInputs)))"

definition affected_links :: "string list \<Rightarrow> input \<Rightarrow> plan \<Rightarrow> input \<Rightarrow> plan \<Rightarrow> string list" where
  "affected_links changed baseInput basePlan desiredInput desiredPlan =
     map ifp_link_id (filter (\<lambda>i. ifp_id i \<in> set changed) (pn_interfaces basePlan @ pn_interfaces desiredPlan)) @
     map ifi_link_id (filter (\<lambda>i. ifi_id i \<in> set changed) (in_interfaces baseInput @ in_interfaces desiredInput))"

definition raise_mode :: "string list \<Rightarrow> interface_plan \<Rightarrow> string \<Rightarrow> string" where
  "raise_mode links i mode =
     (if ifp_link_id i \<in> set links \<and> linkApplyModeRank (ifp_link_apply_mode i) > linkApplyModeRank mode
      then ifp_link_apply_mode i else mode)"

definition evaluateNormalizedConnectivityTransition :: "input \<Rightarrow> plan \<Rightarrow> input \<Rightarrow> plan \<Rightarrow> connectivity_transition" where
  "evaluateNormalizedConnectivityTransition baseInput basePlan desiredInput desiredPlan =
     (let changed = changedConnectivityInterfaces baseInput basePlan desiredInput desiredPlan;
          links = affected_links changed baseInput basePlan desiredInput desiredPlan;
          endpoints = pn_interfaces basePlan @ pn_interfaces desiredPlan in
      if links = [] then \<lparr> ct_changed = False, ct_required_mode = LinkApplyLive, ct_affected_node_ids = [] \<rparr>
      else \<lparr> ct_changed = True, ct_required_mode = fold (raise_mode links) endpoints LinkApplyLive,
             ct_affected_node_ids = sort (remdups (map ifp_node_id (filter (\<lambda>i. ifp_link_id i \<in> set links) endpoints))) \<rparr>)"

subsection \<open>Identity\<close>

definition interface_agrees :: "interface_input \<Rightarrow> interface_plan \<Rightarrow> bool" where
  "interface_agrees supplied planned \<longleftrightarrow>
     ifi_node_id supplied = ifp_node_id planned \<and> ifi_link_id supplied = ifp_link_id planned \<and> ifi_link_name supplied = ifp_link_name planned \<and>
     ifi_peer_node_id supplied = ifp_peer_node_id planned \<and> ifi_peer_interface supplied = ifp_peer_interface planned \<and>
     ifi_peer_transport supplied = ifp_peer_transport planned \<and> ifi_connectivity supplied = ifp_connectivity planned \<and>
     ifi_wire_id supplied = ifp_wire_id planned \<and> ifi_mtu supplied = ifp_mtu planned"

fun match_interfaces :: "(string, interface_input) gomap \<Rightarrow> interface_plan list \<Rightarrow> revision_error + unit" where
  "match_interfaces supplied [] = require (supplied = []) (IdentityDiffers ''connectivity plan omits accepted interfaces'')"
| "match_interfaces supplied (planned # rest) =
     (case map_of supplied (ifp_id planned) of
        None \<Rightarrow> Inl (IdentityDiffers (ifp_id planned))
      | Some intf \<Rightarrow>
          if interface_agrees intf planned then match_interfaces (AList.delete (ifp_id planned) supplied) rest
          else Inl (IdentityDiffers (ifp_id planned)))"

definition management_agrees :: "management_input \<Rightarrow> management_plan \<Rightarrow> bool" where
  "management_agrees supplied planned \<longleftrightarrow>
     mi_ipv4 supplied = mg_ipv4 planned \<and> mi_ipv4_gateway supplied = mg_ipv4_gateway planned \<and> mi_ipv6 supplied = mg_ipv6 planned \<and>
     mi_ipv6_gateway supplied = mg_ipv6_gateway planned \<and> mi_dns supplied = mg_dns planned \<and>
     (mi_interface_name supplied \<noteq> '''' \<longrightarrow> mi_interface_name supplied = mg_interface_name planned)"

definition identity_only :: "management_plan \<Rightarrow> bool" where
  "identity_only planned \<longleftrightarrow> mg_ipv4 planned = '''' \<and> mg_ipv4_gateway planned = '''' \<and> mg_ipv6 planned = '''' \<and>
     mg_ipv6_gateway planned = '''' \<and> mg_routes planned = [] \<and> mg_dns planned = no_dns"

fun match_management :: "(string, management_input) gomap \<Rightarrow> management_plan list \<Rightarrow> revision_error + unit" where
  "match_management supplied [] = require (supplied = []) (IdentityDiffers ''connectivity plan omits accepted management intent'')"
| "match_management supplied (planned # rest) =
     (case map_of supplied (mg_node_id planned) of
        None \<Rightarrow> if identity_only planned then match_management supplied rest else Inl (IdentityDiffers (mg_id planned))
      | Some m \<Rightarrow>
          if management_agrees m planned then match_management (AList.delete (mg_node_id planned) supplied) rest
          else Inl (IdentityDiffers (mg_id planned)))"

definition validateIdentity :: "plan_json \<Rightarrow> digest \<Rightarrow> input \<Rightarrow> plan \<Rightarrow> revision_error + unit" where
  "validateIdentity json sum256 input plan =
     and_then (planning (NormalizeInput json input)) (\<lambda>normalizedInput.
     and_then (planning (NormalizePlan plan)) (\<lambda>normalizedPlan.
     and_then (planning (input_digest json sum256 normalizedInput)) (\<lambda>digest.
     and_then (require (pn_input_digest normalizedPlan = digest \<and> pn_compatibility normalizedPlan = in_compatibility normalizedInput)
       (IdentityDiffers ''connectivity plan and input identities differ'')) (\<lambda>_.
     and_then (match_interfaces (index_by ifi_id (in_interfaces normalizedInput)) (pn_interfaces normalizedPlan)) (\<lambda>_.
       match_management (index_by mi_node_id (in_management normalizedInput)) (pn_management normalizedPlan))))))"

subsection \<open>Revisions\<close>

definition normalizeConnectivityRevision :: "connectivity_revision \<Rightarrow> revision_error + connectivity_revision" where
  "normalizeConnectivityRevision r =
     and_then (require (cr_schema_version r = ConnectivityRevisionSchemaVersion \<and> validRevisionDigest (cr_base_plan_digest r) \<and>
                        validRevisionDigest (cr_desired_plan_digest r))
       (RevisionInvalid ''schema or digest identity is invalid'')) (\<lambda>_.
     let mode = (if cr_maximum_mode r = '''' then LinkApplyLive else cr_maximum_mode r);
         inputs = sort_key ifi_id (cr_input_interfaces r); interfaces = sort_key ifp_id (cr_interfaces r); actions = sort_key ac_id (cr_actions r) in
     and_then (require (mode = LinkApplyLive \<or> mode = LinkApplyRestart) (RevisionInvalid ''cumulative lifecycle mode is invalid'')) (\<lambda>_.
     and_then (require (\<not> hasDuplicates [] (map ifi_id inputs)) (RevisionInvalid ''input interface identity is invalid'')) (\<lambda>_.
     and_then (require (\<not> hasDuplicates [] (map ifp_id interfaces) \<and> list_all (\<lambda>i. ifp_id i \<in> set (map ifi_id inputs)) interfaces)
       (RevisionInvalid ''planned interface identity is invalid'')) (\<lambda>_.
     and_then (require (length inputs = length interfaces) (RevisionInvalid ''input and planned interface sets differ'')) (\<lambda>_.
     and_then (require (list_all (\<lambda>a. isConnectivityWaitAction a \<and> wait_target a \<in> set (map ifp_id interfaces)) actions \<and>
                        distinct (map wait_target actions))
       (RevisionInvalid ''interface wait action is invalid'')) (\<lambda>_.
     and_then (require (length actions = length interfaces) (RevisionInvalid ''interface wait coverage is incomplete'')) (\<lambda>_.
       Inr (r\<lparr> cr_maximum_mode := mode, cr_input_interfaces := inputs, cr_interfaces := interfaces, cr_actions := actions \<rparr>))))))))"

definition sameNonConnectivityInput :: "input \<Rightarrow> input \<Rightarrow> bool" where
  "sameNonConnectivityInput left right \<longleftrightarrow> left\<lparr> in_interfaces := [] \<rparr> = right\<lparr> in_interfaces := [] \<rparr>"

definition projectLiveConnectivity :: "plan_json \<Rightarrow> digest \<Rightarrow> input \<Rightarrow> plan \<Rightarrow> interface_input list \<Rightarrow> interface_plan list \<Rightarrow> action list
    \<Rightarrow> revision_error + input \<times> plan" where
  "projectLiveConnectivity json sum256 baseInput basePlan inputInterfaces interfaces waitActions =
     and_then (planning (NormalizeInput json (baseInput\<lparr> in_interfaces := inputInterfaces \<rparr>))) (\<lambda>normalizedInput.
     and_then (planning (input_digest json sum256 normalizedInput)) (\<lambda>digest.
     and_then (planning (NormalizePlan (basePlan\<lparr> pn_input_digest := digest, pn_interfaces := interfaces,
         pn_actions := filter (\<lambda>a. \<not> isConnectivityWaitAction a) (pn_actions basePlan) @ waitActions \<rparr>))) (\<lambda>normalizedPlan.
       Inr (normalizedInput, normalizedPlan))))"

definition ApplyConnectivityRevision :: "plan_json \<Rightarrow> digest \<Rightarrow> input \<Rightarrow> plan \<Rightarrow> connectivity_revision \<Rightarrow> revision_error + input \<times> plan" where
  "ApplyConnectivityRevision json sum256 baseInput basePlan revision =
     and_then (normalizeConnectivityRevision revision) (\<lambda>r.
     and_then (planning (NormalizeInput json baseInput)) (\<lambda>normalizedBaseInput.
     and_then (planning (NormalizePlan basePlan)) (\<lambda>normalizedBasePlan.
     and_then (validateIdentity json sum256 normalizedBaseInput normalizedBasePlan) (\<lambda>_.
     and_then (planning (plan_digest json sum256 normalizedBasePlan)) (\<lambda>baseDigest.
     and_then (require (baseDigest = cr_base_plan_digest r) (RevisionInvalid ''base plan digest differs from the running Pod'')) (\<lambda>_.
     and_then (projectLiveConnectivity json sum256 normalizedBaseInput normalizedBasePlan
         (cr_input_interfaces r) (cr_interfaces r) (cr_actions r)) (\<lambda>(input, plan).
     and_then (planning (plan_digest json sum256 plan)) (\<lambda>desiredDigest.
     and_then (require (desiredDigest = cr_desired_plan_digest r)
       (RevisionInvalid ''merged connectivity does not reproduce the desired plan digest'')) (\<lambda>_.
     and_then (validateIdentity json sum256 input plan) (\<lambda>_.
     let transition = evaluateNormalizedConnectivityTransition normalizedBaseInput normalizedBasePlan input plan in
     and_then (require (ct_required_mode transition = cr_maximum_mode r)
       (ModeTooDisruptive (ct_required_mode transition) (cr_maximum_mode r))) (\<lambda>_.
       Inr (input, plan))))))))))))"

text \<open>The checks that making and evaluating a revision share: both sides normalized, valid and equal outside connectivity.\<close>

definition connectivity_sides :: "plan_json \<Rightarrow> digest \<Rightarrow> input \<Rightarrow> plan \<Rightarrow> input \<Rightarrow> plan \<Rightarrow> revision_error + input \<times> plan \<times> input \<times> plan" where
  "connectivity_sides json sum256 baseInput basePlan desiredInput desiredPlan =
     and_then (planning (NormalizeInput json baseInput)) (\<lambda>normalizedBaseInput.
     and_then (planning (NormalizePlan basePlan)) (\<lambda>normalizedBasePlan.
     and_then (validateIdentity json sum256 normalizedBaseInput normalizedBasePlan) (\<lambda>_.
     and_then (planning (NormalizeInput json desiredInput)) (\<lambda>normalizedDesiredInput.
     and_then (planning (NormalizePlan desiredPlan)) (\<lambda>normalizedDesiredPlan.
     and_then (validateIdentity json sum256 normalizedDesiredInput normalizedDesiredPlan) (\<lambda>_.
     and_then (require (sameNonConnectivityInput normalizedBaseInput normalizedDesiredInput)
       (RevisionInvalid ''desired input differs outside connectivity'')) (\<lambda>_.
     and_then (require (pn_schema_version normalizedBasePlan = pn_schema_version normalizedDesiredPlan \<and>
         pn_compatibility normalizedBasePlan = pn_compatibility normalizedDesiredPlan \<and> pn_planner normalizedBasePlan = pn_planner normalizedDesiredPlan)
       (RevisionInvalid ''planner identity differs outside connectivity'')) (\<lambda>_.
       Inr (normalizedBaseInput, normalizedBasePlan, normalizedDesiredInput, normalizedDesiredPlan)))))))))"

definition EvaluateConnectivityTransition :: "plan_json \<Rightarrow> digest \<Rightarrow> input \<Rightarrow> plan \<Rightarrow> input \<Rightarrow> plan \<Rightarrow> revision_error + connectivity_transition" where
  "EvaluateConnectivityTransition json sum256 baseInput basePlan desiredInput desiredPlan =
     and_then (connectivity_sides json sum256 baseInput basePlan desiredInput desiredPlan) (\<lambda>(bi, bp, di, dp).
     and_then (projectLiveConnectivity json sum256 bi bp (in_interfaces di) (pn_interfaces dp) (connectivityWaitActions (pn_actions dp)))
       (\<lambda>(effectiveInput, effectivePlan).
       Inr (evaluateNormalizedConnectivityTransition bi bp effectiveInput effectivePlan)))"

definition NewConnectivityRevisionForMode :: "plan_json \<Rightarrow> digest \<Rightarrow> input \<Rightarrow> plan \<Rightarrow> input \<Rightarrow> plan \<Rightarrow> string \<Rightarrow> revision_error + connectivity_revision" where
  "NewConnectivityRevisionForMode json sum256 baseInput basePlan desiredInput desiredPlan maximumMode =
     and_then (require (maximumMode = LinkApplyLive \<or> maximumMode = LinkApplyRestart) (RevisionInvalid ''projected connectivity mode is invalid'')) (\<lambda>_.
     and_then (connectivity_sides json sum256 baseInput basePlan desiredInput desiredPlan) (\<lambda>(bi, bp, di, dp).
     and_then (planning (plan_digest json sum256 bp)) (\<lambda>baseDigest.
     and_then (projectLiveConnectivity json sum256 bi bp (in_interfaces di) (pn_interfaces dp) (connectivityWaitActions (pn_actions dp)))
       (\<lambda>(effectiveInput, effectivePlan).
     let transition = evaluateNormalizedConnectivityTransition bi bp effectiveInput effectivePlan in
     and_then (require (linkApplyModeRank (ct_required_mode transition) \<le> linkApplyModeRank maximumMode)
       (ModeTooDisruptive (ct_required_mode transition) maximumMode)) (\<lambda>_.
     and_then (planning (plan_digest json sum256 effectivePlan)) (\<lambda>desiredDigest.
     let revision = \<lparr> cr_schema_version = ConnectivityRevisionSchemaVersion, cr_base_plan_digest = baseDigest,
           cr_desired_plan_digest = desiredDigest, cr_maximum_mode = ct_required_mode transition,
           cr_input_interfaces = in_interfaces di, cr_interfaces = pn_interfaces dp,
           cr_actions = connectivityWaitActions (pn_actions dp) \<rparr> in
     and_then (ApplyConnectivityRevision json sum256 bi bp revision) (\<lambda>_. Inr revision)))))))"

definition NewConnectivityRevision :: "plan_json \<Rightarrow> digest \<Rightarrow> input \<Rightarrow> plan \<Rightarrow> input \<Rightarrow> plan \<Rightarrow> revision_error + connectivity_revision" where
  "NewConnectivityRevision json sum256 baseInput basePlan desiredInput desiredPlan =
     NewConnectivityRevisionForMode json sum256 baseInput basePlan desiredInput desiredPlan LinkApplyLive"

text \<open>The stored form of a revision, for an encoder and a strict decoder.\<close>

definition revision_canonical_json :: "(connectivity_revision \<Rightarrow> string) \<Rightarrow> connectivity_revision \<Rightarrow> revision_error + string" where
  "revision_canonical_json encode r =
     and_then (normalizeConnectivityRevision r) (\<lambda>normalized.
     and_then (require (length (encode normalized) \<le> MaximumConnectivityRevisionJSONSize) (RevisionInvalid ''revision exceeds the size ceiling''))
       (\<lambda>_. Inr (encode normalized)))"

definition DecodeConnectivityRevision :: "(string \<Rightarrow> connectivity_revision option) \<Rightarrow> string \<Rightarrow> revision_error + connectivity_revision" where
  "DecodeConnectivityRevision decode raw =
     and_then (require (raw \<noteq> '''' \<and> length raw \<le> MaximumConnectivityRevisionJSONSize) (RevisionInvalid ''encoded revision size is invalid'')) (\<lambda>_.
     case decode raw of
       None \<Rightarrow> Inl (RevisionInvalid ''decoding revision'')
     | Some decoded \<Rightarrow> normalizeConnectivityRevision decoded)"

end
