(* ===== verification/Connectivity_Live.thy ===== *)
theory Connectivity_Live
  imports Connectivity_Revision
begin

text \<open>
  Live connectivity: what a transition between two plans costs, that a revision the controller makes is
  accepted by the Pod and gives it the desired interfaces, and that applying a revision leaves everything
  the Pod was created from as it is.
\<close>

section \<open>Sequencing\<close>

lemma and_then_Inr [simp]: "and_then r f = Inr y \<longleftrightarrow> (\<exists>x. r = Inr x \<and> f x = Inr y)"
  by (auto simp: and_then_def split: sum.splits)

lemma and_then_simps [simp]: "and_then (Inr x) f = f x" "and_then (Inl e) f = Inl e"
  by (simp_all add: and_then_def)

lemma require_Inr [simp]: "require b e = Inr x \<longleftrightarrow> b"
  by (simp add: require_def)

lemma planning_Inr [simp]: "planning r = Inr x \<longleftrightarrow> r = Inr x"
  by (cases r) (simp_all add: planning_def)

section \<open>The cost of a transition\<close>

lemma linkApplyModeRank_inj: "linkApplyModeRank m \<le> 1 \<Longrightarrow> m = (if linkApplyModeRank m = 0 then LinkApplyLive else LinkApplyRestart)"
  by (auto simp: linkApplyModeRank_def split: if_splits)

lemma raise_mode_fold:
  "(\<forall>i \<in> set is. ifp_link_id i \<in> set links \<longrightarrow> linkApplyModeRank (ifp_link_apply_mode i) \<le> linkApplyModeRank (fold (raise_mode links) is mode)) \<and>
   linkApplyModeRank mode \<le> linkApplyModeRank (fold (raise_mode links) is mode) \<and>
   (fold (raise_mode links) is mode = mode \<or>
    (\<exists>i \<in> set is. ifp_link_id i \<in> set links \<and> ifp_link_apply_mode i = fold (raise_mode links) is mode))"
proof (induction "is" arbitrary: mode)
  case (Cons i "is")
  have step: "linkApplyModeRank mode \<le> linkApplyModeRank (raise_mode links i mode)"
    "ifp_link_id i \<in> set links \<Longrightarrow> linkApplyModeRank (ifp_link_apply_mode i) \<le> linkApplyModeRank (raise_mode links i mode)"
    "raise_mode links i mode = mode \<or> ifp_link_id i \<in> set links \<and> ifp_link_apply_mode i = raise_mode links i mode"
    by (auto simp: raise_mode_def)
  from Cons.IH [of "raise_mode links i mode"] step show ?case by (auto intro: order_trans)
qed simp


section \<open>Digests\<close>

lemma input_digest_normal:
  "compacting (pj_compact json) \<Longrightarrow> NormalizeInput json i = Inr j \<Longrightarrow> input_digest json sum256 j = Inr (Digest sum256 (pj_encode_input json j))"
  by (simp add: input_digest_def input_canonical_json_def NormalizeInput_fixed)

lemma plan_digest_normal: "NormalizePlan p = Inr q \<Longrightarrow> plan_digest json sum256 q = Inr (Digest sum256 (pj_encode_plan json q))"
  by (simp add: plan_digest_def plan_canonical_json_def NormalizePlan_fixed)

lemma digest_text:
  assumes "sha256_sized sum256"
  shows "length (concat (map hex2 (sum256 raw))) = 64" "hex_decodable (concat (map hex2 (sum256 raw)))"
proof -
  have len: "length (concat (map hex2 bs)) = 2 * length bs" for bs by (induction bs) (simp_all add: hex2_ok)
  have "list_all is_hex (concat (map hex2 bs))" for bs by (induction bs) (simp_all add: hex2_ok)
  then show "length (concat (map hex2 (sum256 raw))) = 64" "hex_decodable (concat (map hex2 (sum256 raw)))"
    using assms by (simp_all add: hex_decodable_def len sha256_sized_def)
qed

lemma valid_digests:
  assumes "sha256_sized sum256"
  shows "validRevisionDigest (Digest sum256 raw)" "validDigest (Digest sum256 raw)"
  using digest_text [OF assms, of raw]
  by (simp_all add: validRevisionDigest_def validDigest_def Digest_def Let_def trim_prefix_def has_prefix_def)

section \<open>The projected plan\<close>

lemma replaced_connectivity:
  assumes "default_plan bp = bp" "sort_plan bp = bp"
  shows "default_plan (bp\<lparr> pn_input_digest := d, pn_interfaces := is, pn_actions := as \<rparr>) =
      bp\<lparr> pn_input_digest := d, pn_interfaces := is, pn_actions := as \<rparr>"
    "sort_plan (bp\<lparr> pn_input_digest := d, pn_interfaces := is, pn_actions := as \<rparr>) =
      bp\<lparr> pn_input_digest := d, pn_interfaces := sort_key ifp_id is, pn_actions := sort_key compareAction as \<rparr>"
proof -
  have "default_plan (bp\<lparr> pn_input_digest := d, pn_interfaces := is, pn_actions := as \<rparr>) =
      (default_plan bp)\<lparr> pn_input_digest := d, pn_interfaces := is, pn_actions := as \<rparr>"
    by (rule plan.equality) simp_all
  then show "default_plan (bp\<lparr> pn_input_digest := d, pn_interfaces := is, pn_actions := as \<rparr>) =
      bp\<lparr> pn_input_digest := d, pn_interfaces := is, pn_actions := as \<rparr>" unfolding assms(1) .
  have "sort_plan (bp\<lparr> pn_input_digest := d, pn_interfaces := is, pn_actions := as \<rparr>) =
      (sort_plan bp)\<lparr> pn_input_digest := d, pn_interfaces := sort_key ifp_id is, pn_actions := sort_key compareAction as \<rparr>"
    by (rule plan.equality) simp_all
  then show "sort_plan (bp\<lparr> pn_input_digest := d, pn_interfaces := is, pn_actions := as \<rparr>) =
      bp\<lparr> pn_input_digest := d, pn_interfaces := sort_key ifp_id is, pn_actions := sort_key compareAction as \<rparr>" unfolding assms(2) .
qed

definition merged_actions :: "plan \<Rightarrow> action list \<Rightarrow> action list" where
  "merged_actions bp ws = filter (\<lambda>a. \<not> isConnectivityWaitAction a) (pn_actions bp) @ ws"

lemma project_Inr:
  assumes "NormalizePlan bp = Inr bp"
  shows "projectLiveConnectivity json sum256 bi bp ins is ws = Inr (i, p) \<longleftrightarrow>
    (\<exists>d. NormalizeInput json (bi\<lparr> in_interfaces := ins \<rparr>) = Inr i \<and> input_digest json sum256 i = Inr d \<and> validatePlan p = None \<and>
       p = bp\<lparr> pn_input_digest := d, pn_interfaces := sort_key ifp_id is, pn_actions := sort_key compareAction (merged_actions bp ws) \<rparr>)"
proof -
  have self: "default_plan bp = bp" "sort_plan bp = bp" using assms by (simp_all add: NormalizePlan_self)
  have "NormalizePlan (bp\<lparr> pn_input_digest := d, pn_interfaces := is, pn_actions := merged_actions bp ws \<rparr>) = Inr p \<longleftrightarrow> validatePlan p = None \<and>
      p = bp\<lparr> pn_input_digest := d, pn_interfaces := sort_key ifp_id is, pn_actions := sort_key compareAction (merged_actions bp ws) \<rparr>" for d
    unfolding NormalizePlan_Inr replaced_connectivity [OF self]
    using validatePlan_sorted [of "bp\<lparr> pn_input_digest := d, pn_interfaces := is, pn_actions := merged_actions bp ws \<rparr>"]
    unfolding replaced_connectivity [OF self] by metis
  then show ?thesis unfolding projectLiveConnectivity_def merged_actions_def [symmetric] by auto
qed

lemma project_perm:
  assumes "NormalizePlan bp = Inr bp" "projectLiveConnectivity json sum256 bi bp ins is ws = Inr (i, p)" "mset ws' = mset ws"
  shows "projectLiveConnectivity json sum256 bi bp ins is ws' = Inr (i, p)"
proof -
  from assms(2) obtain d where p: "NormalizeInput json (bi\<lparr> in_interfaces := ins \<rparr>) = Inr i" "input_digest json sum256 i = Inr d" "validatePlan p = None"
    "p = bp\<lparr> pn_input_digest := d, pn_interfaces := sort_key ifp_id is, pn_actions := sort_key compareAction (merged_actions bp ws) \<rparr>"
    unfolding project_Inr [OF assms(1)] by blast
  have "distinct (map ac_id (merged_actions bp ws))"
    using p(3) by (simp add: validatePlan_None distinct_ids_def p(4))
  then have "distinct (map compareAction (merged_actions bp ws))"
    by (auto simp: distinct_map inj_on_def compareAction_def)
  then have "sort_key compareAction (merged_actions bp ws) = sort_key compareAction (merged_actions bp ws')"
    using assms(3) by (intro sort_key_distinct) (simp_all add: merged_actions_def)
  with p show ?thesis unfolding project_Inr [OF assms(1)] by metis
qed

lemma merged_parts:
  assumes "\<forall>a \<in> set ws. isConnectivityWaitAction a" "sort_plan bp = bp"
  shows "filter (\<lambda>a. \<not> isConnectivityWaitAction a) (sort_key compareAction (merged_actions bp ws)) =
      filter (\<lambda>a. \<not> isConnectivityWaitAction a) (pn_actions bp)"
    "connectivityWaitActions (sort_key compareAction (merged_actions bp ws)) = sort_key compareAction ws"
proof -
  have sorted: "sort_key compareAction (pn_actions bp) = pn_actions bp" using assms(2) by (metis sort_plan_fields(10))
  have none: "filter (\<lambda>a. \<not> isConnectivityWaitAction a) ws = []" "filter isConnectivityWaitAction ws = ws" using assms(1) by simp_all
  have "sort_key compareAction (filter (\<lambda>a. \<not> isConnectivityWaitAction a) (pn_actions bp)) =
      filter (\<lambda>a. \<not> isConnectivityWaitAction a) (pn_actions bp)"
    unfolding filter_sort [symmetric] sorted ..
  then show "filter (\<lambda>a. \<not> isConnectivityWaitAction a) (sort_key compareAction (merged_actions bp ws)) =
      filter (\<lambda>a. \<not> isConnectivityWaitAction a) (pn_actions bp)"
    unfolding filter_sort merged_actions_def by (simp add: none)
  show "connectivityWaitActions (sort_key compareAction (merged_actions bp ws)) = sort_key compareAction ws"
    unfolding connectivityWaitActions_def filter_sort merged_actions_def by (simp add: none)
qed

lemma same_rest: "sameNonConnectivityInput bi di \<Longrightarrow> bi\<lparr> in_interfaces := in_interfaces di \<rparr> = di"
  unfolding sameNonConnectivityInput_def by (drule arg_cong [where f = "\<lambda>i. i\<lparr> in_interfaces := in_interfaces di \<rparr>"]) simp

lemma sorted_input_interfaces: "sort_input i = i \<Longrightarrow> sort_key ifi_id (in_interfaces i) = in_interfaces i"
  by (metis input_fields(10))

lemma replaced_interfaces:
  assumes "compacting (pj_compact json)" "NormalizeInput json bi = Inr bi" "NormalizeInput json (bi\<lparr> in_interfaces := ins \<rparr>) = Inr i"
  shows "i = bi\<lparr> in_interfaces := sort_key ifi_id ins \<rparr>"
proof -
  note self = NormalizeInput_self [OF assms(1,2)]
  have "clone_nodes (pj_compact json) (in_nodes bi) = Some (in_nodes bi)"
    using self(1) by (auto simp: clone_input_def dest!: arg_cong [where f = in_nodes])
  then have "clone_input (pj_compact json) (bi\<lparr> in_interfaces := ins \<rparr>) = Some (bi\<lparr> in_interfaces := ins \<rparr>)"
    by (simp add: clone_input_def)
  then have "i = sort_input (bi\<lparr> in_interfaces := ins \<rparr>)" using assms(3) by (simp add: NormalizeInput_Inr)
  also have "\<dots> = (sort_input bi)\<lparr> in_interfaces := sort_key ifi_id ins \<rparr>" by (rule input.equality) simp_all
  finally show ?thesis unfolding self(3) .
qed

section \<open>Revisions\<close>

lemma normalize_revision_Inr:
  "normalizeConnectivityRevision r = Inr q \<longleftrightarrow>
     cr_schema_version r = ConnectivityRevisionSchemaVersion \<and> validRevisionDigest (cr_base_plan_digest r) \<and>
     validRevisionDigest (cr_desired_plan_digest r) \<and>
     (cr_maximum_mode q = LinkApplyLive \<or> cr_maximum_mode q = LinkApplyRestart) \<and>
     '''' \<notin> ifi_id ` set (cr_input_interfaces r) \<and> distinct (map ifi_id (cr_input_interfaces r)) \<and>
     '''' \<notin> ifp_id ` set (cr_interfaces r) \<and> distinct (map ifp_id (cr_interfaces r)) \<and>
     ifp_id ` set (cr_interfaces r) \<subseteq> ifi_id ` set (cr_input_interfaces r) \<and> length (cr_input_interfaces r) = length (cr_interfaces r) \<and>
     (\<forall>a \<in> set (cr_actions r). isConnectivityWaitAction a \<and> wait_target a \<in> ifp_id ` set (cr_interfaces r)) \<and>
     distinct (map wait_target (cr_actions r)) \<and> length (cr_actions r) = length (cr_interfaces r) \<and>
     q = r\<lparr> cr_maximum_mode := (if cr_maximum_mode r = '''' then LinkApplyLive else cr_maximum_mode r),
            cr_input_interfaces := sort_key ifi_id (cr_input_interfaces r), cr_interfaces := sort_key ifp_id (cr_interfaces r),
            cr_actions := sort_key ac_id (cr_actions r) \<rparr>"
  unfolding normalizeConnectivityRevision_def Let_def and_then_Inr require_Inr hasDuplicates_iff list_all_iff length_sort distinct_map_sort
    set_map set_sort
  by auto

lemma same_ids:
  assumes "distinct (map f xs)" "distinct (map g ys)" "f ` set xs \<subseteq> g ` set ys" "length xs = length ys"
  shows "mset (map f xs) = mset (map g ys)"
proof -
  have "card (f ` set xs) = card (g ` set ys)"
    using distinct_card [OF assms(1)] distinct_card [OF assms(2)] assms(4) by simp
  then have "f ` set xs = g ` set ys" using assms(3) by (intro card_subset_eq) simp_all
  then show ?thesis using assms(1,2) set_eq_iff_mset_eq_distinct [of "map f xs" "map g ys"] by simp
qed

lemma normalize_revision_fixed:
  assumes "normalizeConnectivityRevision r = Inr q"
  shows "normalizeConnectivityRevision q = Inr q"
proof -
  have q: "q = r\<lparr> cr_maximum_mode := (if cr_maximum_mode r = '''' then LinkApplyLive else cr_maximum_mode r),
            cr_input_interfaces := sort_key ifi_id (cr_input_interfaces r), cr_interfaces := sort_key ifp_id (cr_interfaces r),
            cr_actions := sort_key ac_id (cr_actions r) \<rparr>" using assms by (simp only: normalize_revision_Inr)
  show ?thesis using assms unfolding normalize_revision_Inr by (auto simp: q LinkApplyLive_def LinkApplyRestart_def)
qed

text \<open>Acceptance by the Pod, step by step.\<close>

lemma apply_Inr:
  "ApplyConnectivityRevision json sum256 baseInput basePlan revision = Inr (i, p) \<longleftrightarrow>
     (\<exists>r bi bp. normalizeConnectivityRevision revision = Inr r \<and> NormalizeInput json baseInput = Inr bi \<and> NormalizePlan basePlan = Inr bp \<and>
        validateIdentity json sum256 bi bp = Inr () \<and> plan_digest json sum256 bp = Inr (cr_base_plan_digest r) \<and>
        projectLiveConnectivity json sum256 bi bp (cr_input_interfaces r) (cr_interfaces r) (cr_actions r) = Inr (i, p) \<and>
        plan_digest json sum256 p = Inr (cr_desired_plan_digest r) \<and> validateIdentity json sum256 i p = Inr () \<and>
        ct_required_mode (evaluateNormalizedConnectivityTransition bi bp i p) = cr_maximum_mode r)"
  unfolding ApplyConnectivityRevision_def Let_def and_then_Inr require_Inr planning_Inr by auto

section \<open>What an applied revision changes\<close>

text \<open>
  C6: a revision changes connectivity and nothing else. If the Pod accepts a revision, the plan it goes on
  with has the nodes, containers, files, volumes, mounts and management of the plan it was created from,
  and the same other actions in the same order; the input differs in its interfaces only. The interfaces
  and the waits are those of the revision, each interface has exactly one wait, both digests are the ones
  the revision names, and no affected endpoint asks for more than a restart.
\<close>

theorem applied_revision_keeps_cold_plan:
  assumes "compacting (pj_compact json)" "ApplyConnectivityRevision json sum256 baseInput basePlan revision = Inr (i, p)"
  shows "\<exists>bi bp. NormalizeInput json baseInput = Inr bi \<and> NormalizePlan basePlan = Inr bp \<and> sameNonConnectivityInput bi i \<and>
    p\<lparr> pn_input_digest := pn_input_digest bp, pn_interfaces := pn_interfaces bp, pn_actions := pn_actions bp \<rparr> = bp \<and>
    filter (\<lambda>a. \<not> isConnectivityWaitAction a) (pn_actions p) = filter (\<lambda>a. \<not> isConnectivityWaitAction a) (pn_actions bp) \<and>
    mset (in_interfaces i) = mset (cr_input_interfaces revision) \<and> mset (pn_interfaces p) = mset (cr_interfaces revision) \<and>
    mset (connectivityWaitActions (pn_actions p)) = mset (cr_actions revision) \<and>
    mset (map wait_target (cr_actions revision)) = mset (map ifp_id (cr_interfaces revision)) \<and>
    plan_digest json sum256 bp = Inr (cr_base_plan_digest revision) \<and> plan_digest json sum256 p = Inr (cr_desired_plan_digest revision) \<and>
    ct_required_mode (evaluateNormalizedConnectivityTransition bi bp i p) \<in> {LinkApplyLive, LinkApplyRestart}"
proof -
  from assms(2) obtain r bi bp where run: "normalizeConnectivityRevision revision = Inr r" "NormalizeInput json baseInput = Inr bi"
    "NormalizePlan basePlan = Inr bp" "plan_digest json sum256 bp = Inr (cr_base_plan_digest r)"
    "projectLiveConnectivity json sum256 bi bp (cr_input_interfaces r) (cr_interfaces r) (cr_actions r) = Inr (i, p)"
    "plan_digest json sum256 p = Inr (cr_desired_plan_digest r)"
    "ct_required_mode (evaluateNormalizedConnectivityTransition bi bp i p) = cr_maximum_mode r" unfolding apply_Inr by blast
  have bp: "NormalizePlan bp = Inr bp" and bi: "NormalizeInput json bi = Inr bi"
    using NormalizePlan_fixed [OF run(3)] NormalizeInput_fixed [OF assms(1) run(2)] by blast+
  note r = run(1) [unfolded normalize_revision_Inr]
  have parts: "cr_base_plan_digest r = cr_base_plan_digest revision" "cr_desired_plan_digest r = cr_desired_plan_digest revision"
    "cr_input_interfaces r = sort_key ifi_id (cr_input_interfaces revision)" "cr_interfaces r = sort_key ifp_id (cr_interfaces revision)"
    "cr_actions r = sort_key ac_id (cr_actions revision)" using r by simp_all
  from run(5) obtain d where p: "NormalizeInput json (bi\<lparr> in_interfaces := cr_input_interfaces r \<rparr>) = Inr i"
    "p = bp\<lparr> pn_input_digest := d, pn_interfaces := sort_key ifp_id (cr_interfaces r),
             pn_actions := sort_key compareAction (merged_actions bp (cr_actions r)) \<rparr>" unfolding project_Inr [OF bp] by blast
  note i = replaced_interfaces [OF assms(1) bi p(1)]
  have "\<forall>a \<in> set (cr_actions r). isConnectivityWaitAction a" using r by (simp add: parts)
  note merged = merged_parts [OF this, of bp]
  have sorted: "sort_plan bp = bp" using bp by (simp add: NormalizePlan_self)
  have "sameNonConnectivityInput bi i" by (simp add: sameNonConnectivityInput_def i)
  moreover have "p\<lparr> pn_input_digest := pn_input_digest bp, pn_interfaces := pn_interfaces bp, pn_actions := pn_actions bp \<rparr> = bp" by (simp add: p(2))
  moreover have "filter (\<lambda>a. \<not> isConnectivityWaitAction a) (pn_actions p) = filter (\<lambda>a. \<not> isConnectivityWaitAction a) (pn_actions bp)"
    "mset (connectivityWaitActions (pn_actions p)) = mset (cr_actions revision)" using merged [OF sorted] by (simp_all add: p(2) parts)
  moreover have "mset (in_interfaces i) = mset (cr_input_interfaces revision)" "mset (pn_interfaces p) = mset (cr_interfaces revision)"
    by (simp_all add: i p(2) parts)
  moreover have "mset (map wait_target (cr_actions revision)) = mset (map ifp_id (cr_interfaces revision))"
    using r by (intro same_ids) auto
  moreover have "cr_maximum_mode r \<in> {LinkApplyLive, LinkApplyRestart}" using r by blast
  ultimately show ?thesis using run(2,3,4,6,7) parts(1,2) by metis
qed

section \<open>Revisions the controller makes\<close>

lemma match_interfaces_ids:
  assumes "match_interfaces supplied ps = Inr u" "distinct (map fst supplied)"
  shows "ifp_id ` set ps = fst ` set supplied"
  using assms
proof (induction supplied ps rule: match_interfaces.induct)
  case (2 supplied planned rest)
  then obtain x where x: "map_of supplied (ifp_id planned) = Some x" by (auto split: option.splits)
  with 2 have "ifp_id ` set rest = fst ` set (AList.delete (ifp_id planned) supplied)"
    by (auto simp: distinct_delete split: if_splits)
  moreover have "fst ` set (AList.delete (ifp_id planned) supplied) = fst ` set supplied - {ifp_id planned}"
    using arg_cong [OF AList.delete_keys [of "ifp_id planned" supplied], of set] by simp
  moreover have "ifp_id planned \<in> fst ` set supplied" using map_of_SomeD [OF x] by force
  ultimately show ?case by (simp add: insert_absorb)
qed simp

lemma index_by_keys: "distinct (map fst (index_by key xs)) \<and> fst ` set (index_by key xs) = key ` set xs"
proof (induction xs rule: rev_induct)
  case (snoc x xs)
  have "index_by key (xs @ [x]) = AList.update (key x) x (index_by key xs)" by (simp add: index_by_def)
  with snoc show ?case by (simp add: distinct_update dom_update)
qed (simp add: index_by_def)

lemma sides_Inr:
  "connectivity_sides json sum256 baseInput basePlan desiredInput desiredPlan = Inr (bi, bp, di, dp) \<longleftrightarrow>
     NormalizeInput json baseInput = Inr bi \<and> NormalizePlan basePlan = Inr bp \<and> validateIdentity json sum256 bi bp = Inr () \<and>
     NormalizeInput json desiredInput = Inr di \<and> NormalizePlan desiredPlan = Inr dp \<and> validateIdentity json sum256 di dp = Inr () \<and>
     sameNonConnectivityInput bi di \<and> pn_schema_version bp = pn_schema_version dp \<and> pn_compatibility bp = pn_compatibility dp \<and>
     pn_planner bp = pn_planner dp"
  unfolding connectivity_sides_def and_then_Inr require_Inr planning_Inr by auto

lemma validateIdentity_Inr:
  assumes "compacting (pj_compact json)" "NormalizeInput json i = Inr i" "NormalizePlan p = Inr p"
  shows "validateIdentity json sum256 i p = Inr () \<longleftrightarrow>
     pn_input_digest p = Digest sum256 (pj_encode_input json i) \<and> pn_compatibility p = in_compatibility i \<and>
     match_interfaces (index_by ifi_id (in_interfaces i)) (pn_interfaces p) = Inr () \<and>
     match_management (index_by mi_node_id (in_management i)) (pn_management p) = Inr ()"
  unfolding validateIdentity_def and_then_Inr require_Inr planning_Inr assms(2,3)
  using input_digest_normal [OF assms(1,2), of sum256] by auto

lemma interface_ids:
  assumes "compacting (pj_compact json)" "NormalizeInput json i = Inr i" "NormalizePlan p = Inr p" "validateIdentity json sum256 i p = Inr ()"
  shows "distinct (map ifi_id (in_interfaces i))" "distinct (map ifp_id (pn_interfaces p))"
    "ifp_id ` set (pn_interfaces p) = ifi_id ` set (in_interfaces i)" "'''' \<notin> ifi_id ` set (in_interfaces i)"
    "length (in_interfaces i) = length (pn_interfaces p)"
proof -
  show di: "distinct (map ifi_id (in_interfaces i))" using NormalizeInput_self(2) [OF assms(1,2)] by (simp add: validateInput_None)
  show dp: "distinct (map ifp_id (pn_interfaces p))" using NormalizePlan_valid [OF assms(3)] by (simp add: validatePlan_None distinct_ids_def)
  have "match_interfaces (index_by ifi_id (in_interfaces i)) (pn_interfaces p) = Inr ()" using assms(4) unfolding validateIdentity_Inr [OF assms(1-3)] by blast
  then show eq: "ifp_id ` set (pn_interfaces p) = ifi_id ` set (in_interfaces i)" using match_interfaces_ids index_by_keys by metis
  show "'''' \<notin> ifi_id ` set (in_interfaces i)"
    using NormalizeInput_self(2) [OF assms(1,2)] by (auto simp: validateInput_None check_interface_input_def Let_def)
  show "length (in_interfaces i) = length (pn_interfaces p)" using distinct_card [OF di] distinct_card [OF dp] eq by simp
qed

lemma effective_identity:
  assumes "compacting (pj_compact json)" "connectivity_sides json sum256 baseInput basePlan desiredInput desiredPlan = Inr (bi, bp, di, dp)"
    "projectLiveConnectivity json sum256 bi bp (in_interfaces di) (pn_interfaces dp) ws = Inr (i, p)"
  shows "i = di" "NormalizePlan p = Inr p" "pn_interfaces p = pn_interfaces dp" "validateIdentity json sum256 i p = Inr ()"
proof -
  note sides = assms(2) [unfolded sides_Inr]
  have bi: "NormalizeInput json bi = Inr bi" and di: "NormalizeInput json di = Inr di" and bp: "NormalizePlan bp = Inr bp" and dp: "NormalizePlan dp = Inr dp"
    using sides NormalizePlan_fixed NormalizeInput_fixed [OF assms(1)] by blast+
  from assms(3) obtain d where p: "NormalizeInput json (bi\<lparr> in_interfaces := in_interfaces di \<rparr>) = Inr i" "input_digest json sum256 i = Inr d"
    "p = bp\<lparr> pn_input_digest := d, pn_interfaces := sort_key ifp_id (pn_interfaces dp), pn_actions := sort_key compareAction (merged_actions bp ws) \<rparr>"
    "validatePlan p = None" unfolding project_Inr [OF bp] by blast
  have same: "bi\<lparr> in_interfaces := in_interfaces di \<rparr> = di" using sides same_rest by blast
  show i: "i = di" using p(1) di unfolding same by simp
  have "sort_plan dp = dp" using dp by (simp add: NormalizePlan_self)
  then have ps: "sort_key ifp_id (pn_interfaces dp) = pn_interfaces dp" by (metis sort_plan_fields(12))
  show eq: "pn_interfaces p = pn_interfaces dp" by (simp add: p(3) ps)
  have self: "default_plan bp = bp" "sort_plan bp = bp" using bp by (simp_all add: NormalizePlan_self)
  have "default_plan p = p" "sort_plan p = p" unfolding p(3) replaced_connectivity [OF self] sort_key_idem by (rule refl)+
  with p(4) show fixed: "NormalizePlan p = Inr p" by (simp add: NormalizePlan_self)
  have "d = Digest sum256 (pj_encode_input json di)" using p(2) input_digest_normal [OF assms(1) di, of sum256] unfolding i by simp
  moreover have "in_compatibility di = in_compatibility bi" "in_management di = in_management bi"
    using arg_cong [OF same, of in_compatibility] arg_cong [OF same, of in_management] by simp_all
  moreover have "pn_compatibility p = pn_compatibility bp" "pn_management p = pn_management bp" "pn_input_digest p = d" by (simp_all add: p(3))
  ultimately show "validateIdentity json sum256 i p = Inr ()"
    using sides unfolding i validateIdentity_Inr [OF assms(1) di fixed] validateIdentity_Inr [OF assms(1) bi bp] validateIdentity_Inr [OF assms(1) di dp]
    by (metis eq)
qed

text \<open>
  C5: every transition within the allowed mode reaches the Pod. If the transition between two plans is
  valid and no affected endpoint asks for more than the allowed mode, Live or Restart, and the desired plan
  waits once for each of its interfaces, then the controller makes a revision, the Pod accepts it, and
  goes on with exactly the desired input, interfaces and waits.
\<close>

theorem revision_reaches_desired:
  assumes "compacting (pj_compact json)" "sha256_sized sum256"
    "EvaluateConnectivityTransition json sum256 baseInput basePlan desiredInput desiredPlan = Inr t"
    "maximumMode \<in> {LinkApplyLive, LinkApplyRestart}" "linkApplyModeRank (ct_required_mode t) \<le> linkApplyModeRank maximumMode"
    "NormalizeInput json desiredInput = Inr di" "NormalizePlan desiredPlan = Inr dp"
    "mset (map wait_target (connectivityWaitActions (pn_actions dp))) = mset (map ifp_id (pn_interfaces dp))"
  shows "\<exists>revision p. NewConnectivityRevisionForMode json sum256 baseInput basePlan desiredInput desiredPlan maximumMode = Inr revision \<and>
    ApplyConnectivityRevision json sum256 baseInput basePlan revision = Inr (di, p) \<and> cr_maximum_mode revision = ct_required_mode t \<and>
    pn_interfaces p = pn_interfaces dp \<and> connectivityWaitActions (pn_actions p) = connectivityWaitActions (pn_actions dp)"
proof -
  let ?waits = "connectivityWaitActions (pn_actions dp)"
  from assms(3) obtain bi bp i p where sides: "connectivity_sides json sum256 baseInput basePlan desiredInput desiredPlan = Inr (bi, bp, di, dp)"
    and project: "projectLiveConnectivity json sum256 bi bp (in_interfaces di) (pn_interfaces dp) ?waits = Inr (i, p)"
    and t: "t = evaluateNormalizedConnectivityTransition bi bp i p"
    using assms(6,7) unfolding EvaluateConnectivityTransition_def and_then_Inr by (auto simp: sides_Inr)
  note s = sides [unfolded sides_Inr] and effective = effective_identity [OF assms(1) sides project]
  have bp: "NormalizePlan bp = Inr bp" and bi: "NormalizeInput json bi = Inr bi" and di: "NormalizeInput json di = Inr di" and dp: "NormalizePlan dp = Inr dp"
    using s NormalizePlan_fixed NormalizeInput_fixed [OF assms(1)] by blast+
  have "validateIdentity json sum256 di dp = Inr ()" using s by blast
  note ids = interface_ids [OF assms(1) di dp this]
  have mode: "ct_required_mode t = LinkApplyLive \<or> ct_required_mode t = LinkApplyRestart"
    using assms(4,5) linkApplyModeRank_inj [of "ct_required_mode t"] by (auto simp: linkApplyModeRank_def split: if_splits)
  let ?rev = "\<lparr> cr_schema_version = ConnectivityRevisionSchemaVersion, cr_base_plan_digest = Digest sum256 (pj_encode_plan json bp),
      cr_desired_plan_digest = Digest sum256 (pj_encode_plan json p), cr_maximum_mode = ct_required_mode t,
      cr_input_interfaces = in_interfaces di, cr_interfaces = pn_interfaces dp, cr_actions = ?waits \<rparr>"
  have sorted: "sort_key ifi_id (in_interfaces di) = in_interfaces di" "sort_key ifp_id (pn_interfaces dp) = pn_interfaces dp"
    "sort_key compareAction (pn_actions dp) = pn_actions dp"
    using sorted_input_interfaces [OF NormalizeInput_self(3) [OF assms(1) di]] dp NormalizePlan_self [of dp]
    by (simp, metis sort_plan_fields(12), metis sort_plan_fields(10))
  have waits: "set (map wait_target ?waits) = ifp_id ` set (pn_interfaces dp)" "distinct (map wait_target ?waits)" "length ?waits = length (pn_interfaces dp)"
    using mset_eq_setD [OF assms(8)] ids(2) mset_eq_imp_distinct_iff [OF assms(8)] mset_eq_length [OF assms(8)] by simp_all
  have all: "\<forall>a \<in> set ?waits. isConnectivityWaitAction a" by (simp add: connectivityWaitActions_def)
  have normal: "normalizeConnectivityRevision ?rev = Inr (?rev\<lparr> cr_actions := sort_key ac_id ?waits \<rparr>)"
    unfolding normalize_revision_Inr using mode ids waits all valid_digests [OF assms(2)] sorted
    by (auto simp: LinkApplyLive_def LinkApplyRestart_def)
  have "projectLiveConnectivity json sum256 bi bp (in_interfaces di) (pn_interfaces dp) (sort_key ac_id ?waits) = Inr (i, p)"
    by (rule project_perm [OF bp project]) simp
  then have accepted: "ApplyConnectivityRevision json sum256 b q ?rev = Inr (di, p)"
    if "NormalizeInput json b = Inr bi" "NormalizePlan q = Inr bp" for b q
    unfolding apply_Inr normal using that s effective t plan_digest_normal [OF bp] plan_digest_normal [OF effective(2)] by simp
  have new: "NewConnectivityRevisionForMode json sum256 baseInput basePlan desiredInput desiredPlan maximumMode = Inr ?rev"
    unfolding NewConnectivityRevisionForMode_def Let_def sides and_then_simps case_prod_conv plan_digest_normal [OF bp] project
      plan_digest_normal [OF effective(2)] t [symmetric]
    using assms(4,5) accepted [OF bi bp] by (simp add: require_def planning_def plan_digest_normal [OF bp] plan_digest_normal [OF effective(2)])
  have "connectivityWaitActions (pn_actions p) = sort_key compareAction ?waits"
    using project merged_parts(2) [OF all, of bp] bp unfolding project_Inr [OF bp] by (auto simp: NormalizePlan_self)
  also have "\<dots> = ?waits" unfolding connectivityWaitActions_def filter_sort [symmetric] sorted(3) ..
  finally show ?thesis using new accepted s effective(3) by auto
qed

section \<open>A concrete transition\<close>

definition sample_interface_input :: "string \<Rightarrow> int \<Rightarrow> interface_input" where
  "sample_interface_input i mtu = \<lparr> ifi_id = i, ifi_node_id = ''r1'', ifi_name = i, ifi_link_id = ''l-'' @ i, ifi_link_name = '''',
     ifi_peer_node_id = '''', ifi_peer_interface = '''', ifi_peer_transport = '''', ifi_connectivity = ''wire'', ifi_wire_id = 7, ifi_mtu = mtu \<rparr>"

definition sample_plan_input :: "interface_input list \<Rightarrow> input" where
  "sample_plan_input interfaces = \<lparr> in_schema_version = SchemaVersion, in_topology_name = ''lab'', in_compatibility = sample_compatibility,
     in_entropy_digest = '''',
     in_nodes = [\<lparr> ni_id = ''r1'', ni_name = ''r1'', ni_kind = ''linux'', ni_type = '''', ni_group_owner = '''', ni_definition = ''{}'' \<rparr>],
     in_images = [], in_payloads = [], in_certificates = [], in_management = [], in_interfaces = interfaces \<rparr>"

definition sample_json :: plan_json where
  "sample_json = \<lparr> pj_compact = Some, pj_encode_input = (\<lambda>_. ''{}''), pj_encode_plan = (\<lambda>_. ''{}''),
     pj_decode_input = (\<lambda>_. None), pj_decode_plan = (\<lambda>_. None) \<rparr>"

definition sample_sum :: digest where
  "sample_sum raw = replicate 32 0"

text \<open>The MTU of one interface changes, for which its node wants a restart, and a second interface is added.\<close>

definition sample_before :: "input \<times> plan" where
  "sample_before = (sample_plan_input [sample_interface_input ''e0'' 1500],
     sample_plan [] sample_sha [sample_interface_plan ''e0'' LinkApplyRestart 1500])"

definition sample_after :: "input \<times> plan" where
  "sample_after = (sample_plan_input [sample_interface_input ''e1'' 1500, sample_interface_input ''e0'' 9000],
     sample_plan [] sample_sha [sample_interface_plan ''e1'' LinkApplyLive 1500, sample_interface_plan ''e0'' LinkApplyRestart 9000])"

definition sample_transition :: connectivity_transition where
  "sample_transition = \<lparr> ct_changed = True, ct_required_mode = LinkApplyRestart, ct_affected_node_ids = [''r1''] \<rparr>"

definition normal_after :: "input \<times> plan" where
  "normal_after = (sort_input (fst sample_after), sort_plan (default_plan (snd sample_after)))"

lemma sample_evaluates:
  "EvaluateConnectivityTransition sample_json sample_sum (fst sample_before) (snd sample_before) (fst sample_after) (snd sample_after) =
     Inr sample_transition"
  by code_simp

lemma sample_hypotheses: "compacting (pj_compact sample_json)" "sha256_sized sample_sum"
  by (simp_all add: compacting_def sample_json_def sha256_sized_def sample_sum_def)

lemma sample_normal:
  "NormalizeInput sample_json (fst sample_after) = Inr (fst normal_after)" "NormalizePlan (snd sample_after) = Inr (snd normal_after)"
  "map wait_target (connectivityWaitActions (pn_actions (snd normal_after))) = map ifp_id (pn_interfaces (snd normal_after))"
  "map ifp_mtu (pn_interfaces (snd normal_after)) = [9000, 1500]"
  by code_simp+

lemma revision_reaches_desired_witness:
  "\<exists>revision p. NewConnectivityRevisionForMode sample_json sample_sum (fst sample_before) (snd sample_before) (fst sample_after) (snd sample_after) LinkApplyRestart = Inr revision \<and>
     ApplyConnectivityRevision sample_json sample_sum (fst sample_before) (snd sample_before) revision = Inr (fst normal_after, p) \<and>
     map ifp_mtu (pn_interfaces p) = [9000, 1500]"
proof -
  have mode: "LinkApplyRestart \<in> {LinkApplyLive, LinkApplyRestart}" by simp
  have rank: "linkApplyModeRank (ct_required_mode sample_transition) \<le> linkApplyModeRank LinkApplyRestart" by (simp add: sample_transition_def)
  have waits: "mset (map wait_target (connectivityWaitActions (pn_actions (snd normal_after)))) = mset (map ifp_id (pn_interfaces (snd normal_after)))"
    unfolding sample_normal(3) ..
  show ?thesis
    using revision_reaches_desired [OF sample_hypotheses sample_evaluates mode rank sample_normal(1,2) waits] sample_normal(4) by auto
qed

definition sample_revision :: connectivity_revision where
  "sample_revision = \<lparr> cr_schema_version = ConnectivityRevisionSchemaVersion, cr_base_plan_digest = sample_sha, cr_desired_plan_digest = sample_sha,
     cr_maximum_mode = LinkApplyRestart, cr_input_interfaces = in_interfaces (fst sample_after), cr_interfaces = pn_interfaces (snd sample_after),
     cr_actions = pn_actions (snd sample_after) \<rparr>"

lemma sample_applied:
  "case ApplyConnectivityRevision sample_json sample_sum (fst sample_before) (snd sample_before) sample_revision of
     Inr (i, p) \<Rightarrow> length (pn_interfaces p) = 2 | Inl _ \<Rightarrow> False"
  by code_simp

lemma applied_revision_keeps_cold_plan_witness:
  "\<exists>i p bp. ApplyConnectivityRevision sample_json sample_sum (fst sample_before) (snd sample_before) sample_revision = Inr (i, p) \<and>
     NormalizePlan (snd sample_before) = Inr bp \<and> length (pn_interfaces p) = 2 \<and>
     p\<lparr> pn_input_digest := pn_input_digest bp, pn_interfaces := pn_interfaces bp, pn_actions := pn_actions bp \<rparr> = bp"
proof -
  from sample_applied obtain i p where run:
    "ApplyConnectivityRevision sample_json sample_sum (fst sample_before) (snd sample_before) sample_revision = Inr (i, p)"
    and two: "length (pn_interfaces p) = 2" by (auto split: sum.splits prod.splits)
  from applied_revision_keeps_cold_plan [OF sample_hypotheses(1) run] run two show ?thesis by blast
qed


end
