(* ===== verification/Spec2Isabelle.thy ===== *)
theory Spec2Isabelle
  imports Link_Reconcile Fabric_Delivery Startup_Admission Topology_Reconcile Peer_Directory_Controller
    Connectivity_Live
begin

text \<open>
  A verification library for clabernetes, a Kubernetes manager that runs containerlab topologies.

  \<^bold>\<open>The program.\<close> A user writes a Topology. The topology controller compiles it into Nodes, Links and
  NodeProfiles, keeps them as compiled, starts them in batches and aggregates their status. The link
  controller decides which Links are accepted and gives every accepted Link between two Pods a wire
  id. The node controller turns Nodes into Pods and admits their startup, by batch and by host. It also
  gives every Node its management addresses and publishes them, with the address of its Pod, in a
  sharded peer directory that all Pods of the namespace mount. A Pod is created from a device plan that
  never changes; a change of its Links reaches it as a connectivity revision that replaces the interfaces
  of the plan. Inside each Pod a fabric wire carries the frames and the carrier state of its Links to the
  peer Pods over UDP.

  \<^bold>\<open>Shared theories.\<close>

  \<^item> \<open>Prelude\<close>: Go maps as association lists with distinct keys (\<open>gomap\<close>), the functions of \<open>strings\<close> and
    \<open>strconv\<close> the source uses, and the facts on sorting by name that the controller passes rely on.
  \<^item> \<open>Api_Types\<close>: Nodes and Links of \<open>src/apis/v1alpha1\<close> as records, with the fields the modelled code
    reads or writes.
  \<^item> \<open>Topology_Types\<close>: Topologies (\<open>src/apis/v1alpha1/topology.go\<close>), the Pod fields the startup
    controllers read, and the ownership tests of \<open>src/controllers/topology/reconcile.go\<close>.

  \<^bold>\<open>Links.\<close>

  \<^item> \<open>Grouping\<close> (\<open>src/util/containerlab/grouping.go\<close>, \<open>networkmode.go\<close>): primaries of shared network
    namespaces. The walk along the references ends because it never visits a Node twice; without cycles
    the groups partition the Nodes.
  \<^item> \<open>Link_Endpoints\<close> (\<open>src/util/containerlab/links.go\<close>): which Links own which interfaces. The locale
    \<open>arbitration\<close> holds the argument that claiming in name order accepts a Link exactly when no accepted
    Link of smaller name owns one of its interfaces.
  \<^item> \<open>Wire_Ids\<close> (\<open>src/controllers/link/allocate.go\<close>): reservation and allocation of wire ids; the locale
    \<open>wire_allocator\<close> states what the pass relies on.
  \<^item> \<open>Link_Reconcile\<close> (\<open>src/controllers/link/reconcile.go\<close>): the namespace pass. Ids are unique, held
    exactly by the accepted wired Links, and a second pass is idle.

  \<^bold>\<open>Fabric wire.\<close>

  \<^item> \<open>Fabric_Codec\<close> (\<open>src/internal/directruntime/wire.go\<close>): headers, fragments and link states as bytes,
    with fields of their width as words; the locale \<open>fixed_codec\<close> carries the round trips.
  \<^item> \<open>Wire_Reassembly\<close> (same file): expiry, eviction, admission and completion of frames.
  \<^item> \<open>Fabric_Wire\<close>, \<open>Fabric_Carrier\<close>, \<open>Fabric_Delivery\<close> (\<open>src/internal/directruntime/wire_linux.go\<close>): the
    endpoint as a record, one definition per method, a step function over all of them, the carrier
    invariant of its reachable states and end-to-end delivery. Panics are the value \<open>EnsurePanic\<close> or
    \<open>None\<close>.

  \<^bold>\<open>Topologies.\<close>

  \<^item> \<open>Observation_Cache\<close> (\<open>src/controllers/observationcache.go\<close>): the cache of compiled observations with
    64 bit tokens, the change test, the event predicate and the wrapped handlers. The locale \<open>epoch_cache\<close>
    shows that a result computed before an invalidation is not stored, as long as the counter has not
    wrapped around.
  \<^item> \<open>Topology_Emit\<close> (\<open>src/controllers/topology/reconcile.go\<close>): conflicts, drift checks, carry-over and the
    create, update and prune pass. The locale \<open>emitted_objects\<close> holds the contract of an emitted kind and
    the effect of a pass on the store; it is interpreted for Nodes, Links and NodeProfiles. A pass
    leaves exactly the rendered objects among the generated ones and is idle when repeated.
  \<^item> \<open>Topology_Rollout\<close> (\<open>src/controllers/topology/rollout.go\<close>): startup batches of one Topology, bounded
    and making progress.
  \<^item> \<open>Topology_Status\<close> (\<open>src/controllers/topology/status.go\<close>): the desired status, the lifecycle as an
    inductive step relation, the coalescing of progress, the status patch and the write with retries.
  \<^item> \<open>Topology_Reconcile\<close> (\<open>src/controllers/topology/reconcile.go\<close>): both handlers, composed from the
    theories above: what may be emitted and when, conflicts as errors, and that coalescing loses nothing.

  \<^bold>\<open>Startup of Nodes.\<close>

  \<^item> \<open>Startup_Host\<close> (\<open>src/controllers/node/startuphost.go\<close>): the gate of a Pod and the reserve-and-grant
    pass that keeps the limits per host.
  \<^item> \<open>Startup_Admission\<close> (\<open>src/controllers/node/startupadmission.go\<close>): the installation-wide admission
    pass, its batch bound, and its tolerance of a cache that lags behind its own writes.

  \<^bold>\<open>Management addresses and the peer directory.\<close>

  \<^item> \<open>Netip\<close>: the addresses and prefixes of Go's \<open>net/netip\<close> as words, with its parser and printer; the
    printed form determines the address.
  \<^item> \<open>Peer_Directory\<close> (\<open>src/internal/directruntime/peerdirectory.go\<close>, \<open>peerdirectoryreader.go\<close>): the shards,
    their rendering, the tolerant reader and the reader that skips unchanged files. What is rendered is
    read back, a change to one Node rewrites one shard, a bad file costs only its own peers.
  \<^item> \<open>Management_Addresses\<close> (\<open>src/controllers/node/directmanagement.go\<close>, and \<open>compileDirectManagement\<close> of
    \<open>direct.go\<close>): pools, validation of declared addresses, the probing allocation and the compiled inputs.
    The locale \<open>address_allocator\<close> is the contract of the allocation that the compiled identities rely on.
  \<^item> \<open>Management_Identities\<close> (same files): the allocation is safe and does not depend on map order, the
    probe finds the first free candidate, the identities of one policy are unique, the inputs given to a
    Pod are the ones its peers read.
  \<^item> \<open>Peer_Directory_Controller\<close> (\<open>src/controllers/node/directpeerdirectory.go\<close>,
    \<open>peerdirectorycontroller.go\<close>): the passes that write the shards with retries. A pass without error leaves
    ConfigMaps from which a Pod reads the compiled peers, and every Node has the address of its own policy.
    Two policies over one subnet may choose the same address for two Nodes (\<open>policies_share_an_address\<close>).

  \<^bold>\<open>Device plans and connectivity revisions.\<close>

  \<^item> \<open>Plan_Types\<close> (\<open>src/internal/deviceplan/types.go\<close>): planner inputs and device plans, one record per
    struct; optional pointers are options, enumerations are the source's strings.
  \<^item> \<open>Plan_Codec\<close> (\<open>src/internal/deviceplan/codec.go\<close>): every check of an input and of a plan, as a definition
    per loop of the source in the order of the source, normalization, canonical JSON and digests.
  \<^item> \<open>Plan_Normal\<close> (same file): the locale \<open>element_check\<close> turns a loop with its map of seen keys into a
    condition on each element and on each pair; it is interpreted for every loop. A plan is normalized
    without reading through a nil pointer, the order of set-like fields does not reach the normal form
    when keys are not repeated, and the containers, mounts, volumes, interfaces and files that nodes,
    containers and actions of a normalized plan refer to exist.
  \<^item> \<open>Plan_Inputs\<close> (same file): the same for inputs; canonical JSON is read back; the management inputs
    compiled by the node controller pass the validation of the planner.
  \<^item> \<open>Connectivity_Revision\<close>, \<open>Connectivity_Live\<close> (the first part of
    \<open>src/internal/directruntime/connectivity.go\<close>): transitions, identities, and making and applying
    revisions. A transition costs what its endpoints ask for, every transition within the allowed mode
    reaches the Pod, and an applied revision changes connectivity and nothing else.

  \<^bold>\<open>Conventions.\<close> The Kubernetes client, the kernel, the clock and third-party functions are records of
  functions given to the definitions (\<open>link_api\<close>, \<open>wire_env\<close>, \<open>rollout_api\<close>, \<open>host_api\<close>,
  \<open>admission_api\<close>, \<open>emit_api\<close>, \<open>status_api\<close>, \<open>topology_env\<close>, \<open>cm_api\<close>, \<open>peer_codec\<close> and \<open>plan_json\<close> for JSON, \<open>digest\<close> for
  SHA-256); their answers may depend on the calls made
  before. What a theorem needs of them is a named hypothesis: \<open>faithful_status_update\<close>,
  \<open>keeps_patched_status\<close>, \<open>patch_keeps_uid\<close>, \<open>patch_keeps_identity\<close>, \<open>sets_controller\<close>,
  \<open>controller_by_owners\<close>, \<open>faithful_store\<close>, \<open>unique_names\<close>, \<open>faithful_codec\<close>,
  \<open>faithful_json\<close>, \<open>compacting\<close>, \<open>sha256_sized\<close>. Plans and revisions are copied through JSON, which
  returns them unchanged when their strings are UTF-8 text; a nil and an empty slice are the same list.
  Formatted messages of the link controller are
  constructors of datatypes. Iteration over a Go map follows the order of the association list, which
  the theorems leave arbitrary; unstable sorts are modelled by a stable sort on the compared key. Go's
  \<open>int\<close> and times are unbounded integers; wire fields and cache tokens keep their width.

  \<^bold>\<open>Bounds.\<close> Loops are structural recursion or have a termination proof. The only fuel is the number of
  retries of \<open>RetryOnConflict\<close> in \<open>status_retry\<close> and of \<open>OnError\<close> in \<open>reconcile_shard\<close>; it is the step count
  of the library's backoff, and the theorems hold for every value of it. The probe loop of the address
  allocation keeps the source's bound on its attempts.

  \<^bold>\<open>Not modelled.\<close> The containerlab compiler and the renderer of Pods (\<open>src/compiler\<close>,
  \<open>src/internal/directpod\<close>) and the planner itself (the adapter, mapper, preparer and worker of
  \<open>src/internal/deviceplan\<close>), which build values of third-party types; the netlink and socket code of \<open>src/internal/directruntime\<close>; the workload part of
  the node controller (the rest of \<open>src/controllers/node/direct.go\<close>); the event filters and the lock that
  serializes the writers of one namespace, which decide when a pass runs; command line, logging, watch
  set-up and generated code. The compiler and the renderer are parameters of the topology controller.
\<close>

end
